(* ===== verification/Prelude.thy ===== *)
theory Prelude
  imports Main "HOL-Library.Char_ord" "HOL-Library.List_Lexorder" "HOL-Library.AList"
begin

text \<open>
  What every component shares: the error values of the Go code, the operations of the packages
  \<^verbatim>\<open>errors\<close>, \<^verbatim>\<open>strings\<close>, \<^verbatim>\<open>strconv\<close>, \<^verbatim>\<open>sort\<close> and \<^verbatim>\<open>path/filepath\<close> that the source
  uses, and the lemma collections the component theories are proved with.

  A Go \<^verbatim>\<open>string\<close> and a Go \<^verbatim>\<open>[]byte\<close> are both sequences of bytes, and so is a list of HOL
  characters (a \<^typ>\<open>char\<close> is eight bits): both are \<open>bytes\<close> here. A Go map is an association
  list with distinct keys; its order stands for the unspecified iteration order of the map.
\<close>

named_theorems go_simps \<open>rewrite rules that evaluate the models of the Go library\<close>

type_synonym bytes = "char list"

subsection \<open>Errors\<close>

text \<open>
  An error is a sentinel of the Go library, an error value that code outside this repository made
  (\<open>OsErr\<close>: an opaque error of the kernel or of a library), or an error this repository makes.
  The latter are \<open>Errorf\<close> (of \<^verbatim>\<open>fmt.Errorf\<close> and \<^verbatim>\<open>errors.New\<close>): the format as the source writes
  it, the arguments of its verbs except \<open>%w\<close>, and the error that \<open>%w\<close> wraps.
\<close>

datatype connect_code = CodeInvalidArgument | CodeNotFound | CodeUnavailable | CodeUnimplemented

datatype go_error =
    EOF
  | ErrClosed
  | ErrNotExist
  | ErrServerClosed
  | ErrBodyNotAllowed
  | DeadlineExceeded
  | Canceled
  | OsErr string
  | CloseErr nat
  | ExitErr int
  | Errorf string "string list" "go_error option"
  | ConnectErr connect_code go_error

type_synonym 'a result = "go_error + 'a"

abbreviation errors_new :: "string \<Rightarrow> go_error" where
  "errors_new msg \<equiv> Errorf msg [] None"

text \<open>\<^verbatim>\<open>errors.Is\<close>: the error or one it wraps is the target.\<close>

fun errors_is :: "go_error \<Rightarrow> go_error \<Rightarrow> bool" where
  "errors_is (Errorf f a None) t = (Errorf f a None = t)"
| "errors_is (Errorf f a (Some e)) t = (Errorf f a (Some e) = t \<or> errors_is e t)"
| "errors_is (ConnectErr c e) t = (ConnectErr c e = t \<or> errors_is e t)"
| "errors_is e t = (e = t)"

lemma errors_is_refl [simp]: "errors_is e e"
  by (cases "(e, e)" rule: errors_is.cases) auto

text \<open>A case distinction on a result that both \<open>simp\<close> and \<open>auto\<close> can split.\<close>

definition bind_result :: "'a result \<Rightarrow> ('a \<Rightarrow> 'b result) \<Rightarrow> 'b result" where
  "bind_result r f = (case r of Inl e \<Rightarrow> Inl e | Inr x \<Rightarrow> f x)"

lemma bind_result_simps [simp]:
  "bind_result (Inl e) f = Inl e"
  "bind_result (Inr x) f = f x"
  by (simp_all add: bind_result_def)

lemma bind_result_eq_Inr: "bind_result r f = Inr y \<longleftrightarrow> (\<exists>x. r = Inr x \<and> f x = Inr y)"
  by (cases r) auto

lemma bind_result_eq_Inl: "bind_result r f = Inl e \<longleftrightarrow> r = Inl e \<or> (\<exists>x. r = Inr x \<and> f x = Inl e)"
  by (cases r) auto

subsection \<open>Package strings\<close>

definition has_prefix :: "bytes \<Rightarrow> bytes \<Rightarrow> bool" where
  "has_prefix s p \<longleftrightarrow> take (length p) s = p"

definition trim_prefix :: "bytes \<Rightarrow> bytes \<Rightarrow> bytes" where
  "trim_prefix s p = (if has_prefix s p then drop (length p) s else s)"

definition has_suffix :: "bytes \<Rightarrow> bytes \<Rightarrow> bool" where
  "has_suffix s p \<longleftrightarrow> length p \<le> length s \<and> drop (length s - length p) s = p"

definition trim_suffix :: "bytes \<Rightarrow> bytes \<Rightarrow> bytes" where
  "trim_suffix s p = (if has_suffix s p then take (length s - length p) s else s)"

text \<open>\<^verbatim>\<open>strings.Cut\<close> at the first occurrence of a one-byte separator.\<close>

fun cut :: "bytes \<Rightarrow> char \<Rightarrow> (bytes \<times> bytes) option" where
  "cut [] sep = None"
| "cut (c # s) sep =
     (if c = sep then Some ([], s)
      else case cut s sep of None \<Rightarrow> None | Some (a, b) \<Rightarrow> Some (c # a, b))"

fun join :: "bytes list \<Rightarrow> bytes \<Rightarrow> bytes" where
  "join [] sep = []"
| "join [s] sep = s"
| "join (s # t # ts) sep = s @ sep @ join (t # ts) sep"

lemma has_prefix_append [simp]: "has_prefix (p @ s) p"
  by (simp add: has_prefix_def)

lemma trim_prefix_append [simp]: "trim_prefix (p @ s) p = s"
  by (simp add: trim_prefix_def)

lemma has_prefix_iff: "has_prefix s p \<longleftrightarrow> (\<exists>t. s = p @ t)"
  unfolding has_prefix_def by (metis append_eq_conv_conj)

lemma has_prefixE: "has_prefix s p \<Longrightarrow> (\<And>t. s = p @ t \<Longrightarrow> P) \<Longrightarrow> P"
  by (auto simp: has_prefix_iff)

lemma has_suffix_append [simp]: "has_suffix (s @ p) p"
  by (simp add: has_suffix_def)

lemma trim_suffix_append [simp]: "trim_suffix (s @ p) p = s"
  by (simp add: trim_suffix_def)

lemma cut_append: "sep \<notin> set a \<Longrightarrow> cut (a @ sep # b) sep = Some (a, b)"
  by (induction a) auto

lemma cut_Some_dest: "cut s sep = Some (a, b) \<Longrightarrow> s = a @ sep # b \<and> sep \<notin> set a"
  by (induction s arbitrary: a) (auto split: option.splits if_splits)

lemma cut_Some: "cut s sep = Some (a, b) \<longleftrightarrow> s = a @ sep # b \<and> sep \<notin> set a"
  using cut_append cut_Some_dest by blast

lemma cut_None: "cut s sep = None \<longleftrightarrow> sep \<notin> set s"
  by (induction s) (auto split: option.splits)

subsection \<open>Package strconv\<close>

definition digit_char :: "nat \<Rightarrow> char" where
  "digit_char d = char_of (48 + d)"

fun utoa :: "nat \<Rightarrow> bytes" where
  "utoa n = (if n < 10 then [digit_char n] else utoa (n div 10) @ [digit_char (n mod 10)])"

declare utoa.simps [simp del]

definition itoa :: "int \<Rightarrow> bytes" where
  "itoa i = (if i < 0 then CHR ''-'' # utoa (nat (- i)) else utoa (nat i))"

lemma utoa_nonempty [simp]: "utoa n \<noteq> []"
  by (subst utoa.simps) simp

subsection \<open>Package sort\<close>

text \<open>
  \<^verbatim>\<open>sort.Strings\<close> orders by bytes: the lexicographic order of \<^theory_text>\<open>HOL-Library.List_Lexorder\<close>
  over the order of characters by their code.
\<close>

definition sort_strings :: "string list \<Rightarrow> string list" where
  "sort_strings = sort"

lemma set_sort_strings [simp]: "set (sort_strings xs) = set xs"
  by (simp add: sort_strings_def)

lemma sorted_sort_strings [simp]: "sorted (sort_strings xs)"
  by (simp add: sort_strings_def)

lemma distinct_sort_strings [simp]: "distinct (sort_strings xs) = distinct xs"
  by (simp add: sort_strings_def)

lemma sort_strings_unique:
  "distinct xs \<Longrightarrow> distinct ys \<Longrightarrow> set xs = set ys \<Longrightarrow> sort_strings xs = sort_strings ys"
  unfolding sort_strings_def by (metis sorted_list_of_set_sort_remdups distinct_remdups_id)

subsection \<open>Package filepath (Unix)\<close>

text \<open>
  \<^verbatim>\<open>filepath.Clean\<close> over path elements: empty elements and \<open>.\<close> vanish, \<open>..\<close> takes the element
  before it away where there is one, and vanishes at the root.
\<close>

fun split_slash :: "bytes \<Rightarrow> bytes list" where
  "split_slash [] = [[]]"
| "split_slash (c # s) =
     (if c = CHR ''/'' then [] # split_slash s
      else case split_slash s of [] \<Rightarrow> [[c]] | e # es \<Rightarrow> (c # e) # es)"

fun clean_elems :: "bool \<Rightarrow> bytes list \<Rightarrow> bytes list \<Rightarrow> bytes list" where
  "clean_elems rooted stack [] = rev stack"
| "clean_elems rooted stack (e # es) =
     (if e = [] \<or> e = ''.'' then clean_elems rooted stack es
      else if e = ''..'' then
        (case stack of
           [] \<Rightarrow> clean_elems rooted (if rooted then [] else [''..'']) es
         | t # ts \<Rightarrow> clean_elems rooted (if t = ''..'' then ''..'' # stack else ts) es)
      else clean_elems rooted (e # stack) es)"

definition path_clean :: "bytes \<Rightarrow> bytes" where
  "path_clean p =
     (let rooted = has_prefix p ''/'';
          body = join (clean_elems rooted [] (split_slash p)) ''/''
      in if rooted then ''/'' @ body else if body = [] then ''.'' else body)"

text \<open>\<^verbatim>\<open>filepath.Dir\<close> and \<^verbatim>\<open>filepath.Join\<close> of non-empty elements.\<close>

definition path_dir :: "bytes \<Rightarrow> bytes" where
  "path_dir p = path_clean (rev (dropWhile (\<lambda>c. c \<noteq> CHR ''/'') (rev p)))"

definition path_join :: "bytes list \<Rightarrow> bytes" where
  "path_join es = path_clean (join es ''/'')"

subsection \<open>Association lists as Go maps\<close>

lemma map_of_update [simp]: "map_of (AList.update k v al) = (map_of al)(k \<mapsto> v)"
  by (rule update_conv')

lemma keys_update: "set (map fst (AList.update k v al)) = insert k (set (map fst al))"
  by (metis dom_map_of_conv_image_fst dom_fun_upd map_of_update image_set option.distinct(1))

lemma map_of_None_key: "map_of al k = None \<longleftrightarrow> k \<notin> set (map fst al)"
  by (simp add: map_of_eq_None_iff)

end
