(* ===== verification/Io.thy ===== *)
theory Io
  imports Prelude
begin

text \<open>
  The interfaces of package \<^verbatim>\<open>io\<close>: a reader and a writer with their contracts as locales, and
  \<^verbatim>\<open>io.Copy\<close> over them. The tunnel code is written against these interfaces (\<^verbatim>\<open>net.Conn\<close>); a
  component that provides a connection interprets the locales on its own operations, and what is
  proved of \<^verbatim>\<open>io.Copy\<close> here then holds of it.

  An operation that may block forever returns an option; \<open>None\<close> is a call that does not return.
\<close>

type_synonym 's reader = "nat \<Rightarrow> 's \<Rightarrow> ((bytes \<times> go_error option) \<times> 's) option"
type_synonym 'd writer = "bytes \<Rightarrow> 'd \<Rightarrow> (nat \<times> go_error option) \<times> 'd"

subsection \<open>Contracts\<close>

text \<open>
  A reader has pending bytes and, behind them, the error its stream ends with (\<open>None\<close>: it stays
  open and a read blocks). A read into a non-empty buffer returns a non-empty part of what is
  pending, and the error only when nothing is left.
\<close>

locale byte_source =
  fixes rd :: "'s reader" and pending :: "'s \<Rightarrow> bytes" and ends :: "'s \<Rightarrow> go_error option"
    and inv :: "'s \<Rightarrow> bool"
  assumes rd_data: "inv s \<Longrightarrow> pending s \<noteq> [] \<Longrightarrow> 0 < n \<Longrightarrow>
      \<exists>b s'. rd n s = Some ((b, None), s') \<and> b \<noteq> [] \<and> length b \<le> n
        \<and> pending s = b @ pending s' \<and> ends s' = ends s \<and> inv s'"
    and rd_end: "inv s \<Longrightarrow> pending s = [] \<Longrightarrow> ends s = Some e \<Longrightarrow>
      \<exists>s'. rd n s = Some (([], Some e), s') \<and> pending s' = [] \<and> ends s' = Some e \<and> inv s'"
    and rd_block: "inv s \<Longrightarrow> pending s = [] \<Longrightarrow> ends s = None \<Longrightarrow> rd n s = None"

text \<open>A writer takes all of what it is given, or reports an error.\<close>

locale byte_sink =
  fixes wr :: "'d writer" and content :: "'d \<Rightarrow> bytes" and open_sink :: "'d \<Rightarrow> bool"
  assumes wr_all: "open_sink d \<Longrightarrow>
      \<exists>d'. wr b d = ((length b, None), d') \<and> content d' = content d @ b \<and> open_sink d'"

subsection \<open>io.Copy\<close>

definition copy_buffer :: nat where
  "copy_buffer = 32768"

partial_function (option) io_copy ::
    "'s reader \<Rightarrow> 'd writer \<Rightarrow> 's \<Rightarrow> 'd \<Rightarrow> (go_error option \<times> 's \<times> 'd) option" where
  "io_copy rd wr s d =
     (case rd copy_buffer s of
        None \<Rightarrow> None
      | Some ((b, er), s') \<Rightarrow>
          (let ((nw, ew), d') = (if b = [] then ((0, None), d) else wr b d) in
           if ew \<noteq> None then Some (ew, s', d')
           else if nw \<noteq> length b then Some (Some (errors_new ''short write''), s', d')
           else case er of
               None \<Rightarrow> io_copy rd wr s' d'
             | Some e \<Rightarrow> Some (if e = EOF then None else Some e, s', d')))"

text \<open>Reading a connection with buffers of given sizes, one after the other.\<close>

fun read_seq :: "'s reader \<Rightarrow> nat list \<Rightarrow> 's \<Rightarrow> ((bytes \<times> go_error option) list \<times> 's) option" where
  "read_seq rd [] s = Some ([], s)"
| "read_seq rd (n # ns) s =
     (case rd n s of
        None \<Rightarrow> None
      | Some (r, s') \<Rightarrow> map_option (\<lambda>(rs, s''). (r # rs, s'')) (read_seq rd ns s'))"

context byte_source
begin

lemma rd_cases:
  assumes "inv s" and "0 < n" and "rd n s = Some ((b, er), s')"
  shows "pending s = b @ pending s' \<and> ends s' = ends s \<and> inv s' \<and> length b \<le> n
    \<and> (er = None \<and> b \<noteq> [] \<or> er \<noteq> None \<and> er = ends s \<and> b = [] \<and> pending s = [])"
proof (cases "pending s = []")
  case True
  show ?thesis
  proof (cases "ends s")
    case None
    with True assms(1,3) rd_block [of s n] show ?thesis by simp
  next
    case (Some e)
    with True assms(1,3) rd_end [of s e n] show ?thesis by auto
  qed
next
  case False
  with assms rd_data [of s n] show ?thesis by auto
qed

text \<open>Whatever the sizes of the buffers, the reads return the stream in order, with no byte lost.\<close>

lemma read_seq_pending:
  "inv s \<Longrightarrow> 0 \<notin> set ns \<Longrightarrow> read_seq rd ns s = Some (rs, s') \<Longrightarrow>
   pending s = concat (map fst rs) @ pending s' \<and> inv s' \<and> ends s' = ends s"
proof (induction ns arbitrary: s rs)
  case (Cons n ns)
  then obtain b er s1 rs1 where r: "rd n s = Some ((b, er), s1)"
      and rs: "read_seq rd ns s1 = Some (rs1, s')" "rs = (b, er) # rs1"
    by (auto split: option.splits)
  from rd_cases [OF Cons.prems(1) _ r] Cons.prems(2)
  have "pending s = b @ pending s1" "inv s1" "ends s1 = ends s" by auto
  with Cons.IH [OF _ _ rs(1)] Cons.prems(2) rs(2) show ?case by simp
qed simp

end

locale copying = src: byte_source rd pending ends inv + dst: byte_sink wr content open_sink
  for rd :: "'s reader" and pending ends inv
    and wr :: "'d writer" and content open_sink
begin

text \<open>
  A copy of a stream that ends terminates, hands all of the stream to the writer, and reports the
  error the stream ended with, where end of file is success.
\<close>

lemma copy_all:
  assumes "inv s" and "ends s = Some e" and "open_sink d"
  shows "\<exists>s' d'. io_copy rd wr s d = Some (if e = EOF then None else Some e, s', d')
    \<and> content d' = content d @ pending s \<and> open_sink d' \<and> pending s' = [] \<and> inv s'"
  using assms
proof (induction "length (pending s)" arbitrary: s d rule: less_induct)
  case less
  show ?case
  proof (cases "pending s = []")
    case True
    with less.prems src.rd_end [of s e copy_buffer] show ?thesis
      by (auto simp: io_copy.simps)
  next
    case False
    then obtain b s1 where r: "rd copy_buffer s = Some ((b, None), s1)" "b \<noteq> []"
        "pending s = b @ pending s1" "ends s1 = ends s" "inv s1"
      using src.rd_data [OF less.prems(1), of copy_buffer] by (auto simp: copy_buffer_def)
    obtain d1 where d1: "wr b d = ((length b, None), d1)" "content d1 = content d @ b" "open_sink d1"
      using dst.wr_all [OF less.prems(3)] by blast
    have "length (pending s1) < length (pending s)" using r(2,3) by simp
    then obtain s' d' where "io_copy rd wr s1 d1 = Some (if e = EOF then None else Some e, s', d')"
        "content d' = content d1 @ pending s1" "open_sink d'" "pending s' = []" "inv s'"
      using less.hyps [of s1 d1] r(4,5) d1(3) less.prems(2) by auto
    then show ?thesis
      using r d1 by (subst io_copy.simps) auto
  qed
qed

end

end
