(* ===== verification/Streamconn.thy ===== *)
theory Streamconn
  imports Io
begin

text \<open>
  \<^verbatim>\<open>internal/streamconn/streamconn.go\<close>: a \<^verbatim>\<open>net.Conn\<close> over stream callbacks.

  The callbacks close over a transport; its state is the type parameter \<open>'e\<close>, passed explicitly.
  A conn is the record of \<^verbatim>\<open>Conn\<close>'s fields (the mutexes are the atomicity of its operations, and
  \<^verbatim>\<open>closeOnce\<close> is the flag \<open>closed\<close>). \<^verbatim>\<open>Recv\<close> may block: \<open>None\<close>. \<^verbatim>\<open>Send\<close> returns; flow control
  is not modelled.
\<close>

subsection \<open>Data\<close>

record 'e options =
  Recv :: "'e \<Rightarrow> (bytes result \<times> 'e) option"
  Send :: "bytes \<Rightarrow> 'e \<Rightarrow> go_error option \<times> 'e"
  CloseSend :: "('e \<Rightarrow> go_error option \<times> 'e) option"
  CloseAll :: "('e \<Rightarrow> go_error option \<times> 'e) option"
  Local :: string
  Remote :: string

record 'e conn =
  recv :: "'e \<Rightarrow> (bytes result \<times> 'e) option"
  send :: "bytes \<Rightarrow> 'e \<Rightarrow> go_error option \<times> 'e"
  closeSend :: "('e \<Rightarrow> go_error option \<times> 'e) option"
  closeAll :: "('e \<Rightarrow> go_error option \<times> 'e) option"
  localAddr :: string
  remoteAddr :: string
  rest :: bytes
  readErr :: "go_error option"
  writeErr :: "go_error option"
  closed :: bool

definition conn_New :: "'e options \<Rightarrow> 'e conn" where
  "conn_New opts = \<lparr>recv = Recv opts, send = Send opts, closeSend = CloseSend opts, closeAll = CloseAll opts,
     localAddr = Local opts, remoteAddr = Remote opts,
     rest = [], readErr = None, writeErr = None, closed = False\<rparr>"

definition normalize :: "go_error \<Rightarrow> go_error" where
  "normalize err = (if errors_is err EOF then EOF else err)"

subsection \<open>Read\<close>

text \<open>
  The loop of \<^verbatim>\<open>Read\<close>: it receives until a chunk with bytes in it is buffered, or an error is
  latched. A stream that sends empty chunks forever keeps it from returning.
\<close>

partial_function (option) read_loop ::
    "'e conn \<Rightarrow> 'e \<Rightarrow> (go_error option \<times> 'e conn \<times> 'e) option" where
  "read_loop c e =
     (if rest c \<noteq> [] then Some (None, c, e)
      else case readErr c of
        Some err \<Rightarrow> Some (Some err, c, e)
      | None \<Rightarrow>
          (case recv c e of
             None \<Rightarrow> None
           | Some (r, e') \<Rightarrow>
               (case r of
                  Inl err \<Rightarrow> Some (Some (normalize err), c\<lparr>readErr := Some (normalize err)\<rparr>, e')
                | Inr b \<Rightarrow> read_loop (c\<lparr>rest := b\<rparr>) e')))"

definition conn_Read :: "('e conn \<times> 'e) reader" where
  "conn_Read n s =
     (case s of (c, e) \<Rightarrow>
        (case read_loop c e of
           None \<Rightarrow> None
         | Some (Some err, c', e') \<Rightarrow> Some (([], Some err), c', e')
         | Some (None, c', e') \<Rightarrow>
             Some ((take n (rest c'), None), c'\<lparr>rest := drop n (rest c')\<rparr>, e')))"

subsection \<open>Write, CloseWrite and Close\<close>

definition conn_Write :: "('e conn \<times> 'e) writer" where
  "conn_Write p s =
     (case s of (c, e) \<Rightarrow>
        (case writeErr c of
           Some err \<Rightarrow> ((0, Some err), c, e)
         | None \<Rightarrow>
             if p = [] then ((0, None), c, e)
             else (case send c p e of
                 (Some err, e') \<Rightarrow>
                   ((0, Some (normalize err)), c\<lparr>writeErr := Some (normalize err)\<rparr>, e')
               | (None, e') \<Rightarrow> ((length p, None), c, e'))))"

definition conn_CloseWrite :: "'e conn \<times> 'e \<Rightarrow> go_error option \<times> 'e conn \<times> 'e" where
  "conn_CloseWrite s =
     (case s of (c, e) \<Rightarrow>
        (case closeSend c of
           None \<Rightarrow> (None, c, e)
         | Some f \<Rightarrow> (case f e of (err, e') \<Rightarrow> (err, c, e'))))"

definition conn_Close :: "'e conn \<times> 'e \<Rightarrow> go_error option \<times> 'e conn \<times> 'e" where
  "conn_Close s =
     (case s of (c, e) \<Rightarrow>
        if closed c then (None, c, e)
        else
          (let (err1, e1) = (case closeSend c of None \<Rightarrow> (None, e) | Some f \<Rightarrow> f e);
               (err2, e2) = (case closeAll c of
                   None \<Rightarrow> (err1, e1)
                 | Some f \<Rightarrow> (case f e1 of (cerr, e') \<Rightarrow> (if err1 = None then cerr else err1, e')))
           in (err2,
               c\<lparr>writeErr := (case writeErr c of None \<Rightarrow> Some ErrClosed | Some x \<Rightarrow> Some x),
                 closed := True\<rparr>,
               e2)))"

definition conn_LocalAddr :: "'e conn \<Rightarrow> string" where
  "conn_LocalAddr c = localAddr c"

definition conn_RemoteAddr :: "'e conn \<Rightarrow> string" where
  "conn_RemoteAddr c = remoteAddr c"

text \<open>\<^verbatim>\<open>SetDeadline\<close>, \<^verbatim>\<open>SetReadDeadline\<close> and \<^verbatim>\<open>SetWriteDeadline\<close>: accepted and ignored.\<close>

definition conn_SetDeadline :: "nat \<Rightarrow> 'e conn \<Rightarrow> go_error option \<times> 'e conn" where
  "conn_SetDeadline t c = (None, c)"

subsection \<open>Write on memory\<close>

text \<open>
  \<^verbatim>\<open>Write\<close> once more, on buffers that have an address: \<open>mem\<close> lists the allocated buffers, and an
  address is an index into it. \<^verbatim>\<open>make\<close> and \<^verbatim>\<open>copy\<close> allocate a new buffer; the transport is handed
  its address, and may keep it.
\<close>

type_synonym mem = "bytes list"

definition make_copy :: "mem \<Rightarrow> nat \<Rightarrow> mem \<times> nat" where
  "make_copy m p = (m @ [m ! p], length m)"

definition conn_Write_mem ::
    "(nat \<Rightarrow> mem \<Rightarrow> 'e \<Rightarrow> go_error option \<times> 'e) \<Rightarrow> nat \<Rightarrow> 'e conn \<times> mem \<times> 'e
     \<Rightarrow> (nat \<times> go_error option) \<times> 'e conn \<times> mem \<times> 'e" where
  "conn_Write_mem send_at p s =
     (case s of (c, m, e) \<Rightarrow>
        (case writeErr c of
           Some err \<Rightarrow> ((0, Some err), c, m, e)
         | None \<Rightarrow>
             if m ! p = [] then ((0, None), c, m, e)
             else
               (let (m', b) = make_copy m p in
                case send_at b m' e of
                  (Some err, e') \<Rightarrow>
                    ((0, Some (normalize err)), c\<lparr>writeErr := Some (normalize err)\<rparr>, m', e')
                | (None, e') \<Rightarrow> ((length (m ! p), None), c, m', e'))))"

subsection \<open>The conn as a reader\<close>

text \<open>
  The transport below a conn, as its receiver sees it: the results its receive callback will return,
  in order. After the last one it blocks. Nothing is assumed of what the results are.
\<close>

locale script_recv =
  fixes receive :: "'e \<Rightarrow> (bytes result \<times> 'e) option" and script :: "'e \<Rightarrow> bytes result list"
  assumes receive_nil: "script e = [] \<Longrightarrow> receive e = None"
    and receive_cons: "script e = r # rs \<Longrightarrow> \<exists>e'. receive e = Some (r, e') \<and> script e' = rs"

fun chunks_of :: "bytes result list \<Rightarrow> bytes" where
  "chunks_of [] = []"
| "chunks_of (Inr b # rs) = b @ chunks_of rs"
| "chunks_of (Inl err # rs) = []"

fun end_of :: "bytes result list \<Rightarrow> go_error option" where
  "end_of [] = None"
| "end_of (Inr b # rs) = end_of rs"
| "end_of (Inl err # rs) = Some (normalize err)"

definition conn_pending :: "('e \<Rightarrow> bytes result list) \<Rightarrow> 'e conn \<times> 'e \<Rightarrow> bytes" where
  "conn_pending script s =
     (case s of (c, e) \<Rightarrow> rest c @ (if readErr c = None then chunks_of (script e) else []))"

definition conn_ends :: "('e \<Rightarrow> bytes result list) \<Rightarrow> 'e conn \<times> 'e \<Rightarrow> go_error option" where
  "conn_ends script s =
     (case s of (c, e) \<Rightarrow> (case readErr c of Some x \<Rightarrow> Some x | None \<Rightarrow> end_of (script e)))"

definition conn_over :: "('e \<Rightarrow> (bytes result \<times> 'e) option) \<Rightarrow> 'e conn \<times> 'e \<Rightarrow> bool" where
  "conn_over receive s \<longleftrightarrow> recv (fst s) = receive"

lemmas conn_defs = conn_pending_def conn_ends_def conn_over_def

context script_recv
begin

lemma read_loop_empty:
  "recv c = receive \<Longrightarrow> rest c = [] \<Longrightarrow> readErr c = None \<Longrightarrow>
   (case read_loop c e of
      None \<Rightarrow> chunks_of (script e) = [] \<and> end_of (script e) = None
    | Some (err, c', e') \<Rightarrow>
        recv c' = receive \<and> conn_ends script (c', e') = end_of (script e)
        \<and> (case err of
             None \<Rightarrow> rest c' \<noteq> [] \<and> readErr c' = None \<and> chunks_of (script e) = conn_pending script (c', e')
           | Some x \<Rightarrow> rest c' = [] \<and> readErr c' = Some x \<and> chunks_of (script e) = []))"
proof (induction "script e" arbitrary: c e)
  case Nil
  then show ?case by (simp add: read_loop.simps receive_nil conn_defs)
next
  case (Cons r rs)
  obtain e' where e': "receive e = Some (r, e')" "script e' = rs"
    using receive_cons Cons.hyps(2) by metis
  show ?case
  proof (cases r)
    case (Inl err)
    then show ?thesis
      using Cons.prems e' Cons.hyps(2) [symmetric] by (simp add: read_loop.simps conn_defs)
  next
    case (Inr b)
    have l: "read_loop c e = read_loop (c\<lparr>rest := b\<rparr>) e'"
      using Cons.prems e' Inr by (subst read_loop.simps) simp
    show ?thesis
    proof (cases "b = []")
      case True
      then have eq: "chunks_of (script e) = chunks_of (script e')"
          "end_of (script e) = end_of (script e')"
        using e' Inr Cons.hyps(2) [symmetric] by simp_all
      show ?thesis
        unfolding l eq by (rule Cons.hyps(1)) (simp_all add: e' Cons.prems True)
    next
      case False
      then show ?thesis
        using Cons.prems e' Inr Cons.hyps(2) [symmetric] unfolding l
        by (simp add: read_loop.simps conn_defs)
    qed
  qed
qed

lemma read_loop_buffered: "rest c \<noteq> [] \<Longrightarrow> read_loop c e = Some (None, c, e)"
  by (simp add: read_loop.simps)

lemma read_loop_latched: "rest c = [] \<Longrightarrow> readErr c = Some x \<Longrightarrow> read_loop c e = Some (Some x, c, e)"
  by (simp add: read_loop.simps)

lemma read_loop_spec:
  assumes "recv c = receive"
  shows "case read_loop c e of
      None \<Rightarrow> conn_pending script (c, e) = [] \<and> conn_ends script (c, e) = None
    | Some (err, c', e') \<Rightarrow>
        recv c' = receive \<and> conn_ends script (c', e') = conn_ends script (c, e)
        \<and> conn_pending script (c', e') = conn_pending script (c, e)
        \<and> (case err of None \<Rightarrow> rest c' \<noteq> []
           | Some x \<Rightarrow> conn_pending script (c, e) = [] \<and> conn_ends script (c, e) = Some x)"
proof (cases "rest c = []")
  case False
  then show ?thesis using assms by (simp add: read_loop_buffered)
next
  case r: True
  show ?thesis
  proof (cases "readErr c")
    case None
    with assms r read_loop_empty [of c e] show ?thesis
      by (auto simp: conn_defs split: option.splits)
  next
    case (Some x)
    with assms r show ?thesis by (simp add: read_loop_latched conn_defs)
  qed
qed

end

sublocale script_recv \<subseteq> src: byte_source conn_Read "conn_pending script" "conn_ends script"
  "conn_over receive"
proof
  fix s :: "'e conn \<times> 'e" and n :: nat
  obtain c e where s: "s = (c, e)" by (cases s)
  assume "conn_over receive s"
  then have spec: "case read_loop c e of
      None \<Rightarrow> conn_pending script (c, e) = [] \<and> conn_ends script (c, e) = None
    | Some (err, c', e') \<Rightarrow>
        recv c' = receive \<and> conn_ends script (c', e') = conn_ends script (c, e)
        \<and> conn_pending script (c', e') = conn_pending script (c, e)
        \<and> (case err of None \<Rightarrow> rest c' \<noteq> []
           | Some x \<Rightarrow> conn_pending script (c, e) = [] \<and> conn_ends script (c, e) = Some x)"
    using read_loop_spec [of c e] by (simp add: conn_over_def s)
  { assume "conn_pending script s \<noteq> []" and "0 < n"
    with spec obtain c' e' where l: "read_loop c e = Some (None, c', e')" and "rest c' \<noteq> []"
      "recv c' = receive" "conn_ends script (c', e') = conn_ends script (c, e)"
      "conn_pending script (c', e') = conn_pending script (c, e)"
      by (auto simp: s split: option.splits)
    moreover define q where "q = (if readErr c' = None then chunks_of (script e') else [])"
    ultimately have "conn_pending script s = take n (rest c') @ drop n (rest c') @ q"
      "conn_Read n s = Some ((take n (rest c'), None), c'\<lparr>rest := drop n (rest c')\<rparr>, e')"
      "conn_pending script (c'\<lparr>rest := drop n (rest c')\<rparr>, e') = drop n (rest c') @ q"
      "conn_ends script (c'\<lparr>rest := drop n (rest c')\<rparr>, e') = conn_ends script s"
      by (simp_all add: conn_Read_def conn_pending_def conn_ends_def s append_assoc [symmetric]
          del: append_assoc)
    with \<open>0 < n\<close> \<open>rest c' \<noteq> []\<close> \<open>recv c' = receive\<close> show "\<exists>b s'. conn_Read n s = Some ((b, None), s') \<and> b \<noteq> [] \<and> length b \<le> n
        \<and> conn_pending script s = b @ conn_pending script s'
        \<and> conn_ends script s' = conn_ends script s \<and> conn_over receive s'"
      by (auto simp: conn_over_def) }
  { fix x assume "conn_pending script s = []" and "conn_ends script s = Some x"
    with spec obtain c' e' where "read_loop c e = Some (Some x, c', e')" "recv c' = receive"
      "conn_ends script (c', e') = Some x" "conn_pending script (c', e') = []"
      by (auto simp: s conn_pending_def split: option.splits)
    then show "\<exists>s'. conn_Read n s = Some (([], Some x), s') \<and> conn_pending script s' = []
        \<and> conn_ends script s' = Some x \<and> conn_over receive s'"
      by (auto simp: conn_Read_def s conn_over_def) }
  { assume "conn_pending script s = []" and "conn_ends script s = None"
    with spec show "conn_Read n s = None"
      by (auto simp: conn_Read_def s conn_pending_def split: option.splits) }
qed

subsection \<open>The conn as a writer\<close>

text \<open>The transport below a conn while it takes what it is sent.\<close>

locale script_send =
  fixes transmit :: "bytes \<Rightarrow> 'e \<Rightarrow> go_error option \<times> 'e"
    and sent :: "'e \<Rightarrow> bytes" and accepts :: "'e \<Rightarrow> bool"
  assumes transmit_accepts: "accepts e \<Longrightarrow>
      \<exists>e'. transmit b e = (None, e') \<and> sent e' = sent e @ b \<and> accepts e'"

definition conn_writable ::
    "(bytes \<Rightarrow> 'e \<Rightarrow> go_error option \<times> 'e) \<Rightarrow> ('e \<Rightarrow> bool) \<Rightarrow> 'e conn \<times> 'e \<Rightarrow> bool" where
  "conn_writable transmit accepts s \<longleftrightarrow>
     send (fst s) = transmit \<and> writeErr (fst s) = None \<and> accepts (snd s)"

sublocale script_send \<subseteq> dst: byte_sink conn_Write "\<lambda>s. sent (snd s)" "conn_writable transmit accepts"
proof
  fix s :: "'e conn \<times> 'e" and b
  assume s: "conn_writable transmit accepts s"
  then obtain e' where "transmit b (snd s) = (None, e')" "sent e' = sent (snd s) @ b" "accepts e'"
    using transmit_accepts [of "snd s" b] by (auto simp: conn_writable_def)
  with s show "\<exists>d'. conn_Write b s = ((length b, None), d') \<and> sent (snd d') = sent (snd s) @ b
      \<and> conn_writable transmit accepts d'"
    by (cases s; cases "b = []") (auto simp: conn_Write_def conn_writable_def)
qed

text \<open>Writing a list of buffers, one \<^verbatim>\<open>Write\<close> each, up to the first error.\<close>

fun write_seq :: "'d writer \<Rightarrow> bytes list \<Rightarrow> 'd \<Rightarrow> go_error option \<times> 'd" where
  "write_seq wr [] d = (None, d)"
| "write_seq wr (b # bs) d =
     (case wr b d of ((n, Some err), d') \<Rightarrow> (Some err, d') | ((n, None), d') \<Rightarrow> write_seq wr bs d')"

context byte_sink
begin

lemma write_seq_content:
  "open_sink d \<Longrightarrow> \<exists>d'. write_seq wr bs d = (None, d') \<and> content d' = content d @ concat bs \<and> open_sink d'"
proof (induction bs arbitrary: d)
  case (Cons b bs)
  then obtain d1 where "wr b d = ((length b, None), d1)" "content d1 = content d @ b" "open_sink d1"
    using wr_all by blast
  with Cons.IH [of d1] show ?case by auto
qed simp

end

subsection \<open>Errors stay, Close happens once\<close>

lemma conn_Read_latched:
  "rest c = [] \<Longrightarrow> readErr c = Some x \<Longrightarrow> conn_Read n (c, e) = Some (([], Some x), c, e)"
  by (simp add: conn_Read_def read_loop.simps)

lemma conn_Write_latched:
  "writeErr c = Some x \<Longrightarrow> conn_Write p (c, e) = ((0, Some x), c, e)"
  by (simp add: conn_Write_def)

lemma conn_Close_closed: "closed (fst (snd (conn_Close s)))"
  by (cases s) (auto simp: conn_Close_def Let_def split: option.splits prod.splits)

lemma conn_Close_again: "closed c \<Longrightarrow> conn_Close (c, e) = (None, c, e)"
  by (simp add: conn_Close_def)

lemma conn_Close_writeErr: "\<not> closed (fst s) \<Longrightarrow> writeErr (fst (snd (conn_Close s))) \<noteq> None"
  by (cases s) (auto simp: conn_Close_def Let_def split: option.splits prod.splits)

text \<open>Close leaves the reading side of the conn as it was.\<close>

lemma conn_Close_reading:
  assumes "conn_Close (c, e) = (err, c', e')"
  shows "recv c' = recv c \<and> rest c' = rest c \<and> readErr c' = readErr c"
  using assms by (auto simp: conn_Close_def Let_def split: option.splits prod.splits if_splits)

subsection \<open>Any transport is a script\<close>

text \<open>
  The transport that is nothing but the results its receive callback will return. Whatever a
  transport does, its receiver sees one of these.
\<close>

definition script_pop :: "bytes result list \<Rightarrow> (bytes result \<times> bytes result list) option" where
  "script_pop sc = (case sc of [] \<Rightarrow> None | r # rs \<Rightarrow> Some (r, rs))"

interpretation pop: script_recv script_pop "\<lambda>sc. sc"
  by unfold_locales (auto simp: script_pop_def split: list.splits)

lemma read_seq_results:
  "conn_over script_pop s \<Longrightarrow> 0 \<notin> set ns \<Longrightarrow> read_seq conn_Read ns s = Some (rs, s') \<Longrightarrow>
   \<forall>(b, er)\<in>set rs. (er = None) = (b \<noteq> []) \<and> (er \<noteq> None \<longrightarrow> er = conn_ends (\<lambda>sc. sc) s)"
proof (induction ns arbitrary: s rs)
  case (Cons n ns)
  then obtain b er s1 rs1 where r: "conn_Read n s = Some ((b, er), s1)"
      and rs: "read_seq conn_Read ns s1 = Some (rs1, s')" "rs = (b, er) # rs1"
    by (auto split: option.splits)
  from pop.src.rd_cases [OF Cons.prems(1) _ r] Cons.prems(2)
  have "conn_ends (\<lambda>sc. sc) s1 = conn_ends (\<lambda>sc. sc) s" "conn_over script_pop s1"
    "er = None \<and> b \<noteq> [] \<or> er \<noteq> None \<and> er = conn_ends (\<lambda>sc. sc) s \<and> b = []" by auto
  with Cons.IH [OF _ _ rs(1)] Cons.prems(2) rs(2) show ?case by auto
qed simp

subsection \<open>Properties\<close>

text \<open>
  C21: whatever chunks a transport delivers and whatever buffers the conn is read with, the reads
  return the bytes of the stream in order, none lost or repeated: what was read, followed by what is
  still buffered or to be received, is the stream up to its first error. A read returns bytes or the
  error the stream ends with (end of file if that error is or wraps it), never both and never
  neither.
\<close>

theorem conn_reads_stream:
  assumes "Recv opts = script_pop" and "0 \<notin> set ns"
    and "read_seq conn_Read ns (conn_New opts, sc) = Some (rs, c, sc')"
  shows "chunks_of sc = concat (map fst rs) @ rest c @ (if readErr c = None then chunks_of sc' else [])
    \<and> (\<forall>(b, er)\<in>set rs. (er = None) = (b \<noteq> []) \<and> (er \<noteq> None \<longrightarrow> er = end_of sc))"
proof -
  have over: "conn_over script_pop (conn_New opts, sc)" using assms(1) by (simp add: conn_over_def conn_New_def)
  from pop.src.read_seq_pending [OF over assms(2,3)] read_seq_results [OF over assms(2,3)]
  show ?thesis by (simp add: conn_pending_def conn_ends_def conn_New_def)
qed

definition demo_options :: "bytes result list options" where
  "demo_options = \<lparr>Recv = script_pop, Send = (\<lambda>b e. (None, e)), CloseSend = Some (\<lambda>e. (Some EOF, e)),
     CloseAll = Some (\<lambda>e. (None, [])), Local = ''l'', Remote = ''r''\<rparr>"

lemma conn_reads_stream_witness:
  "chunks_of [Inr ''abc'', Inr [], Inr ''d'', Inl EOF] = ''ab'' @ ''c'' @ ''d'' @ []"
proof -
  have "read_seq conn_Read [2, 2, 5, 1] (conn_New demo_options, [Inr ''abc'', Inr [], Inr ''d'', Inl EOF])
    = Some ([(''ab'', None), (''c'', None), (''d'', None), ([], Some EOF)],
        (conn_New demo_options)\<lparr>readErr := Some EOF\<rparr>, [])"
    by (simp add: conn_Read_def read_loop.simps conn_New_def demo_options_def script_pop_def normalize_def
        eval_nat_numeral)
  from conn_reads_stream [OF _ _ this] show ?thesis
    by (simp add: demo_options_def conn_New_def)
qed

text \<open>
  \<^verbatim>\<open>Write\<close> does not let the transport keep the caller's buffer. On memory it does what
  \<open>conn_Write\<close> does with the bytes of the buffer; every buffer that was there is unchanged, and the
  one handed to the transport is another one, so that overwriting the caller's buffer afterwards
  does not change what was sent.
\<close>

theorem conn_Write_copies:
  assumes "\<And>b m e. send_at b m e = send c (m ! b) e" and "p < length m"
    and "conn_Write_mem send_at p (c, m, e) = (w, c', m', e')"
  shows "conn_Write (m ! p) (c, e) = (w, c', e')
    \<and> (\<exists>new. m' = m @ new \<and> (\<forall>b x. length m \<le> b \<longrightarrow> b < length m' \<longrightarrow> m'[p := x] ! b = m ! p))"
  using assms(3)
  by (auto simp: conn_Write_mem_def conn_Write_def make_copy_def assms(1) nth_append
      list_update_append less_Suc_eq_le assms(2) split: option.splits if_splits prod.splits)

lemma conn_Write_copies_witness:
  "\<exists>c' m'. conn_Write_mem (\<lambda>b m e. (None, e @ [Inr (m ! b)])) 0
        ((conn_New demo_options)\<lparr>send := \<lambda>b e. (None, e @ [Inr b])\<rparr>, [''ab''], []) = ((2, None), c', m', [Inr ''ab''])
     \<and> m'[0 := ''xx''] ! 1 = ''ab''"
proof -
  let ?c = "(conn_New demo_options)\<lparr>send := \<lambda>b e. (None, e @ [Inr b])\<rparr>"
  have "conn_Write_mem (\<lambda>b m e. (None, e @ [Inr (m ! b)])) 0 (?c, [''ab''], [])
      = ((2, None), ?c, [''ab'', ''ab''], [Inr ''ab''])"
    by (simp add: conn_Write_mem_def make_copy_def conn_New_def)
  with conn_Write_copies [of "\<lambda>b m e. (None, e @ [Inr (m ! b)])" ?c 0 "[''ab'']" "[]"] show ?thesis by simp
qed

text \<open>
  C40: \<^verbatim>\<open>Close\<close> half-closes and then releases the transport, once, and releases it even when the
  half-close fails; it reports the first of the two errors. A second \<^verbatim>\<open>Close\<close> does nothing, and a
  \<^verbatim>\<open>Write\<close> after it fails without touching the transport.
\<close>

theorem conn_Close_releases:
  assumes "\<not> closed c" and "closeSend c = Some f" and "closeAll c = Some g"
    and "f e = (err1, e1)" and "g e1 = (err2, e2)"
  shows "\<exists>c'. conn_Close (c, e) = (if err1 = None then err2 else err1, c', e2)
    \<and> (\<forall>e'. conn_Close (c', e') = (None, c', e'))
    \<and> (\<forall>p e'. \<exists>x. conn_Write p (c', e') = ((0, Some x), c', e'))"
  using assms by (auto simp: conn_Close_def conn_Write_def split: option.splits)

lemma conn_Close_releases_witness:
  "\<exists>c'. conn_Close (conn_New demo_options, [Inr ''x'']) = (Some EOF, c', [])"
proof -
  have c: "\<not> closed (conn_New demo_options)" "closeSend (conn_New demo_options) = Some (\<lambda>e. (Some EOF, e))"
    "closeAll (conn_New demo_options) = Some (\<lambda>e. (None, []))"
    by (simp_all add: conn_New_def demo_options_def)
  show ?thesis
    using conn_Close_releases [OF c refl refl, of "[Inr ''x'']"] by (metis option.distinct(1))
qed

end
