(* ===== verification/Pump.thy ===== *)
theory Pump
  imports Streamconn
begin

text \<open>
  Two connections copied into each other by two goroutines, as \<^verbatim>\<open>handleTCP\<close>, \<^verbatim>\<open>Proxy\<close> and
  \<^verbatim>\<open>splice\<close> do. One direction is a \<open>pump\<close>: the loop of \<^verbatim>\<open>io.Copy\<close> cut at its calls (a read, a
  write), followed by the half-close of the destination. A session interleaves the two pumps in any
  order.

  A direction may half-close its destination always, never, or only after a clean end; this policy
  is what differs between the users.
\<close>

subsection \<open>One direction\<close>

datatype pump = Reading | Writing bytes "go_error option" | Copied "go_error option" | HalfClosed

definition copy_result :: "go_error \<Rightarrow> go_error option" where
  "copy_result e = (if e = EOF then None else Some e)"

definition copy_next :: "go_error option \<Rightarrow> pump" where
  "copy_next er = (case er of None \<Rightarrow> Reading | Some e \<Rightarrow> Copied (copy_result e))"

definition after_read :: "bytes \<Rightarrow> go_error option \<Rightarrow> pump" where
  "after_read b er = (if b = [] then copy_next er else Writing b er)"

definition after_write :: "bytes \<Rightarrow> go_error option \<Rightarrow> nat \<times> go_error option \<Rightarrow> pump" where
  "after_write b er w =
     (if snd w \<noteq> None then Copied (snd w)
      else if fst w \<noteq> length b then Copied (Some (errors_new ''short write''))
      else copy_next er)"

record 's io_ops =
  read_op :: "'s reader"
  write_op :: "'s writer"
  fin_op :: "'s \<Rightarrow> 's"

definition pump_step ::
    "'s io_ops \<Rightarrow> 'd io_ops \<Rightarrow> (go_error option \<Rightarrow> bool) \<Rightarrow> pump \<times> 's \<times> 'd \<Rightarrow> (pump \<times> 's \<times> 'd) option" where
  "pump_step src dst fins x =
     (case x of (p, s, d) \<Rightarrow>
        (case p of
           Reading \<Rightarrow>
             (case read_op src copy_buffer s of
                None \<Rightarrow> None
              | Some ((b, er), s') \<Rightarrow> Some (after_read b er, s', d))
         | Writing b er \<Rightarrow> (case write_op dst b d of (w, d') \<Rightarrow> Some (after_write b er w, s, d'))
         | Copied r \<Rightarrow> Some (HalfClosed, s, if fins r then fin_op dst d else d)
         | HalfClosed \<Rightarrow> None))"

partial_function (option) pump_run ::
    "'s io_ops \<Rightarrow> 'd io_ops \<Rightarrow> pump \<Rightarrow> 's \<Rightarrow> 'd \<Rightarrow> (go_error option \<times> 's \<times> 'd) option" where
  "pump_run src dst p s d =
     (case p of
        Copied r \<Rightarrow> Some (r, s, d)
      | _ \<Rightarrow> (case pump_step src dst (\<lambda>r. False) (p, s, d) of
                None \<Rightarrow> None
              | Some (p', s', d') \<Rightarrow> pump_run src dst p' s' d'))"

text \<open>What is left of \<^verbatim>\<open>io.Copy\<close> from the middle of its loop.\<close>

definition copy_rest :: "'s io_ops \<Rightarrow> 'd io_ops \<Rightarrow> pump \<times> 's \<times> 'd \<Rightarrow> (go_error option \<times> 's \<times> 'd) option" where
  "copy_rest src dst x =
     (case x of (p, s, d) \<Rightarrow>
        let go = (\<lambda>er s d. case er of None \<Rightarrow> io_copy (read_op src) (write_op dst) s d
                             | Some e \<Rightarrow> Some (copy_result e, s, d)) in
        (case p of
           Reading \<Rightarrow> go None s d
         | Writing b er \<Rightarrow>
             (case write_op dst b d of ((nw, ew), d') \<Rightarrow>
                if ew \<noteq> None then Some (ew, s, d')
                else if nw \<noteq> length b then Some (Some (errors_new ''short write''), s, d')
                else go er s d')
         | Copied r \<Rightarrow> Some (r, s, d)
         | HalfClosed \<Rightarrow> None))"


lemma copy_rest_step:
  "copy_rest src dst (p, s, d) = (case p of Copied r \<Rightarrow> Some (r, s, d)
      | _ \<Rightarrow> (case pump_step src dst (\<lambda>r. False) (p, s, d) of None \<Rightarrow> None | Some y \<Rightarrow> copy_rest src dst y))"
  by (cases p) (auto simp: copy_rest_def pump_step_def after_read_def after_write_def copy_next_def
      copy_result_def Let_def io_copy.simps [of "read_op src" "write_op dst"] split: option.splits prod.splits)

lemma pump_run_sound:
  assumes "pump_run src dst p s d = Some r"
  shows "copy_rest src dst (p, s, d) = Some r"
proof (rule pump_run.raw_induct [OF _ assms, where P = "\<lambda>src dst p s d r. copy_rest src dst (p, s, d) = Some r"])
  fix f :: "'a io_ops \<Rightarrow> 'b io_ops \<Rightarrow> pump \<Rightarrow> 'a \<Rightarrow> 'b \<Rightarrow> (go_error option \<times> 'a \<times> 'b) option"
    and src :: "'a io_ops" and dst :: "'b io_ops" and p s d y
  assume IH: "\<And>src dst p s d y. f src dst p s d = Some y \<Longrightarrow> copy_rest src dst (p, s, d) = Some y"
    and "(case p of Copied r \<Rightarrow> Some (r, s, d)
      | _ \<Rightarrow> (case pump_step src dst (\<lambda>r. False) (p, s, d) of None \<Rightarrow> None
                | Some (p', s', d') \<Rightarrow> f src dst p' s' d')) = Some y"
  then show "copy_rest src dst (p, s, d) = Some y"
    by (subst copy_rest_step) (cases p; auto intro: IH split: option.splits)
qed

lemma pump_run_complete:
  assumes "io_copy (read_op src) (write_op dst) s d = Some r"
  shows "pump_run src dst Reading s d = Some r"
proof -
  let ?P = "\<lambda>rd wr s d r. \<forall>src dst. read_op src = rd \<longrightarrow> write_op dst = wr \<longrightarrow>
    pump_run src dst Reading s d = Some r"
  have "?P (read_op src) (write_op dst) s d r"
  proof (rule io_copy.raw_induct [OF _ assms, where P = ?P], intro allI impI)
    fix f :: "'a reader \<Rightarrow> 'b writer \<Rightarrow> 'a \<Rightarrow> 'b \<Rightarrow> (go_error option \<times> 'a \<times> 'b) option"
      and rd wr s d y and src :: "'a io_ops" and dst :: "'b io_ops"
    assume IH: "\<And>rd wr s d y. f rd wr s d = Some y \<Longrightarrow> ?P rd wr s d y"
      and eq: "read_op src = rd" "write_op dst = wr"
      and y: "(case rd copy_buffer s of None \<Rightarrow> None
        | Some ((b, er), s') \<Rightarrow>
            (let ((nw, ew), d') = (if b = [] then ((0, None), d) else wr b d) in
             if ew \<noteq> None then Some (ew, s', d')
             else if nw \<noteq> length b then Some (Some (errors_new ''short write''), s', d')
             else case er of None \<Rightarrow> f rd wr s' d'
                    | Some e \<Rightarrow> Some (if e = EOF then None else Some e, s', d'))) = Some y"
    from y obtain b er s' where r: "rd copy_buffer s = Some ((b, er), s')"
      by (auto split: option.splits)
    obtain nw ew d' where w: "wr b d = ((nw, ew), d')" by (metis surj_pair)
    have "pump_run src dst Reading s d = pump_run src dst (after_read b er) s' d"
      by (subst pump_run.simps) (simp add: pump_step_def eq r)
    moreover have "pump_run src dst (Writing b er) s' d = pump_run src dst (after_write b er (nw, ew)) s' d'"
      by (subst pump_run.simps) (simp add: pump_step_def eq w)
    moreover have "pump_run src dst (Copied e) s' d' = Some (e, s', d')" for e s' d'
      by (subst pump_run.simps) simp
    moreover have "pump_run src dst Reading s' d' = Some y" if "f rd wr s' d' = Some y" for d'
      using IH [OF that] eq by blast
    ultimately show "pump_run src dst Reading s d = Some y"
      using y r w by (cases er) (auto simp: after_read_def after_write_def copy_next_def copy_result_def
          split: if_splits)
  qed
  then show ?thesis by blast
qed

text \<open>A pump run to its end is \<open>io_copy\<close>.\<close>

lemma pump_run_io_copy:
  "pump_run src dst Reading s d = io_copy (read_op src) (write_op dst) s d"
proof (cases "io_copy (read_op src) (write_op dst) s d")
  case None
  then show ?thesis
    using pump_run_sound [of src dst Reading s d]
    by (cases "pump_run src dst Reading s d") (auto simp: copy_rest_def)
next
  case (Some r)
  then show ?thesis using pump_run_complete [OF Some] by simp
qed

subsection \<open>Sessions\<close>

record ('a, 'b) session =
  near :: 'a
  far :: 'b
  upPump :: pump
  downPump :: pump

definition session_start :: "'a \<Rightarrow> 'b \<Rightarrow> ('a, 'b) session" where
  "session_start a b = \<lparr>near = a, far = b, upPump = Reading, downPump = Reading\<rparr>"

inductive splice_step ::
    "'a io_ops \<Rightarrow> 'b io_ops \<Rightarrow> (go_error option \<Rightarrow> bool) \<Rightarrow> (go_error option \<Rightarrow> bool)
     \<Rightarrow> ('a, 'b) session \<Rightarrow> ('a, 'b) session \<Rightarrow> bool"
  for A B fu fd where
  up: "pump_step A B fu (upPump s, near s, far s) = Some (p, a, b) \<Longrightarrow>
    splice_step A B fu fd s (s\<lparr>upPump := p, near := a, far := b\<rparr>)"
| down: "pump_step B A fd (downPump s, far s, near s) = Some (p, b, a) \<Longrightarrow>
    splice_step A B fu fd s (s\<lparr>downPump := p, far := b, near := a\<rparr>)"

inductive_cases splice_stepE [consumes 1, case_names up down]: "splice_step A B fu fd s s'"

lemma splice_idle:
  assumes "\<And>s'. \<not> splice_step A B fu fd s s'"
  shows "pump_step A B fu (upPump s, near s, far s) = None" "pump_step B A fd (downPump s, far s, near s) = None"
proof -
  { fix p a b assume "pump_step A B fu (upPump s, near s, far s) = Some (p, a, b)"
    from splice_step.up [OF this, of fd] assms have False by blast }
  then show "pump_step A B fu (upPump s, near s, far s) = None"
    by (cases "pump_step A B fu (upPump s, near s, far s)") auto
  { fix p a b assume "pump_step B A fd (downPump s, far s, near s) = Some (p, b, a)"
    from splice_step.down [OF this, of fu] assms have False by blast }
  then show "pump_step B A fd (downPump s, far s, near s) = None"
    by (cases "pump_step B A fd (downPump s, far s, near s)") auto
qed

subsection \<open>The contract of a connection\<close>

text \<open>
  A connection is a reader and a writer that do not disturb each other, and a half-close that
  disturbs neither what was written nor what is still to be read.
\<close>

locale duplex =
  src: byte_source "read_op C" pending ends inv + dst: byte_sink "write_op C" content open_sink
  for C :: "'s io_ops" and pending ends inv content open_sink +
  fixes finned :: "'s \<Rightarrow> bool"
  assumes rd_keeps: "inv s \<Longrightarrow> read_op C n s = Some (r, s') \<Longrightarrow>
      content s' = content s \<and> open_sink s' = open_sink s \<and> finned s' = finned s"
    and wr_keeps: "inv s \<Longrightarrow> write_op C b s = (w, s') \<Longrightarrow>
      pending s' = pending s \<and> ends s' = ends s \<and> inv s' \<and> finned s' = finned s"
    and fin_keeps: "inv s \<Longrightarrow> pending (fin_op C s) = pending s \<and> ends (fin_op C s) = ends s
      \<and> inv (fin_op C s) \<and> content (fin_op C s) = content s"
    and fin_fins: "inv s \<Longrightarrow> open_sink s \<Longrightarrow> finned (fin_op C s)"

fun inflight :: "pump \<Rightarrow> bytes" where
  "inflight (Writing b er) = b"
| "inflight _ = []"

locale flow =
  s: duplex A pendingA endsA invA contentA openA finnedA
  + d: duplex B pendingB endsB invB contentB openB finnedB
  for A :: "'a io_ops" and pendingA endsA invA contentA openA finnedA
  and B :: "'b io_ops" and pendingB endsB invB contentB openB finnedB
begin

text \<open>
  The state of a direction: what has been written, is in flight and is still to be read is the
  stream \<open>all\<close> it started with; the destination is half-closed only behind the last byte.
\<close>

definition flow_inv ::
    "(go_error option \<Rightarrow> bool) \<Rightarrow> bytes \<Rightarrow> go_error option \<Rightarrow> pump \<times> 'a \<times> 'b \<Rightarrow> bool" where
  "flow_inv fins all e0 x \<longleftrightarrow>
     (case x of (p, a, b) \<Rightarrow>
        invA a \<and> invB b \<and> endsA a = e0 \<and> contentB b @ inflight p @ pendingA a = all
        \<and> (case p of
             Reading \<Rightarrow> openB b \<and> \<not> finnedB b
           | Writing c er \<Rightarrow> openB b \<and> \<not> finnedB b \<and> er = None \<and> length c \<le> copy_buffer
           | Copied r \<Rightarrow> openB b \<and> \<not> finnedB b \<and> pendingA a = [] \<and> (\<exists>e. e0 = Some e \<and> r = copy_result e)
           | HalfClosed \<Rightarrow> pendingA a = [] \<and> (\<exists>e. e0 = Some e \<and> finnedB b = fins (copy_result e))))"

lemma flow_inv_start:
  "invA a \<Longrightarrow> invB b \<Longrightarrow> openB b \<Longrightarrow> \<not> finnedB b \<Longrightarrow>
   flow_inv fins (contentB b @ pendingA a) (endsA a) (Reading, a, b)"
  by (simp add: flow_inv_def)

definition flow_left :: "pump \<times> 'a \<times> 'b \<Rightarrow> nat" where
  "flow_left x =
     (case x of (p, a, b) \<Rightarrow> 2 * length (pendingA a)
        + (case p of Reading \<Rightarrow> 2 | Writing c er \<Rightarrow> 3 | Copied r \<Rightarrow> 1 | HalfClosed \<Rightarrow> 0))"

lemma flow_step:
  assumes "flow_inv fins all e0 x" and "pump_step A B fins x = Some y"
  shows "flow_inv fins all e0 y \<and> flow_left y < flow_left x"
proof -
  obtain p a b where x: "x = (p, a, b)" by (cases x)
  show ?thesis
  proof (cases p)
    case Reading
    then obtain c er a' where r: "read_op A copy_buffer a = Some ((c, er), a')" and y: "y = (after_read c er, a', b)"
      using assms(2) x by (auto simp: pump_step_def split: option.splits)
    have "0 < copy_buffer" by (simp add: copy_buffer_def)
    have "invA a" "endsA a = e0" using assms(1) x by (simp_all add: flow_inv_def)
    with s.src.rd_cases [OF _ \<open>0 < copy_buffer\<close> r]
    have c: "pendingA a = c @ pendingA a'" "endsA a' = e0" "invA a'" "length c \<le> copy_buffer"
        and "er = None \<and> c \<noteq> [] \<or> er = e0 \<and> e0 \<noteq> None \<and> c = [] \<and> pendingA a = []"
      by metis+
    from this(5) show ?thesis
    proof
      assume er: "er = None \<and> c \<noteq> []"
      then have "1 \<le> length c" by (simp add: Suc_le_eq)
      with er assms(1) x y Reading c show ?thesis
        by (simp add: flow_inv_def flow_left_def after_read_def del: One_nat_def)
    next
      assume "er = e0 \<and> e0 \<noteq> None \<and> c = [] \<and> pendingA a = []"
      then obtain e where "er = Some e" "e0 = Some e" "c = []" "pendingA a = []" by auto
      with assms(1) x y Reading c show ?thesis
        by (simp add: flow_inv_def flow_left_def after_read_def copy_next_def)
    qed
  next
    case (Writing c er)
    from Writing assms(1) x have b: "openB b" "invB b" "er = None" by (simp_all add: flow_inv_def)
    obtain b' where w: "write_op B c b = ((length c, None), b')"
        and b': "contentB b' = contentB b @ c" "openB b'"
      using d.dst.wr_all [OF b(1)] by blast
    with d.wr_keeps [OF b(2) w] Writing assms x b show ?thesis
      by (auto simp: pump_step_def flow_inv_def flow_left_def after_write_def copy_next_def)
  next
    case (Copied r)
    with assms x d.fin_keeps d.fin_fins show ?thesis
      by (auto simp: pump_step_def flow_inv_def flow_left_def)
  next
    case HalfClosed
    with assms(2) x show ?thesis by (simp add: pump_step_def)
  qed
qed

lemma flow_progress:
  assumes "flow_inv fins all e0 (p, a, b)" and "e0 \<noteq> None" and "p \<noteq> HalfClosed"
  shows "\<exists>y. pump_step A B fins (p, a, b) = Some y"
proof (cases p)
  case Reading
  have "\<exists>c er a'. read_op A copy_buffer a = Some ((c, er), a')"
  proof (cases "pendingA a = []")
    case True
    with s.src.rd_end [of a] assms Reading show ?thesis by (fastforce simp: flow_inv_def)
  next
    case False
    with s.src.rd_data [of a copy_buffer] assms Reading show ?thesis
      by (fastforce simp: flow_inv_def copy_buffer_def)
  qed
  with Reading show ?thesis by (auto simp: pump_step_def)
qed (use assms in \<open>auto simp: pump_step_def split: prod.splits\<close>)

text \<open>What the opposite direction does to the two ends leaves this direction as it was.\<close>

lemma flow_frame:
  assumes "flow_inv fins all e0 (p, a, b)" and "pump_step B A fins' (q, b, a) = Some (q', b', a')"
  shows "flow_inv fins all e0 (p, a', b') \<and> flow_left (p, a', b') = flow_left (p, a, b)"
proof (cases q)
  case Reading
  then obtain c er where "read_op B copy_buffer b = Some ((c, er), b')" and "a' = a"
    using assms(2) by (auto simp: pump_step_def split: option.splits)
  moreover have "invB b" using assms(1) by (simp add: flow_inv_def)
  moreover from this have "invB b'" if "read_op B copy_buffer b = Some ((c, er), b')"
    using that d.src.rd_cases [of b copy_buffer c er b'] by (simp add: copy_buffer_def)
  ultimately show ?thesis
    using assms(1) d.rd_keeps [of b copy_buffer "(c, er)" b']
    by (cases p) (auto simp: flow_inv_def flow_left_def)
next
  case (Writing c er)
  then obtain w where "write_op A c a = (w, a')" and "b' = b"
    using assms(2) by (auto simp: pump_step_def split: prod.splits)
  with assms(1) s.wr_keeps [of a c w a'] show ?thesis
    by (cases p) (auto simp: flow_inv_def flow_left_def)
next
  case (Copied r)
  with assms(1,2) s.fin_keeps [of a] show ?thesis
    by (cases p) (auto simp: pump_step_def flow_inv_def flow_left_def)
next
  case HalfClosed
  with assms(2) show ?thesis by (simp add: pump_step_def)
qed

text \<open>
  More may arrive at a source that has not ended, and the other side of the destination may change.
\<close>

lemma flow_feed:
  assumes "flow_inv fins all None (p, a, b)" and "invA a'" and "pendingA a' = pendingA a @ x" and "endsA a' = e1"
  shows "flow_inv fins (all @ x) e1 (p, a', b)"
  using assms by (cases p) (auto simp: flow_inv_def)

lemma flow_turn:
  assumes "flow_inv fins all e0 (p, a, b)" and "invB b'" and "contentB b' = contentB b"
    and "openB b' = openB b" and "finnedB b' = finnedB b"
  shows "flow_inv fins all e0 (p, a, b')"
  using assms by (cases p) (auto simp: flow_inv_def)

text \<open>
  A weight of what a direction has still to do, from which each byte that is passed on and each call
  that passes something on can be paid for.
\<close>

definition flow_weight :: "pump \<times> 'a \<times> 'b \<Rightarrow> nat" where
  "flow_weight x =
     (case x of (p, a, b) \<Rightarrow> 5 * length (pendingA a)
        + (case p of Reading \<Rightarrow> 4 | Writing c er \<Rightarrow> 2 * length c + 6 | Copied r \<Rightarrow> 3 | HalfClosed \<Rightarrow> 0))"

lemma flow_pays:
  assumes "flow_inv fins all e0 (p, a, b)" and "pump_step A B fins (p, a, b) = Some (p', a', b')"
  shows "(b' = b \<and> flow_weight (p', a', b') < flow_weight (p, a, b))
    \<or> (\<exists>c. p = Writing c None \<and> a' = a \<and> write_op B c b = ((length c, None), b') \<and> openB b \<and> invB b \<and> \<not> finnedB b
        \<and> length c \<le> copy_buffer \<and> flow_weight (p', a', b') + 2 * length c + 1 < flow_weight (p, a, b))
    \<or> (p' = HalfClosed \<and> a' = a \<and> openB b \<and> invB b \<and> \<not> finnedB b \<and> b' = fin_op B b
        \<and> flow_weight (p', a', b') + 1 < flow_weight (p, a, b))"
proof (cases p)
  case Reading
  then obtain c er where r: "read_op A copy_buffer a = Some ((c, er), a')" and y: "p' = after_read c er" "b' = b"
    using assms(2) by (auto simp: pump_step_def split: option.splits)
  have "0 < copy_buffer" by (simp add: copy_buffer_def)
  moreover have "invA a" using assms(1) by (simp add: flow_inv_def)
  ultimately have c: "pendingA a = c @ pendingA a'" "er = None \<and> c \<noteq> [] \<or> er \<noteq> None \<and> c = []"
    using s.src.rd_cases [OF _ _ r] by metis+
  from c(2) show ?thesis
  proof
    assume er: "er = None \<and> c \<noteq> []"
    then have "1 \<le> length c" by (simp add: Suc_le_eq)
    with er Reading y c(1) show ?thesis by (simp add: flow_weight_def after_read_def)
  qed (use Reading y c in \<open>auto simp: flow_weight_def after_read_def copy_next_def\<close>)
next
  case (Writing c er)
  from Writing assms(1) have b: "openB b" "invB b" "er = None" "\<not> finnedB b" "length c \<le> copy_buffer"
    by (simp_all add: flow_inv_def)
  obtain b1 where w: "write_op B c b = ((length c, None), b1)" using d.dst.wr_all [OF b(1)] by blast
  with Writing assms(2) b show ?thesis
    by (auto simp: pump_step_def flow_weight_def after_write_def copy_next_def)
next
  case (Copied r)
  with assms show ?thesis by (auto simp: pump_step_def flow_inv_def flow_weight_def split: if_splits)
next
  case HalfClosed
  with assms(2) show ?thesis by (simp add: pump_step_def)
qed

lemma flow_moves:
  assumes "flow_inv fins all e0 (p, a, b)" and "pump_step A B fins (p, a, b) = Some (p', a', b')"
  shows "(contentB b' = contentB b \<and> finnedB b' = finnedB b)
    \<or> (\<exists>c. contentB b' = contentB b @ c \<and> \<not> finnedB b \<and> \<not> finnedB b')
    \<or> (contentB b' = contentB b \<and> \<not> finnedB b \<and> finnedB b')"
proof (cases p)
  case (Writing c er)
  from Writing assms(1) have b: "openB b" "invB b" "\<not> finnedB b" by (simp_all add: flow_inv_def)
  obtain b1 where w: "write_op B c b = ((length c, None), b1)" "contentB b1 = contentB b @ c"
    using d.dst.wr_all [OF b(1)] by blast
  with Writing assms(2) b d.wr_keeps [OF b(2) w(1)] show ?thesis by (auto simp: pump_step_def)
next
  case (Copied r)
  with assms d.fin_keeps [of b] show ?thesis by (auto simp: pump_step_def flow_inv_def split: if_splits)
qed (use assms(2) in \<open>auto simp: pump_step_def split: option.splits\<close>)

lemma flow_weight_frame:
  "flow_left (p, a', b') = flow_left (p, a, b) \<Longrightarrow> flow_weight (p, a', b') = flow_weight (p, a, b)"
  by (simp add: flow_left_def flow_weight_def)

lemma flow_left_feed: "pendingA a' = pendingA a @ x \<Longrightarrow> flow_left (p, a', b) = flow_left (p, a, b) + 2 * length x"
  by (simp add: flow_left_def)

lemma flow_written:
  "flow_inv fins all e0 (p, a, b) \<Longrightarrow> \<exists>more. all = contentB b @ more"
  by (auto simp: flow_inv_def)

lemma flow_copied:
  "flow_inv fins all e0 (Copied r, a, b) \<Longrightarrow>
   contentB b = all \<and> (\<exists>e. e0 = Some e \<and> r = copy_result e)"
  by (auto simp: flow_inv_def)

lemma flow_finned:
  "flow_inv fins all e0 (p, a, b) \<Longrightarrow> finnedB b \<Longrightarrow>
   p = HalfClosed \<and> contentB b = all \<and> (\<exists>e. e0 = Some e \<and> fins (copy_result e))"
  by (cases p) (auto simp: flow_inv_def)

lemma flow_closed:
  "flow_inv fins all e0 (HalfClosed, a, b) \<Longrightarrow>
   contentB b = all \<and> (\<exists>e. e0 = Some e \<and> finnedB b = fins (copy_result e))"
  by (auto simp: flow_inv_def)

end

subsection \<open>Both directions\<close>

locale splicing =
  up: flow A pendingA endsA invA contentA openA finnedA B pendingB endsB invB contentB openB finnedB
  + down: flow B pendingB endsB invB contentB openB finnedB A pendingA endsA invA contentA openA finnedA
  for A :: "'a io_ops" and pendingA endsA invA contentA openA finnedA
  and B :: "'b io_ops" and pendingB endsB invB contentB openB finnedB
begin

definition fresh :: "'a \<Rightarrow> 'b \<Rightarrow> bool" where
  "fresh a b \<longleftrightarrow> invA a \<and> invB b \<and> openA a \<and> openB b \<and> \<not> finnedA a \<and> \<not> finnedB b"

definition session_inv ::
    "(go_error option \<Rightarrow> bool) \<Rightarrow> (go_error option \<Rightarrow> bool) \<Rightarrow> 'a \<Rightarrow> 'b \<Rightarrow> ('a, 'b) session \<Rightarrow> bool" where
  "session_inv fu fd a0 b0 s \<longleftrightarrow>
     up.flow_inv fu (contentB b0 @ pendingA a0) (endsA a0) (upPump s, near s, far s)
     \<and> down.flow_inv fd (contentA a0 @ pendingB b0) (endsB b0) (downPump s, far s, near s)"

definition session_left :: "('a, 'b) session \<Rightarrow> nat" where
  "session_left s = up.flow_left (upPump s, near s, far s) + down.flow_left (downPump s, far s, near s)"

lemma session_inv_start: "fresh a b \<Longrightarrow> session_inv fu fd a b (session_start a b)"
  by (simp add: session_inv_def session_start_def fresh_def up.flow_inv_start down.flow_inv_start)

lemma session_inv_step:
  assumes "session_inv fu fd a0 b0 s" and "splice_step A B fu fd s s'"
  shows "session_inv fu fd a0 b0 s' \<and> session_left s' < session_left s"
proof -
  from assms(1) have u: "up.flow_inv fu (contentB b0 @ pendingA a0) (endsA a0) (upPump s, near s, far s)"
    and d: "down.flow_inv fd (contentA a0 @ pendingB b0) (endsB b0) (downPump s, far s, near s)"
    by (simp_all add: session_inv_def)
  from assms(2) show ?thesis
  proof (cases rule: splice_stepE)
    case (up p a b)
    from up.flow_step [OF u up(2)] down.flow_frame [OF d up(2)] show ?thesis
      by (simp add: up(1) session_inv_def session_left_def)
  next
    case (down p b a)
    from down.flow_step [OF d down(2)] up.flow_frame [OF u down(2)] show ?thesis
      by (simp add: down(1) session_inv_def session_left_def)
  qed
qed

lemma session_inv_reach:
  assumes "fresh a b" and "(splice_step A B fu fd)\<^sup>*\<^sup>* (session_start a b) s"
  shows "session_inv fu fd a b s"
  using assms(2)
  by (induction rule: rtranclp_induct) (use assms(1) session_inv_start session_inv_step in blast)+

lemma session_stuck:
  assumes "session_inv fu fd a0 b0 s" and "endsA a0 \<noteq> None" and "endsB b0 \<noteq> None"
    and "\<nexists>s'. splice_step A B fu fd s s'"
  shows "upPump s = HalfClosed \<and> downPump s = HalfClosed"
proof (rule ccontr)
  assume "\<not> (upPump s = HalfClosed \<and> downPump s = HalfClosed)"
  then consider "upPump s \<noteq> HalfClosed" | "downPump s \<noteq> HalfClosed" by blast
  then show False
  proof cases
    case 1
    with up.flow_progress assms(1,2) obtain p a b where
      "pump_step A B fu (upPump s, near s, far s) = Some (p, a, b)" by (fastforce simp: session_inv_def)
    with assms(4) splice_step.up [of A B fu s p a b fd] show False by blast
  next
    case 2
    with down.flow_progress assms(1,3) obtain p b a where
      "pump_step B A fd (downPump s, far s, near s) = Some (p, b, a)" by (fastforce simp: session_inv_def)
    with assms(4) splice_step.down [of B A fd s p b a fu] show False by blast
  qed
qed

lemma session_run_bound:
  assumes "session_inv fu fd a0 b0 s"
  shows "(splice_step A B fu fd ^^ n) s s' \<Longrightarrow> session_inv fu fd a0 b0 s' \<and> n + session_left s' \<le> session_left s"
proof (induction n arbitrary: s')
  case 0
  then have "s' = s" by simp
  then show ?case using assms by simp
next
  case (Suc n)
  then obtain t where "(splice_step A B fu fd ^^ n) s t" and t: "splice_step A B fu fd t s'" by auto
  with Suc.IH have "session_inv fu fd a0 b0 t" "n + session_left t \<le> session_left s" by blast+
  with session_inv_step [OF _ t] show ?case by fastforce
qed

lemma session_completes:
  assumes "session_inv fu fd a0 b0 s" and "endsA a0 \<noteq> None" and "endsB b0 \<noteq> None"
  shows "\<exists>s'. (splice_step A B fu fd)\<^sup>*\<^sup>* s s' \<and> upPump s' = HalfClosed \<and> downPump s' = HalfClosed"
  using assms(1)
proof (induction "session_left s" arbitrary: s rule: less_induct)
  case less
  show ?case
  proof (cases "\<exists>s1. splice_step A B fu fd s s1")
    case True
    then obtain s1 where s1: "splice_step A B fu fd s s1" by blast
    with less.prems session_inv_step have "session_inv fu fd a0 b0 s1" "session_left s1 < session_left s"
      by blast+
    with less.hyps [of s1] s1 show ?thesis by (meson converse_rtranclp_into_rtranclp)
  next
    case False
    with session_stuck [OF less.prems assms(2,3)] show ?thesis by blast
  qed
qed

text \<open>What a session has done when both directions are through.\<close>

lemma session_final:
  assumes "session_inv fu fd a0 b0 s" and "upPump s = HalfClosed" and "downPump s = HalfClosed"
  shows "contentB (far s) = contentB b0 @ pendingA a0 \<and> contentA (near s) = contentA a0 @ pendingB b0
    \<and> (\<exists>e. endsA a0 = Some e \<and> finnedB (far s) = fu (copy_result e))
    \<and> (\<exists>e. endsB b0 = Some e \<and> finnedA (near s) = fd (copy_result e))"
proof -
  from assms have "up.flow_inv fu (contentB b0 @ pendingA a0) (endsA a0) (HalfClosed, near s, far s)"
    "down.flow_inv fd (contentA a0 @ pendingB b0) (endsB b0) (HalfClosed, far s, near s)"
    by (simp_all add: session_inv_def)
  from up.flow_closed [OF this(1)] down.flow_closed [OF this(2)] show ?thesis by blast
qed

lemma session_prefixes:
  assumes "session_inv fu fd a0 b0 s"
  shows "(\<exists>more. contentB b0 @ pendingA a0 = contentB (far s) @ more \<and> (finnedB (far s) \<longrightarrow> more = []))
    \<and> (\<exists>more. contentA a0 @ pendingB b0 = contentA (near s) @ more \<and> (finnedA (near s) \<longrightarrow> more = []))"
  using assms up.flow_written up.flow_finned down.flow_written down.flow_finned
  unfolding session_inv_def by (metis append_Nil2)

lemma session_down_copied:
  assumes "session_inv fu fd a0 b0 s" and "downPump s = Copied r"
  shows "contentA (near s) = contentA a0 @ pendingB b0 \<and> (\<exists>e. endsB b0 = Some e \<and> r = copy_result e)"
proof -
  from assms have "down.flow_inv fd (contentA a0 @ pendingB b0) (endsB b0) (Copied r, far s, near s)"
    by (simp add: session_inv_def)
  from down.flow_copied [OF this] show ?thesis .
qed

end

end
