(* ===== verification/Duplex.thy ===== *)
theory Duplex
  imports Pump
begin

text \<open>
  The two kinds of connection a session copies between: an ordinary one (a TCP socket, or the
  process's standard input and output), and a \<^verbatim>\<open>streamconn.Conn\<close> over a transport. Both are shown
  to satisfy the contract \<open>duplex\<close>.
\<close>

subsection \<open>An ordinary connection\<close>

text \<open>
  \<open>sockIn\<close> are the chunks that arrive, \<open>sockEnd\<close> what follows them (\<open>None\<close>: nothing, a read
  blocks), \<open>sockErrs\<close> the outcomes of its writes (\<open>Some (n, e)\<close>: the error \<open>e\<close> after \<open>n\<close> bytes).
\<close>

record sock =
  sockIn :: "bytes list"
  sockEnd :: "go_error option"
  sockOut :: bytes
  sockErrs :: "(nat \<times> go_error) option list"
  sockFin :: bool
  sockClosed :: bool

definition sock_Read :: "sock reader" where
  "sock_Read n t =
     (if sockClosed t then Some (([], Some ErrClosed), t)
      else case dropWhile (\<lambda>c. c = []) (sockIn t) of
        [] \<Rightarrow> (case sockEnd t of None \<Rightarrow> None | Some e \<Rightarrow> Some (([], Some e), t\<lparr>sockIn := []\<rparr>))
      | c # cs \<Rightarrow> Some ((take n c, None), t\<lparr>sockIn := drop n c # cs\<rparr>))"

definition sock_Write :: "sock writer" where
  "sock_Write b t =
     (if sockClosed t then ((0, Some ErrClosed), t)
      else if sockFin t then ((0, Some (OsErr ''broken pipe'')), t)
      else case sockErrs t of
        [] \<Rightarrow> ((length b, None), t\<lparr>sockOut := sockOut t @ b\<rparr>)
      | None # es \<Rightarrow> ((length b, None), t\<lparr>sockOut := sockOut t @ b, sockErrs := es\<rparr>)
      | Some (n, e) # es \<Rightarrow> ((n, Some e), t\<lparr>sockOut := sockOut t @ take n b, sockErrs := es\<rparr>))"

definition sock_CloseWrite :: "sock \<Rightarrow> sock" where
  "sock_CloseWrite t = (if sockClosed t then t else t\<lparr>sockFin := True\<rparr>)"

definition sock_Close :: "sock \<Rightarrow> sock" where
  "sock_Close t = t\<lparr>sockClosed := True\<rparr>"

definition sock_ops :: "sock io_ops" where
  "sock_ops = \<lparr>read_op = sock_Read, write_op = sock_Write, fin_op = sock_CloseWrite\<rparr>"

definition sock_pending :: "sock \<Rightarrow> bytes" where
  "sock_pending t = (if sockClosed t then [] else concat (sockIn t))"

definition sock_ends :: "sock \<Rightarrow> go_error option" where
  "sock_ends t = (if sockClosed t then Some ErrClosed else sockEnd t)"

definition sock_open :: "sock \<Rightarrow> bool" where
  "sock_open t \<longleftrightarrow> \<not> sockClosed t \<and> \<not> sockFin t \<and> sockErrs t = []"

lemma dropWhile_empty_concat: "concat (dropWhile (\<lambda>c. c = []) cs) = concat cs"
  by (induction cs) auto

lemma dropWhile_empty_Nil: "dropWhile (\<lambda>c. c = []) cs = [] \<longleftrightarrow> concat cs = []"
  by (induction cs) auto

lemma dropWhile_empty_hd: "dropWhile (\<lambda>c. c = []) cs = c # ds \<Longrightarrow> c \<noteq> [] \<and> concat cs = c @ concat ds"
  by (induction cs) (auto split: if_splits)

interpretation sock: duplex sock_ops sock_pending sock_ends "\<lambda>t. True" sockOut sock_open sockFin
proof
  fix s :: sock and n :: nat
  { assume p: "sock_pending s \<noteq> []" and n: "0 < n"
    then obtain c cs where d: "dropWhile (\<lambda>c. c = []) (sockIn s) = c # cs" and "\<not> sockClosed s"
      by (cases "dropWhile (\<lambda>c. c = []) (sockIn s)")
        (auto simp: sock_pending_def dropWhile_empty_Nil split: if_splits)
    with n dropWhile_empty_hd [OF d]
    show "\<exists>b s'. read_op sock_ops n s = Some ((b, None), s') \<and> b \<noteq> [] \<and> length b \<le> n
        \<and> sock_pending s = b @ sock_pending s' \<and> sock_ends s' = sock_ends s \<and> True"
      by (auto simp: sock_ops_def sock_Read_def sock_pending_def sock_ends_def) }
  have nil: "dropWhile (\<lambda>c. c = []) (sockIn s) = []" if "sock_pending s = []" "\<not> sockClosed s"
    using that by (simp add: sock_pending_def)
  { fix e assume "sock_pending s = []" and "sock_ends s = Some e"
    moreover from this(1) nil have "\<not> sockClosed s \<Longrightarrow> dropWhile (\<lambda>c. c = []) (sockIn s) = []" by blast
    ultimately show "\<exists>s'. read_op sock_ops n s = Some (([], Some e), s') \<and> sock_pending s' = []
        \<and> sock_ends s' = Some e \<and> True"
      by (cases "sockClosed s") (auto simp: sock_ops_def sock_Read_def sock_pending_def sock_ends_def simp del: dropWhile_eq_Nil_conv) }
  { assume "sock_pending s = []" and "sock_ends s = None"
    moreover from this(1) nil have "\<not> sockClosed s \<Longrightarrow> dropWhile (\<lambda>c. c = []) (sockIn s) = []" by blast
    ultimately show "read_op sock_ops n s = None"
      by (cases "sockClosed s") (auto simp: sock_ops_def sock_Read_def sock_ends_def simp del: dropWhile_eq_Nil_conv) }
  { fix b assume "sock_open s"
    then show "\<exists>d'. write_op sock_ops b s = ((length b, None), d') \<and> sockOut d' = sockOut s @ b \<and> sock_open d'"
      by (simp add: sock_ops_def sock_Write_def sock_open_def) }
  { fix r s' assume "read_op sock_ops n s = Some (r, s')"
    then show "sockOut s' = sockOut s \<and> sock_open s' = sock_open s \<and> sockFin s' = sockFin s"
      by (auto simp: sock_ops_def sock_Read_def sock_open_def split: if_splits list.splits option.splits) }
  { fix b w s' assume "write_op sock_ops b s = (w, s')"
    then show "sock_pending s' = sock_pending s \<and> sock_ends s' = sock_ends s \<and> True \<and> sockFin s' = sockFin s"
      by (auto simp: sock_ops_def sock_Write_def sock_pending_def sock_ends_def
          split: if_splits list.splits option.splits) }
  show "sock_pending (fin_op sock_ops s) = sock_pending s \<and> sock_ends (fin_op sock_ops s) = sock_ends s
      \<and> True \<and> sockOut (fin_op sock_ops s) = sockOut s"
    by (simp add: sock_ops_def sock_CloseWrite_def sock_pending_def sock_ends_def)
  { assume "sock_open s"
    then show "sockFin (fin_op sock_ops s)" by (simp add: sock_ops_def sock_CloseWrite_def sock_open_def) }
qed

subsection \<open>A conn over a transport\<close>

text \<open>
  The transport's two directions do not disturb each other. \<open>closing\<close> ends the sending direction,
  and \<open>ended\<close> says that it has been ended.
\<close>

locale transport =
  script_recv receive script + script_send transmit sent accepts
  for receive :: "'e \<Rightarrow> (bytes result \<times> 'e) option" and script transmit sent accepts +
  fixes closing :: "'e \<Rightarrow> go_error option \<times> 'e" and ended :: "'e \<Rightarrow> bool"
  assumes receive_keeps: "receive e = Some (r, e') \<Longrightarrow>
      sent e' = sent e \<and> accepts e' = accepts e \<and> ended e' = ended e"
    and transmit_keeps: "transmit b e = (err, e') \<Longrightarrow> script e' = script e \<and> ended e' = ended e"
    and closing_keeps: "closing e = (err, e') \<Longrightarrow> script e' = script e \<and> sent e' = sent e"
    and closing_ends: "accepts e \<Longrightarrow> closing e = (err, e') \<Longrightarrow> ended e'"

definition conn_ops :: "('e conn \<times> 'e \<Rightarrow> 'e conn \<times> 'e) \<Rightarrow> ('e conn \<times> 'e) io_ops" where
  "conn_ops fin = \<lparr>read_op = conn_Read, write_op = conn_Write, fin_op = fin\<rparr>"

definition conn_finish :: "'e conn \<times> 'e \<Rightarrow> 'e conn \<times> 'e" where
  "conn_finish s = snd (conn_CloseWrite s)"

text \<open>The fields that reading and writing never change.\<close>

definition same_plumbing :: "'e conn \<Rightarrow> 'e conn \<Rightarrow> bool" where
  "same_plumbing c c' \<longleftrightarrow> recv c' = recv c \<and> send c' = send c \<and> closeSend c' = closeSend c
     \<and> closeAll c' = closeAll c \<and> writeErr c' = writeErr c"

lemma conn_Write_plumbing:
  "conn_Write b (c, e) = (w, c', e') \<Longrightarrow>
   recv c' = recv c \<and> send c' = send c \<and> closeSend c' = closeSend c \<and> rest c' = rest c \<and> readErr c' = readErr c"
  by (auto simp: conn_Write_def split: option.splits if_splits prod.splits)

text \<open>What no receive changes, no read changes.\<close>

context script_recv
begin

lemma read_loop_frame:
  assumes keeps: "\<And>e r e'. receive e = Some (r, e') \<Longrightarrow> f e' = f e"
  shows "recv c = receive \<Longrightarrow> read_loop c e = Some (r, c', e') \<Longrightarrow> same_plumbing c c' \<and> f e' = f e"
proof (induction "length (script e)" arbitrary: c e)
  case 0
  then show ?case
    by (subst (asm) read_loop.simps)
      (auto simp: receive_nil same_plumbing_def split: if_splits option.splits)
next
  case (Suc n)
  then obtain x xs where x: "script e = x # xs" by (cases "script e") auto
  then obtain e1 where e1: "receive e = Some (x, e1)" "script e1 = xs" using receive_cons by blast
  note k = keeps [OF e1(1)]
  show ?case
  proof (cases "rest c = [] \<and> readErr c = None \<and> (\<exists>b. x = Inr b)")
    case True
    then obtain b where "x = Inr b" by blast
    with True Suc.prems e1 have "read_loop (c\<lparr>rest := b\<rparr>) e1 = Some (r, c', e')"
      by (subst (asm) read_loop.simps) simp
    with Suc.hyps(1) [of e1 "c\<lparr>rest := b\<rparr>"] Suc.hyps(2) Suc.prems(1) x e1(2) k show ?thesis
      by (simp add: same_plumbing_def)
  next
    case False
    with Suc.prems e1 k show ?thesis
      by (subst (asm) read_loop.simps)
        (auto simp: same_plumbing_def split: if_splits option.splits sum.splits)
  qed
qed

lemma conn_Read_frame:
  assumes "\<And>e r e'. receive e = Some (r, e') \<Longrightarrow> f e' = f e"
    and c: "recv c = receive" and "conn_Read n (c, e) = Some (r, c', e')"
  shows "same_plumbing c c' \<and> f e' = f e"
proof -
  from assms(3) obtain err c1 where "read_loop c e = Some (err, c1, e')" and "same_plumbing c1 c'"
    by (auto simp: conn_Read_def same_plumbing_def split: option.splits)
  with read_loop_frame [of f, OF assms(1) c this(1)] show ?thesis by (simp add: same_plumbing_def)
qed

end

context transport
begin

lemma conn_Read_keeps:
  "recv c = receive \<Longrightarrow> conn_Read n (c, e) = Some (r, c', e') \<Longrightarrow>
   same_plumbing c c' \<and> sent e' = sent e \<and> accepts e' = accepts e \<and> ended e' = ended e"
  using conn_Read_frame [of "\<lambda>e. (sent e, accepts e, ended e)"] receive_keeps by simp

lemma conn_Write_keeps:
  assumes "send c = transmit" and "conn_Write b (c, e) = (w, c', e')"
  shows "script e' = script e \<and> ended e' = ended e"
  using assms transmit_keeps by (auto simp: conn_Write_def split: option.splits if_splits prod.splits)

end

text \<open>A conn, with a half-close \<open>fin\<close> that on the conns satisfying \<open>ok\<close> is \<open>closing\<close>.\<close>

locale duplex_conn =
  transport receive script transmit sent accepts closing ended
  for receive :: "'e \<Rightarrow> (bytes result \<times> 'e) option" and script transmit sent accepts closing ended +
  fixes fin :: "'e conn \<times> 'e \<Rightarrow> 'e conn \<times> 'e" and ok :: "'e conn \<Rightarrow> bool"
  assumes fin_closing: "ok c \<Longrightarrow> fin (c, e) = (c, snd (closing e))"
    and ok_plumbing: "recv c' = recv c \<Longrightarrow> send c' = send c \<Longrightarrow> closeSend c' = closeSend c \<Longrightarrow> ok c' = ok c"
begin

definition conn_inv :: "'e conn \<times> 'e \<Rightarrow> bool" where
  "conn_inv s \<longleftrightarrow> conn_over receive s \<and> send (fst s) = transmit \<and> ok (fst s)"

end

sublocale duplex_conn \<subseteq> dpx: duplex "conn_ops fin" "conn_pending script" "conn_ends script" conn_inv
  "\<lambda>s. sent (snd s)" "conn_writable transmit accepts" "\<lambda>s. ended (snd s)"
proof
  fix s :: "'e conn \<times> 'e" and n :: nat
  obtain c e where s: "s = (c, e)" by (cases s)
  have inv: "conn_inv s' \<and> conn_Read n s = Some (r, s') \<longleftrightarrow> conn_over receive s' \<and> conn_Read n s = Some (r, s')"
    if "conn_inv s" for s' r
  proof -
    have "ok (fst s') = ok c \<and> send (fst s') = send c" if "conn_Read n s = Some (r, s')"
      using that conn_Read_keeps [of c n e r "fst s'" "snd s'"] \<open>conn_inv s\<close> ok_plumbing [of "fst s'" c]
      by (auto simp: s conn_inv_def conn_over_def same_plumbing_def)
    with that show ?thesis by (auto simp: conn_inv_def s)
  qed
  { assume "conn_inv s" and "conn_pending script s \<noteq> []" and "0 < n"
    with src.rd_data [of s n] inv show "\<exists>b s'. read_op (conn_ops fin) n s = Some ((b, None), s') \<and> b \<noteq> []
        \<and> length b \<le> n \<and> conn_pending script s = b @ conn_pending script s'
        \<and> conn_ends script s' = conn_ends script s \<and> conn_inv s'"
      by (simp add: conn_ops_def) (metis conn_inv_def) }
  { fix x assume "conn_inv s" and "conn_pending script s = []" and "conn_ends script s = Some x"
    with src.rd_end [of s x n] inv show "\<exists>s'. read_op (conn_ops fin) n s = Some (([], Some x), s')
        \<and> conn_pending script s' = [] \<and> conn_ends script s' = Some x \<and> conn_inv s'"
      by (simp add: conn_ops_def) (metis conn_inv_def) }
  { assume "conn_inv s" and "conn_pending script s = []" and "conn_ends script s = None"
    with src.rd_block [of s n] show "read_op (conn_ops fin) n s = None"
      by (simp add: conn_ops_def conn_inv_def) }
  { fix b assume "conn_writable transmit accepts s"
    then show "\<exists>d'. write_op (conn_ops fin) b s = ((length b, None), d')
        \<and> sent (snd d') = sent (snd s) @ b \<and> conn_writable transmit accepts d'"
      using dst.wr_all by (simp add: conn_ops_def) }
  { fix r s' assume i: "conn_inv s" and "read_op (conn_ops fin) n s = Some (r, s')"
    then have "same_plumbing c (fst s') \<and> sent (snd s') = sent e \<and> accepts (snd s') = accepts e
        \<and> ended (snd s') = ended e"
      using conn_Read_keeps [of c n e r "fst s'" "snd s'"]
      by (simp add: conn_ops_def conn_inv_def conn_over_def s)
    then show "sent (snd s') = sent (snd s) \<and> conn_writable transmit accepts s' = conn_writable transmit accepts s
        \<and> ended (snd s') = ended (snd s)"
      by (simp add: s conn_writable_def same_plumbing_def) }
  { fix b w s' assume i: "conn_inv s" and "write_op (conn_ops fin) b s = (w, s')"
    then have "conn_Write b (c, e) = (w, fst s', snd s')" by (simp add: conn_ops_def s)
    from conn_Write_plumbing [OF this] conn_Write_keeps [OF _ this] i ok_plumbing [of "fst s'" c]
    show "conn_pending script s' = conn_pending script s \<and> conn_ends script s' = conn_ends script s
        \<and> conn_inv s' \<and> ended (snd s') = ended (snd s)"
      by (cases s'; cases "readErr c") (simp_all add: s conn_inv_def conn_over_def conn_pending_def conn_ends_def) }
  { assume i: "conn_inv s"
    then have f: "fin s = (c, snd (closing e))" using fin_closing by (simp add: s conn_inv_def)
    obtain err e' where "closing e = (err, e')" by (cases "closing e")
    with closing_keeps [OF this] i f
    show "conn_pending script (fin_op (conn_ops fin) s) = conn_pending script s
        \<and> conn_ends script (fin_op (conn_ops fin) s) = conn_ends script s
        \<and> conn_inv (fin_op (conn_ops fin) s) \<and> sent (snd (fin_op (conn_ops fin) s)) = sent (snd s)"
      by (cases "readErr c") (simp_all add: conn_ops_def s conn_inv_def conn_over_def conn_pending_def conn_ends_def) }
  { assume i: "conn_inv s" and "conn_writable transmit accepts s"
    then show "ended (snd (fin_op (conn_ops fin) s))"
      using fin_closing [of c e] closing_ends [of e "fst (closing e)" "snd (closing e)"]
      by (simp add: conn_ops_def s conn_inv_def conn_writable_def) }
qed

end
