(* ===== verification/Transport.thy ===== *)
theory Transport
  imports Duplex
begin

text \<open>
  The messages of \<^verbatim>\<open>tunnel.proto\<close> and the streams that carry them. The streams belong to the
  Connect library, which is not part of the repository; a stream is therefore given by what its
  user sees of it: the results its receive operation will return, in order (it blocks after the
  last), the results its send operation will return (success after the last), and a log of what was
  sent. Any behaviour of the library is such a script.
\<close>

subsection \<open>Messages\<close>

datatype forward_request = ReqOpen string | ReqData bytes | ReqEmpty
datatype forward_response = RespOpened | RespData bytes | RespEmpty

fun req_GetOpen :: "forward_request \<Rightarrow> string option" where
  "req_GetOpen (ReqOpen n) = Some n"
| "req_GetOpen _ = None"

fun req_GetData :: "forward_request \<Rightarrow> bytes" where
  "req_GetData (ReqData b) = b"
| "req_GetData _ = []"

fun resp_GetOpened :: "forward_response \<Rightarrow> unit option" where
  "resp_GetOpened RespOpened = Some ()"
| "resp_GetOpened _ = None"

fun resp_GetData :: "forward_response \<Rightarrow> bytes" where
  "resp_GetData (RespData b) = b"
| "resp_GetData _ = []"

subsection \<open>Streams\<close>

datatype 'o sent_event = Msg 'o | CloseReq

record ('i, 'o) stream =
  inbox :: "'i result list"
  outbox :: "'o sent_event list"
  sendErrs :: "go_error option list"

definition stream_Receive :: "('i, 'o) stream \<Rightarrow> ('i result \<times> ('i, 'o) stream) option" where
  "stream_Receive s = (case inbox s of [] \<Rightarrow> None | r # rs \<Rightarrow> Some (r, s\<lparr>inbox := rs\<rparr>))"

definition stream_emit :: "'o sent_event \<Rightarrow> ('i, 'o) stream \<Rightarrow> go_error option \<times> ('i, 'o) stream" where
  "stream_emit m s =
     (case sendErrs s of
        [] \<Rightarrow> (None, s\<lparr>outbox := outbox s @ [m]\<rparr>)
      | None # es \<Rightarrow> (None, s\<lparr>outbox := outbox s @ [m], sendErrs := es\<rparr>)
      | Some err # es \<Rightarrow> (Some err, s\<lparr>sendErrs := es\<rparr>))"

definition stream_Send :: "'o \<Rightarrow> ('i, 'o) stream \<Rightarrow> go_error option \<times> ('i, 'o) stream" where
  "stream_Send m = stream_emit (Msg m)"

definition stream_CloseRequest :: "('i, 'o) stream \<Rightarrow> go_error option \<times> ('i, 'o) stream" where
  "stream_CloseRequest = stream_emit CloseReq"

definition map_result :: "('a \<Rightarrow> 'b result) \<Rightarrow> 'a result \<Rightarrow> 'b result" where
  "map_result f r = bind_result r f"

text \<open>A receive callback that converts each message.\<close>

definition receive_with ::
    "('i \<Rightarrow> bytes result) \<Rightarrow> ('i, 'o) stream \<Rightarrow> (bytes result \<times> ('i, 'o) stream) option" where
  "receive_with f s =
     (case stream_Receive s of None \<Rightarrow> None | Some (r, s') \<Rightarrow> Some (map_result f r, s'))"

definition stream_script :: "('i \<Rightarrow> bytes result) \<Rightarrow> ('i, 'o) stream \<Rightarrow> bytes result list" where
  "stream_script f s = map (map_result f) (inbox s)"

interpretation recv_with: script_recv "receive_with f" "stream_script f" for f
  by unfold_locales (auto simp: receive_with_def stream_Receive_def stream_script_def split: list.splits)

text \<open>The payload logged so far, for a sender whose data messages \<open>d\<close> recognises.\<close>

definition sent_data :: "('o \<Rightarrow> bytes) \<Rightarrow> ('i, 'o) stream \<Rightarrow> bytes" where
  "sent_data d s = concat (map (\<lambda>m. case m of Msg x \<Rightarrow> d x | CloseReq \<Rightarrow> []) (outbox s))"

definition stream_ended :: "('i, 'o) stream \<Rightarrow> bool" where
  "stream_ended s \<longleftrightarrow> list_ex (\<lambda>m. case m of Msg x \<Rightarrow> False | CloseReq \<Rightarrow> True) (outbox s)"

definition stream_accepts :: "('i, 'o) stream \<Rightarrow> bool" where
  "stream_accepts s \<longleftrightarrow> sendErrs s = []"

text \<open>
  The two ends of a Forward stream carry payload in their own data messages; the facts about a conn
  over either are the same.
\<close>

definition request_send :: "bytes \<Rightarrow> ('i, forward_request) stream \<Rightarrow> go_error option \<times> ('i, forward_request) stream" where
  "request_send b = stream_Send (ReqData b)"

definition response_send :: "bytes \<Rightarrow> ('i, forward_response) stream \<Rightarrow> go_error option \<times> ('i, forward_response) stream" where
  "response_send b = stream_Send (RespData b)"

lemmas stream_defs = receive_with_def stream_Receive_def stream_Send_def stream_CloseRequest_def
  stream_emit_def stream_script_def sent_data_def stream_ended_def stream_accepts_def
  request_send_def response_send_def

interpretation request: transport "receive_with f" "stream_script f" request_send "sent_data req_GetData"
  stream_accepts stream_CloseRequest stream_ended for f
  by unfold_locales (auto simp: stream_defs split: list.splits option.splits)

interpretation response: transport "receive_with f" "stream_script f" response_send "sent_data resp_GetData"
  stream_accepts stream_CloseRequest stream_ended for f
  by unfold_locales (auto simp: stream_defs split: list.splits option.splits)

subsection \<open>Delivery\<close>

text \<open>
  What the far end of a Connect stream receives for what was sent: the messages in order, and end
  of file once the request is closed.
\<close>

fun deliver :: "'o sent_event list \<Rightarrow> 'o result list" where
  "deliver [] = []"
| "deliver (Msg m # ms) = Inr m # deliver ms"
| "deliver (CloseReq # ms) = [Inl EOF]"

lemma deliver_append_msgs: "deliver (map Msg xs @ ms) = map Inr xs @ deliver ms"
  by (induction xs) auto

end
