(* ===== verification/Wsconn.thy ===== *)
theory Wsconn
  imports Transport
begin

text \<open>
  \<^verbatim>\<open>internal/wsconn\<close>: a tunnel over a WebSocket. The WebSocket itself belongs to a library outside
  the repository; like a Connect stream it is given by what its user sees: the results that
  \<^verbatim>\<open>Read\<close> will return, the results that \<^verbatim>\<open>Write\<close> and \<^verbatim>\<open>Close\<close> will return (success after the
  last), and a log of what was written. \<open>onceDone\<close> is the \<^verbatim>\<open>sync.Once\<close> of \<^verbatim>\<open>New\<close>, \<open>cancelled\<close> the
  derived context, and \<open>keepalive\<close> the interval and timeout of the goroutine that was started.
\<close>

datatype msg_type = MessageText | MessageBinary

datatype ws_event = Frame msg_type bytes | CloseFrame nat string | CloseNow

record ws =
  wsIn :: "(msg_type \<times> bytes) result list"
  wsOut :: "ws_event list"
  wsErrs :: "go_error option list"
  readLimit :: "nat option"
  onceDone :: bool
  cancelled :: bool
  keepalive :: "(nat \<times> nat) option"

subsection \<open>The library\<close>

definition StatusNormalClosure :: nat where "StatusNormalClosure = 1000"
definition StatusGoingAway :: nat where "StatusGoingAway = 1001"
definition StatusInternalError :: nat where "StatusInternalError = 1011"

definition ws_Read :: "ws \<Rightarrow> ((msg_type \<times> bytes) result \<times> ws) option" where
  "ws_Read w = (case wsIn w of [] \<Rightarrow> None | r # rs \<Rightarrow> Some (r, w\<lparr>wsIn := rs\<rparr>))"

definition ws_emit :: "ws_event \<Rightarrow> ws \<Rightarrow> go_error option \<times> ws" where
  "ws_emit ev w =
     (case wsErrs w of
        [] \<Rightarrow> (None, w\<lparr>wsOut := wsOut w @ [ev]\<rparr>)
      | None # es \<Rightarrow> (None, w\<lparr>wsOut := wsOut w @ [ev], wsErrs := es\<rparr>)
      | Some err # es \<Rightarrow> (Some err, w\<lparr>wsErrs := es\<rparr>))"

definition ws_Write :: "msg_type \<Rightarrow> bytes \<Rightarrow> ws \<Rightarrow> go_error option \<times> ws" where
  "ws_Write t b = ws_emit (Frame t b)"

definition ws_Close :: "nat \<Rightarrow> string \<Rightarrow> ws \<Rightarrow> go_error option \<times> ws" where
  "ws_Close st reason = ws_emit (CloseFrame st reason)"

definition ws_CloseNow :: "ws \<Rightarrow> go_error option \<times> ws" where
  "ws_CloseNow = ws_emit CloseNow"

text \<open>\<^verbatim>\<open>websocket.CloseStatus\<close>: the status of the close error the error is or wraps.\<close>

fun close_status :: "go_error \<Rightarrow> nat option" where
  "close_status (CloseErr st) = Some st"
| "close_status (Errorf f a (Some e)) = close_status e"
| "close_status (ConnectErr c e) = close_status e"
| "close_status _ = None"

subsection \<open>wsconn.go\<close>

definition Path :: bytes where "Path = ''/ws''"
definition PingPath :: bytes where "PingPath = ''/ws/ping''"
definition EndpointParam :: bytes where "EndpointParam = ''endpoint''"
definition closeWrite :: bytes where "closeWrite = ''close-write''"
definition ReadLimit :: nat where "ReadLimit = 2 ^ 20"

text \<open>The durations of \<^verbatim>\<open>keepalive.go\<close>, in seconds.\<close>

definition KeepaliveInterval :: nat where "KeepaliveInterval = 25"
definition KeepaliveTimeout :: nat where "KeepaliveTimeout = 10"

definition normalizeClose :: "go_error \<Rightarrow> go_error" where
  "normalizeClose err =
     (case close_status err of
        Some st \<Rightarrow> if st = StatusNormalClosure \<or> st = StatusGoingAway then EOF else err
      | None \<Rightarrow> err)"

text \<open>The \<^verbatim>\<open>Recv\<close> callback of \<^verbatim>\<open>New\<close> and of \<^verbatim>\<open>NewServer\<close>: what one message of the socket means.\<close>

definition ws_chunk :: "(msg_type \<times> bytes) result \<Rightarrow> bytes result" where
  "ws_chunk r =
     (case r of
        Inl err \<Rightarrow> Inl (normalizeClose err)
      | Inr (typ, b) \<Rightarrow>
          if typ = MessageBinary then Inr b
          else if b = closeWrite then Inl EOF
          else Inl (Errorf ''unexpected websocket text message %q'' [b] None))"

definition ws_recv :: "ws \<Rightarrow> (bytes result \<times> ws) option" where
  "ws_recv w = (case ws_Read w of None \<Rightarrow> None | Some (r, w') \<Rightarrow> Some (ws_chunk r, w'))"

definition ws_send :: "bytes \<Rightarrow> ws \<Rightarrow> go_error option \<times> ws" where
  "ws_send b = ws_Write MessageBinary b"

definition ws_closeSend :: "ws \<Rightarrow> go_error option \<times> ws" where
  "ws_closeSend w =
     (if onceDone w then (None, w) else ws_Write MessageText closeWrite (w\<lparr>onceDone := True\<rparr>))"

definition ws_closeAll :: "ws \<Rightarrow> go_error option \<times> ws" where
  "ws_closeAll w = ws_Close StatusNormalClosure '''' (w\<lparr>cancelled := True\<rparr>)"

definition wsconn_New :: "string \<Rightarrow> string \<Rightarrow> ws \<Rightarrow> ws conn \<times> ws" where
  "wsconn_New loc remote w =
     (conn_New \<lparr>Recv = ws_recv, Send = ws_send, CloseSend = Some ws_closeSend,
        CloseAll = Some ws_closeAll, Local = loc, Remote = remote\<rparr>,
      w\<lparr>readLimit := Some ReadLimit, cancelled := False, onceDone := False,
        keepalive := Some (KeepaliveInterval, KeepaliveTimeout)\<rparr>)"

definition wsconn_NewServer :: "string \<Rightarrow> ws \<Rightarrow> ws conn \<times> ws" where
  "wsconn_NewServer remote w =
     (conn_New \<lparr>Recv = ws_recv, Send = ws_send, CloseSend = None,
        CloseAll = Some (\<lambda>w. (None, w\<lparr>cancelled := True\<rparr>)), Local = ''agent'', Remote = remote\<rparr>,
      w\<lparr>readLimit := Some ReadLimit, cancelled := False,
        keepalive := Some (KeepaliveInterval, KeepaliveTimeout)\<rparr>)"

subsection \<open>The socket as a transport of a conn\<close>

definition ws_script :: "ws \<Rightarrow> bytes result list" where
  "ws_script w = map ws_chunk (wsIn w)"


fun frame_payload :: "ws_event \<Rightarrow> bytes" where
  "frame_payload (Frame MessageBinary b) = b"
| "frame_payload _ = []"

definition ws_sent :: "ws \<Rightarrow> bytes" where
  "ws_sent w = concat (map frame_payload (wsOut w))"

definition ws_accepts :: "ws \<Rightarrow> bool" where
  "ws_accepts w \<longleftrightarrow> wsErrs w = [] \<and> \<not> onceDone w"

text \<open>A client ends its direction with the control message, an agent by closing the socket.\<close>

definition ws_half_closed :: "ws \<Rightarrow> bool" where
  "ws_half_closed w \<longleftrightarrow> list_ex (\<lambda>ev. ev = Frame MessageText closeWrite) (wsOut w)"

definition ws_close_sent :: "ws \<Rightarrow> bool" where
  "ws_close_sent w \<longleftrightarrow> list_ex (\<lambda>ev. ev = CloseFrame StatusNormalClosure '''') (wsOut w)"

lemmas ws_defs = ws_recv_def ws_Read_def ws_script_def ws_send_def ws_closeSend_def ws_Write_def
  ws_Close_def ws_emit_def ws_sent_def ws_accepts_def ws_half_closed_def ws_close_sent_def

interpretation ws_client: duplex_conn ws_recv ws_script ws_send ws_sent ws_accepts ws_closeSend
  ws_half_closed conn_finish "\<lambda>c. closeSend c = Some ws_closeSend"
  by unfold_locales
    (auto simp: ws_defs conn_finish_def conn_CloseWrite_def split: list.splits option.splits if_splits prod.splits)

text \<open>How the agent's handler ends a session that went well: it closes the socket.\<close>

definition ws_finish :: "ws conn \<times> ws \<Rightarrow> ws conn \<times> ws" where
  "ws_finish s = (fst s, snd (ws_Close StatusNormalClosure '''' (snd s)))"

interpretation ws_server: duplex_conn ws_recv ws_script ws_send ws_sent ws_accepts
  "ws_Close StatusNormalClosure ''''" ws_close_sent ws_finish "\<lambda>c. True"
  by unfold_locales (auto simp: ws_defs ws_finish_def split: list.splits option.splits)

subsection \<open>Delivery\<close>

text \<open>
  What the far end reads for what was written: the frames in order, a close frame as the close error
  with its status, and a frame above the read limit as an error, after which nothing follows.
\<close>

fun ws_deliver :: "nat \<Rightarrow> ws_event list \<Rightarrow> (msg_type \<times> bytes) result list" where
  "ws_deliver lim [] = []"
| "ws_deliver lim (Frame t b # evs) =
     (if lim < length b then [Inl (OsErr ''message too big'')] else Inr (t, b) # ws_deliver lim evs)"
| "ws_deliver lim (CloseFrame st reason # evs) = [Inl (CloseErr st)]"
| "ws_deliver lim (CloseNow # evs) = [Inl (OsErr ''connection reset'')]"

lemma ws_deliver_frames:
  "\<forall>b\<in>set bs. length b \<le> lim \<Longrightarrow>
   ws_deliver lim (map (Frame MessageBinary) bs @ evs)
     = map (\<lambda>b. Inr (MessageBinary, b)) bs @ ws_deliver lim evs"
  by (induction bs) auto

lemma ws_chunk_simps [simp]:
  "ws_chunk (Inr (MessageBinary, b)) = Inr b"
  "ws_chunk (Inr (MessageText, closeWrite)) = Inl EOF"
  "ws_chunk (Inl (CloseErr StatusNormalClosure)) = Inl EOF"
  by (simp_all add: ws_chunk_def normalizeClose_def)

text \<open>Writing buffers through the conn logs one binary frame for each non-empty buffer.\<close>

lemma ws_write_frames:
  assumes "writeErr c = None" and "send c = ws_send" and "wsErrs w = []"
  shows "write_seq conn_Write bs (c, w)
    = (None, c, w\<lparr>wsOut := wsOut w @ map (Frame MessageBinary) (filter (\<lambda>b. b \<noteq> []) bs)\<rparr>)"
  using assms
proof (induction bs arbitrary: w)
  case (Cons b bs)
  then show ?case
    by (cases "b = []") (simp_all add: conn_Write_def ws_send_def ws_Write_def ws_emit_def)
qed simp

lemma chunks_of_payload [simp]: "chunks_of (map Inr bs @ rs) = concat bs @ chunks_of rs"
  by (induction bs) auto

lemma end_of_payload [simp]: "end_of (map Inr bs @ rs) = end_of rs"
  by (induction bs) auto

lemma concat_nonempty [simp]: "concat (filter (\<lambda>b. b \<noteq> []) bs) = concat bs"
  by (induction bs) auto

end
