(* ===== verification/Keepalive.thy ===== *)
theory Keepalive
  imports Wsconn
begin

text \<open>
  \<^verbatim>\<open>internal/wsconn/keepalive.go\<close> as a timed state machine. Time is a number of seconds since the
  ticker was made. The environment is when the context is cancelled (if ever) and how long the pong
  to a ping sent at a given time takes (\<open>None\<close>: it never comes).

  A ticker's channel holds one tick: a tick that comes due while the loop is inside \<^verbatim>\<open>Ping\<close> is
  received right after it, and further ones are dropped. \<open>lastTick\<close> is the number of the last tick
  that fired.
\<close>

datatype ka_phase = Waiting | Pinging | Stopped | ClosedNow

record ka =
  clock :: nat
  lastTick :: nat
  phase :: ka_phase

record ka_env =
  interval :: nat
  pingTimeout :: nat
  cancelAt :: "nat option"
  pongAfter :: "nat \<Rightarrow> nat option"

definition ka_start :: ka where
  "ka_start = \<lparr>clock = 0, lastTick = 0, phase = Waiting\<rparr>"

text \<open>When the next tick is received, and its number.\<close>

definition next_tick :: "ka_env \<Rightarrow> ka \<Rightarrow> nat \<times> nat" where
  "next_tick env s =
     (let due = Suc (lastTick s) * interval env in
      if due \<le> clock s then (clock s, clock s div interval env) else (due, Suc (lastTick s)))"

definition cancelled_by :: "ka_env \<Rightarrow> nat \<Rightarrow> bool" where
  "cancelled_by env t \<longleftrightarrow> (\<exists>c. cancelAt env = Some c \<and> c \<le> t)"

definition cancelled_before :: "ka_env \<Rightarrow> nat \<Rightarrow> bool" where
  "cancelled_before env t \<longleftrightarrow> (\<exists>c. cancelAt env = Some c \<and> c < t)"

lemma cancelled_code [code]:
  "cancelled_by env t = (case cancelAt env of None \<Rightarrow> False | Some c \<Rightarrow> c \<le> t)"
  "cancelled_before env t = (case cancelAt env of None \<Rightarrow> False | Some c \<Rightarrow> c < t)"
  by (auto simp: cancelled_by_def cancelled_before_def split: option.splits)

text \<open>
  The loop. In the \<^verbatim>\<open>select\<close> both branches can be ready, and then either is taken. A ping ends with
  its pong, or with an error when its timeout or the cancellation of the context comes first; the
  error closes the connection.
\<close>

inductive ka_step :: "ka_env \<Rightarrow> ka \<Rightarrow> ka \<Rightarrow> bool" for env where
  stop: "phase s = Waiting \<Longrightarrow> cancelAt env = Some c \<Longrightarrow> c \<le> fst (next_tick env s) \<Longrightarrow>
    ka_step env s (s\<lparr>clock := max (clock s) c, phase := Stopped\<rparr>)"
| tick: "phase s = Waiting \<Longrightarrow> next_tick env s = (t, k) \<Longrightarrow> \<not> cancelled_before env t \<Longrightarrow>
    ka_step env s \<lparr>clock = t, lastTick = k, phase = Pinging\<rparr>"
| pong: "phase s = Pinging \<Longrightarrow> pongAfter env (clock s) = Some l \<Longrightarrow> l \<le> pingTimeout env \<Longrightarrow>
    \<not> cancelled_before env (clock s + l) \<Longrightarrow>
    ka_step env s (s\<lparr>clock := clock s + l, phase := Waiting\<rparr>)"
| timeout: "phase s = Pinging \<Longrightarrow>
    pongAfter env (clock s) = None \<or> pingTimeout env \<le> the (pongAfter env (clock s)) \<Longrightarrow>
    \<not> cancelled_before env (clock s + pingTimeout env) \<Longrightarrow>
    ka_step env s (s\<lparr>clock := clock s + pingTimeout env, phase := ClosedNow\<rparr>)"
| abort: "phase s = Pinging \<Longrightarrow> cancelAt env = Some c \<Longrightarrow> c \<le> clock s + pingTimeout env \<Longrightarrow>
    pongAfter env (clock s) = None \<or> c \<le> clock s + the (pongAfter env (clock s)) \<Longrightarrow>
    ka_step env s (s\<lparr>clock := max (clock s) c, phase := ClosedNow\<rparr>)"

inductive_cases ka_stepE [consumes 1, case_names stop tick pong timeout abort]: "ka_step env s s'"
inductive_simps ka_step_stopped: "ka_step env \<lparr>clock = t, lastTick = k, phase = Stopped\<rparr> s'"

abbreviation ka_reach :: "ka_env \<Rightarrow> ka \<Rightarrow> bool" where
  "ka_reach env \<equiv> (ka_step env)\<^sup>*\<^sup>* ka_start"

definition ka_ended :: "ka \<Rightarrow> bool" where
  "ka_ended s \<longleftrightarrow> phase s = Stopped \<or> phase s = ClosedNow"

text \<open>The peer is gone from time \<open>v\<close> on: no pong arrives at or after \<open>v\<close>.\<close>

definition vanished :: "ka_env \<Rightarrow> nat \<Rightarrow> bool" where
  "vanished env v \<longleftrightarrow> (\<forall>t l. pongAfter env t = Some l \<longrightarrow> t + l < v)"

subsection \<open>Progress\<close>

lemma ka_progress: "\<not> ka_ended s \<Longrightarrow> \<exists>s'. ka_step env s s'"
proof -
  assume "\<not> ka_ended s"
  then consider "phase s = Waiting" | "phase s = Pinging"
    by (cases "phase s") (auto simp: ka_ended_def)
  then show ?thesis
  proof cases
    case 1
    obtain t k where t: "next_tick env s = (t, k)" by (cases "next_tick env s")
    show ?thesis
    proof (cases "cancelled_before env t")
      case True
      then obtain c where "cancelAt env = Some c" "c \<le> fst (next_tick env s)"
        by (auto simp: cancelled_before_def t)
      with 1 show ?thesis by (blast intro: ka_step.stop)
    next
      case False
      with 1 t show ?thesis by (blast intro: ka_step.tick)
    qed
  next
    case 2
    define l where "l = (case pongAfter env (clock s) of None \<Rightarrow> pingTimeout env | Some l \<Rightarrow> min l (pingTimeout env))"
    show ?thesis
    proof (cases "cancelled_before env (clock s + l)")
      case True
      then obtain c where "cancelAt env = Some c" "c < clock s + l" by (auto simp: cancelled_before_def)
      then have "ka_step env s (s\<lparr>clock := max (clock s) c, phase := ClosedNow\<rparr>)"
        using 2 by (intro ka_step.abort) (auto simp: l_def split: option.splits)
      then show ?thesis by blast
    next
      case False
      show ?thesis
      proof (cases "\<exists>p. pongAfter env (clock s) = Some p \<and> p \<le> pingTimeout env")
        case True
        then obtain p where "pongAfter env (clock s) = Some p" "p \<le> pingTimeout env" by blast
        with False 2 ka_step.pong [of s env p] show ?thesis by (auto simp: l_def min_def)
      next
        case no: False
        then have "l = pingTimeout env" by (auto simp: l_def split: option.splits)
        with False no 2 ka_step.timeout [of s env] show ?thesis
          by (cases "pongAfter env (clock s)") auto
      qed
    qed
  qed
qed

lemma ka_ended_final: "ka_ended s \<Longrightarrow> \<not> ka_step env s s'"
  by (auto simp: ka_ended_def elim: ka_stepE)

subsection \<open>Detection of a peer that is gone\<close>

definition ka_inv :: "ka_env \<Rightarrow> nat \<Rightarrow> ka \<Rightarrow> bool" where
  "ka_inv env v s \<longleftrightarrow>
     lastTick s * interval env \<le> clock s
     \<and> (phase s = Waiting \<longrightarrow> clock s \<le> v)
     \<and> (phase s = Pinging \<longrightarrow> clock s \<le> v + interval env)
     \<and> clock s \<le> v + interval env + pingTimeout env"

lemma next_tick_bounds:
  assumes "0 < interval env" and "lastTick s * interval env \<le> clock s" and "next_tick env s = (t, k)"
  shows "clock s \<le> t" "t \<le> clock s + interval env" "k * interval env \<le> t" "lastTick s < k"
proof -
  let ?i = "interval env"
  have "Suc (lastTick s) * ?i \<le> clock s \<Longrightarrow> Suc (lastTick s) \<le> clock s div ?i"
    using assms(1) by (simp add: less_eq_div_iff_mult_less_eq)
  then show "clock s \<le> t" "t \<le> clock s + ?i" "k * ?i \<le> t" "lastTick s < k"
    using assms by (auto simp: next_tick_def Let_def div_times_less_eq_dividend split: if_splits)
qed

lemma ka_inv_step:
  assumes "0 < interval env" and "vanished env v" and "ka_inv env v s" and "ka_step env s s'"
  shows "ka_inv env v s'"
  using assms(4)
proof (cases rule: ka_stepE)
  case (stop c)
  obtain t k where t: "next_tick env s = (t, k)" by (cases "next_tick env s")
  have "lastTick s * interval env \<le> clock s" "clock s \<le> v"
    using assms(3) stop by (auto simp: ka_inv_def)
  moreover from this(1) t assms(1) have "t \<le> clock s + interval env"
    using next_tick_bounds(2) by blast
  ultimately show ?thesis using stop(1,4) t by (simp add: ka_inv_def)
next
  case (tick t k)
  with assms(1,3) next_tick_bounds [of env s t k] show ?thesis by (simp add: ka_inv_def)
next
  case (pong l)
  then have "clock s + l < v" using assms(2) by (simp add: vanished_def)
  with pong assms(3) show ?thesis by (simp add: ka_inv_def)
next
  case timeout
  with assms(3) show ?thesis by (auto simp: ka_inv_def)
next
  case (abort c)
  with assms(3) show ?thesis by (simp add: ka_inv_def le_max_iff_disj)
qed

lemma ka_inv_reach:
  "0 < interval env \<Longrightarrow> vanished env v \<Longrightarrow> ka_reach env s \<Longrightarrow> ka_inv env v s"
proof (rotate_tac 2, induction rule: rtranclp_induct)
  case base
  then show ?case by (simp add: ka_inv_def ka_start_def)
next
  case (step s s')
  then show ?case using ka_inv_step by blast
qed

text \<open>Every step that does not end the loop moves \<open>ka_count\<close>: twice the ticks, plus the phase.\<close>

definition ka_count :: "ka \<Rightarrow> nat" where
  "ka_count s = 2 * lastTick s + (case phase s of Waiting \<Rightarrow> 1 | Pinging \<Rightarrow> 0 | _ \<Rightarrow> 2)"

lemma ka_count_step:
  assumes "0 < interval env" and "ka_inv env v s" and "ka_step env s s'"
  shows "ka_count s < ka_count s'"
  using assms(3)
proof (cases rule: ka_stepE)
  case (tick t k)
  with assms next_tick_bounds(4) [of env s t k] show ?thesis by (simp add: ka_count_def ka_inv_def)
qed (auto simp: ka_count_def)

lemma ka_count_run:
  assumes "0 < interval env" and "vanished env v"
  shows "(ka_step env ^^ n) ka_start s \<Longrightarrow> ka_inv env v s \<and> n < ka_count s"
proof (induction n arbitrary: s)
  case 0
  then have "s = ka_start" by simp
  then show ?case by (simp add: ka_count_def ka_inv_def ka_start_def)
next
  case (Suc n)
  then obtain s1 where "(ka_step env ^^ n) ka_start s1" and s1: "ka_step env s1 s" by auto
  with Suc.IH have "ka_inv env v s1" "n < ka_count s1" by blast+
  with s1 ka_count_step [OF assms(1), of v s1 s] ka_inv_step [OF assms, of s1 s] show ?case by simp
qed

lemma ka_inv_ticks:
  assumes "0 < interval env" and "ka_inv env v s"
  shows "lastTick s \<le> (v + pingTimeout env) div interval env + 1"
proof -
  have "lastTick s * interval env \<le> (v + pingTimeout env) + interval env"
    using assms(2) by (simp add: ka_inv_def)
  then have "lastTick s \<le> ((v + pingTimeout env) + interval env) div interval env"
    using assms(1) by (simp add: less_eq_div_iff_mult_less_eq)
  also have "... = (v + pingTimeout env) div interval env + 1"
    using assms(1) by (metis Suc_eq_plus1 div_add_self2 neq0_conv)
  finally show ?thesis .
qed

lemma ka_run_bound:
  assumes "0 < interval env" and "vanished env v" and "(ka_step env ^^ n) ka_start s"
  shows "n \<le> 2 * ((v + pingTimeout env) div interval env) + 4"
  using ka_count_run [OF assms] ka_inv_ticks [OF assms(1), of v s]
  by (auto simp: ka_count_def split: ka_phase.splits)

lemma ka_ends:
  assumes "0 < interval env" and "vanished env v" and "ka_reach env s"
  shows "\<exists>s'. (ka_step env)\<^sup>*\<^sup>* s s' \<and> ka_ended s'"
proof (rule ccontr)
  assume no: "\<nexists>s'. (ka_step env)\<^sup>*\<^sup>* s s' \<and> ka_ended s'"
  have "\<exists>s'. (ka_step env ^^ n) s s'" for n
  proof (induction n)
    case (Suc n)
    then obtain s1 where s1: "(ka_step env ^^ n) s s1" by blast
    then have "\<not> ka_ended s1" using no by (blast dest: relpowp_imp_rtranclp)
    with s1 ka_progress show ?case by (metis relpowp_Suc_I)
  qed simp
  moreover obtain m where "(ka_step env ^^ m) ka_start s" using assms(3) rtranclp_imp_relpowp by metis
  ultimately obtain s' where "(ka_step env ^^ (m + (2 * ((v + pingTimeout env) div interval env) + 5))) ka_start s'"
    by (metis relpowp_trans)
  from ka_run_bound [OF assms(1,2) this] show False by simp
qed

subsection \<open>Property\<close>

text \<open>
  C22: with the interval and timeout of the code, a peer that vanishes at second \<open>v\<close> is noticed by
  second \<open>v + 35\<close>: the loop never runs past that time, has always ended within a bounded number of
  steps, and can always go on to its end; and unless the context was cancelled, that end is the
  closing of the connection.
\<close>

theorem keepalive_detects:
  assumes "interval env = KeepaliveInterval" and "pingTimeout env = KeepaliveTimeout"
    and "vanished env v" and "ka_reach env s"
  shows "clock s \<le> v + 35
    \<and> (\<exists>s'. (ka_step env)\<^sup>*\<^sup>* s s' \<and> ka_ended s' \<and> (cancelAt env = None \<longrightarrow> phase s' = ClosedNow))
    \<and> (\<forall>n s'. (ka_step env ^^ n) ka_start s' \<longrightarrow> n \<le> 2 * ((v + 10) div 25) + 4)"
proof -
  have i: "0 < interval env" using assms(1) by (simp add: KeepaliveInterval_def)
  have "phase t \<noteq> Stopped" if "cancelAt env = None" "ka_reach env t" for t
    using that(2) by (induction rule: rtranclp_induct)
      (use that(1) in \<open>auto simp: ka_start_def elim: ka_stepE\<close>)
  moreover obtain s' where "(ka_step env)\<^sup>*\<^sup>* s s'" "ka_ended s'"
    using ka_ends [OF i assms(3,4)] by blast
  ultimately have "\<exists>s'. (ka_step env)\<^sup>*\<^sup>* s s' \<and> ka_ended s' \<and> (cancelAt env = None \<longrightarrow> phase s' = ClosedNow)"
    using assms(4) by (metis ka_ended_def rtranclp_trans)
  with ka_inv_reach [OF i assms(3,4)] ka_run_bound [OF i assms(3)] assms(1,2) show ?thesis
    by (auto simp: ka_inv_def KeepaliveInterval_def KeepaliveTimeout_def)
qed

lemma keepalive_detects_witness:
  "\<exists>s'. (ka_step \<lparr>interval = 25, pingTimeout = 10, cancelAt = None,
        pongAfter = (\<lambda>t. if t < 60 then Some 1 else None)\<rparr>)\<^sup>*\<^sup>* ka_start s' \<and> phase s' = ClosedNow"
proof -
  let ?env = "\<lparr>interval = 25, pingTimeout = 10, cancelAt = None,
      pongAfter = (\<lambda>t. if t < 60 then Some 1 else None)\<rparr>"
  have "vanished ?env 61" by (simp add: vanished_def)
  from keepalive_detects [OF _ _ this rtranclp.rtrancl_refl] show ?thesis
    by (auto simp: KeepaliveInterval_def KeepaliveTimeout_def)
qed

end
