(* ===== verification/Utf8.thy ===== *)
theory Utf8
  imports Prelude
begin

text \<open>
  UTF-8 as Go reads it. A byte sequence splits into pieces: a well-formed sequence of one to four
  bytes with its code point, or a single byte that starts none (Go's \<^verbatim>\<open>utf8.DecodeRuneInString\<close>
  yields \<^verbatim>\<open>RuneError\<close> of size 1 there). Ranging over a string, \<^verbatim>\<open>strings.TrimSpace\<close>,
  \<^verbatim>\<open>strings.ToLower\<close> and the JSON string codec all work on these pieces.
\<close>

subsection \<open>Decoding one rune\<close>

abbreviation code :: "char \<Rightarrow> nat" where
  "code \<equiv> of_char"

definition in_range :: "nat \<Rightarrow> nat \<Rightarrow> char \<Rightarrow> bool" where
  "in_range lo hi c \<longleftrightarrow> lo \<le> code c \<and> code c \<le> hi"

definition ascii :: "char \<Rightarrow> bool" where
  "ascii c \<longleftrightarrow> code c < 128"

text \<open>The length of the well-formed sequence at the start, 0 where there is none.\<close>

fun tail2 :: "bytes \<Rightarrow> bool" where
  "tail2 (x # _) = in_range 128 191 x"
| "tail2 _ = False"

fun tail3 :: "nat \<Rightarrow> nat \<Rightarrow> bytes \<Rightarrow> bool" where
  "tail3 lo hi (x # y # _) = (in_range lo hi x \<and> in_range 128 191 y)"
| "tail3 lo hi _ = False"

fun tail4 :: "nat \<Rightarrow> nat \<Rightarrow> bytes \<Rightarrow> bool" where
  "tail4 lo hi (x # y # z # _) =
     (in_range lo hi x \<and> in_range 128 191 y \<and> in_range 128 191 z)"
| "tail4 lo hi _ = False"

fun seq_len :: "bytes \<Rightarrow> nat" where
  "seq_len [] = 0"
| "seq_len (c # s) =
     (if ascii c then 1
      else if in_range 194 223 c then (if tail2 s then 2 else 0)
      else if in_range 224 239 c then
        (if tail3 (if code c = 224 then 160 else 128) (if code c = 237 then 159 else 191) s
         then 3 else 0)
      else if in_range 240 244 c then
        (if tail4 (if code c = 240 then 144 else 128) (if code c = 244 then 143 else 191) s
         then 4 else 0)
      else 0)"

fun rune_of :: "bytes \<Rightarrow> nat" where
  "rune_of [a] = code a"
| "rune_of [a, b] = (code a mod 32) * 64 + code b mod 64"
| "rune_of [a, b, c] = (code a mod 16) * 4096 + (code b mod 64) * 64 + code c mod 64"
| "rune_of [a, b, c, d] =
     (code a mod 8) * 262144 + (code b mod 64) * 4096 + (code c mod 64) * 64 + code d mod 64"
| "rune_of _ = 65533"

lemma tail_length:
  "tail2 s \<Longrightarrow> 1 \<le> length s" "tail3 lo hi s \<Longrightarrow> 2 \<le> length s" "tail4 lo hi s \<Longrightarrow> 3 \<le> length s"
  by (auto elim: tail2.elims(2) tail3.elims(2) tail4.elims(2) simp: numeral_eq_Suc)

lemma tail_append:
  "tail2 s \<Longrightarrow> tail2 (s @ t)" "tail3 lo hi s \<Longrightarrow> tail3 lo hi (s @ t)"
  "tail4 lo hi s \<Longrightarrow> tail4 lo hi (s @ t)"
  by (auto elim: tail2.elims(2) tail3.elims(2) tail4.elims(2) simp: numeral_eq_Suc)

lemma tail_take:
  "tail2 s \<Longrightarrow> tail2 (take (Suc 0) s)" "tail3 lo hi s \<Longrightarrow> tail3 lo hi (take 2 s)"
  "tail4 lo hi s \<Longrightarrow> tail4 lo hi (take 3 s)"
  by (auto elim: tail2.elims(2) tail3.elims(2) tail4.elims(2) simp: numeral_eq_Suc)

lemma seq_len_le: "seq_len s \<le> length s"
  using tail_length by (cases s) fastforce+

lemma seq_len_append: "seq_len s \<noteq> 0 \<Longrightarrow> seq_len (s @ t) = seq_len s"
  by (cases s) (simp_all add: tail_append split: if_split_asm)

lemma seq_len_take: "seq_len s \<noteq> 0 \<Longrightarrow> seq_len (take (seq_len s) s) = seq_len s"
  by (cases s) (simp_all add: tail_take split: if_split_asm)

lemma seq_len_ascii [simp]: "ascii c \<Longrightarrow> seq_len (c # s) = 1"
  by simp

lemma seq_len_1: "seq_len (c # s) = Suc 0 \<Longrightarrow> ascii c"
  by (simp split: if_split_asm)

subsection \<open>Pieces\<close>

datatype piece = Rune nat bytes | Bad char

fun piece_bytes :: "piece \<Rightarrow> bytes" where
  "piece_bytes (Rune r b) = b"
| "piece_bytes (Bad c) = [c]"

fun piece_rune :: "piece \<Rightarrow> nat" where
  "piece_rune (Rune r b) = r"
| "piece_rune (Bad c) = 65533"

fun good :: "piece \<Rightarrow> bool" where
  "good (Rune r b) = True"
| "good (Bad c) = False"

function pieces :: "bytes \<Rightarrow> piece list" where
  "pieces [] = []"
| "pieces (c # s) =
     (let n = seq_len (c # s) in
      if n = 0 then Bad c # pieces s
      else Rune (rune_of (take n (c # s))) (take n (c # s)) # pieces (drop n (c # s)))"
  by pat_completeness auto
termination
  by (relation "measure length") (auto simp del: seq_len.simps)

declare pieces.simps(2) [simp del]

definition runes :: "bytes \<Rightarrow> nat list" where
  "runes s = map piece_rune (pieces s)"

definition valid_utf8 :: "bytes \<Rightarrow> bool" where
  "valid_utf8 s \<longleftrightarrow> list_all good (pieces s)"

lemma pieces_ascii [simp]: "ascii c \<Longrightarrow> pieces (c # s) = Rune (code c) [c] # pieces s"
  by (simp add: pieces.simps(2))

lemma pieces_concat [simp]: "concat (map piece_bytes (pieces s)) = s"
  by (induction s rule: pieces.induct) (auto simp: pieces.simps(2) Let_def simp del: seq_len.simps)

lemma pieces_append_rune:
  assumes "seq_len s = length s" and "s \<noteq> []"
  shows "pieces (s @ t) = Rune (rune_of s) s # pieces t"
proof -
  from assms(2) obtain c u where s: "s = c # u" by (cases s) auto
  have "seq_len (s @ t) = length s"
    using seq_len_append [of s t] assms by simp
  then show ?thesis
    by (simp add: s pieces.simps(2) del: seq_len.simps)
qed

lemma valid_utf8_Nil [simp]: "valid_utf8 []"
  by (simp add: valid_utf8_def)

lemma valid_utf8_ascii [simp]: "ascii c \<Longrightarrow> valid_utf8 (c # s) = valid_utf8 s"
  by (simp add: valid_utf8_def)

text \<open>The induction the codecs use: a well-formed string grows by one well-formed sequence.\<close>

lemma valid_utf8_induct [consumes 1, case_names Nil rune]:
  assumes "valid_utf8 s" and "P []"
    and "\<And>p t. seq_len p = length p \<Longrightarrow> p \<noteq> [] \<Longrightarrow> valid_utf8 t \<Longrightarrow> P t \<Longrightarrow> P (p @ t)"
  shows "P s"
  using assms(1)
proof (induction s rule: pieces.induct)
  case 1
  then show ?case using assms(2) by simp
next
  case (2 c s)
  let ?n = "seq_len (c # s)"
  from "2.prems" have n: "?n \<noteq> 0" and t: "valid_utf8 (drop ?n (c # s))"
    by (auto simp: valid_utf8_def pieces.simps(2) Let_def simp del: seq_len.simps split: if_splits)
  then have "P (drop ?n (c # s))"
    using "2.IH"(2) by blast
  moreover have "seq_len (take ?n (c # s)) = length (take ?n (c # s))"
    using seq_len_take [OF n] seq_len_le [of "c # s"] by (simp del: seq_len.simps)
  ultimately have "P (take ?n (c # s) @ drop ?n (c # s))"
    using assms(3) n t by (metis list.discI take_eq_Nil)
  then show ?case by (metis append_take_drop_id)
qed

lemma pieces_all_ascii:
  "list_all ascii s \<Longrightarrow> pieces s = map (\<lambda>c. Rune (code c) [c]) s"
  by (induction s) auto

lemma valid_utf8_all_ascii: "list_all ascii s \<Longrightarrow> valid_utf8 s"
  by (induction s) auto

subsection \<open>strings.TrimSpace\<close>

definition is_space :: "nat \<Rightarrow> bool" where
  "is_space r \<longleftrightarrow>
     (9 \<le> r \<and> r \<le> 13) \<or> r = 32 \<or> r = 133 \<or> r = 160 \<or> r = 5760 \<or> (8192 \<le> r \<and> r \<le> 8202)
     \<or> r = 8232 \<or> r = 8233 \<or> r = 8239 \<or> r = 8287 \<or> r = 12288"

definition trim_by :: "('a \<Rightarrow> bool) \<Rightarrow> 'a list \<Rightarrow> 'a list" where
  "trim_by p xs = rev (dropWhile p (rev (dropWhile p xs)))"

definition trim_space :: "bytes \<Rightarrow> bytes" where
  "trim_space s = concat (map piece_bytes (trim_by (\<lambda>p. is_space (piece_rune p)) (pieces s)))"

lemma trim_by_map: "trim_by p (map f xs) = map f (trim_by (\<lambda>x. p (f x)) xs)"
  by (simp add: trim_by_def dropWhile_map rev_map comp_def)

lemma dropWhile_all: "list_all p xs \<Longrightarrow> dropWhile p (xs @ ys) = dropWhile p ys"
  by (induction xs) auto

lemma trim_by_around:
  assumes "list_all p a" and "list_all p b" and "list_all (\<lambda>x. \<not> p x) m"
  shows "trim_by p (a @ m @ b) = m"
proof (cases m)
  case Nil
  have "dropWhile p b = []"
    using assms(2) dropWhile_all [of p b "[]"] by simp
  with Nil assms(1) show ?thesis
    by (auto simp: trim_by_def dropWhile_all dest: set_dropWhileD)
next
  case (Cons x xs)
  then obtain y ys where y: "rev m = y # ys"
    by (metis list.exhaust list.simps(3) rev_is_Nil_conv)
  then have "\<not> p y"
    using assms(3) by (metis list.set_intros(1) list_all_iff set_rev)
  with y have r: "dropWhile p (rev b @ rev m @ zs) = rev m @ zs" for zs
    using assms(2) by (simp add: dropWhile_all list_all_iff)
  from assms Cons show ?thesis
    using r [of "[]"] by (simp add: trim_by_def dropWhile_all)
qed

text \<open>White space around a text without white space is trimmed, and nothing else.\<close>

lemma trim_space_around:
  assumes "list_all (\<lambda>c. ascii c \<and> is_space (code c)) a"
    and "list_all (\<lambda>c. ascii c \<and> is_space (code c)) b"
    and "list_all (\<lambda>c. ascii c \<and> \<not> is_space (code c)) m"
  shows "trim_space (a @ m @ b) = m"
proof -
  have asc: "list_all ascii (a @ m @ b)"
    using assms by (auto simp: list_all_iff)
  have "trim_by (\<lambda>c. is_space (code c)) (a @ m @ b) = m"
    using assms by (intro trim_by_around) (auto simp: list_all_iff)
  then show ?thesis
    unfolding trim_space_def pieces_all_ascii [OF asc] trim_by_map
    by (simp add: comp_def del: map_append)
qed

lemma trim_space_id:
  "list_all (\<lambda>c. ascii c \<and> \<not> is_space (code c)) m \<Longrightarrow> trim_space m = m"
  using trim_space_around [of "[]" "[]" m] by simp

end
