(* ===== verification/Base64.thy ===== *)
theory Base64
  imports Utf8
begin

text \<open>
  Package \<^verbatim>\<open>encoding/base64\<close> without padding: \<^verbatim>\<open>RawURLEncoding\<close> carries invites and tokens,
  \<^verbatim>\<open>RawStdEncoding\<close> certificate fingerprints. The decoder skips carriage returns and newlines,
  ignores the unused low bits of the last digit, and refuses every other byte outside the alphabet
  and a single left-over digit.
\<close>

definition std_alphabet :: bytes where
  "std_alphabet = ''ABCDEFGHIJKLMNOPQRSTUVWXYZabcdefghijklmnopqrstuvwxyz0123456789+/''"

definition url_alphabet :: bytes where
  "url_alphabet = ''ABCDEFGHIJKLMNOPQRSTUVWXYZabcdefghijklmnopqrstuvwxyz0123456789-_''"

fun b64_digits :: "bytes \<Rightarrow> nat list" where
  "b64_digits [] = []"
| "b64_digits [a] = (let n = code a * 16 in [n div 64, n mod 64])"
| "b64_digits [a, b] =
     (let n = code a * 1024 + code b * 4 in [n div 4096, n div 64 mod 64, n mod 64])"
| "b64_digits (a # b # c # s) =
     (let n = code a * 65536 + code b * 256 + code c
      in n div 262144 # n div 4096 mod 64 # n div 64 mod 64 # n mod 64 # b64_digits s)"

definition b64_encode :: "bytes \<Rightarrow> bytes \<Rightarrow> bytes" where
  "b64_encode al s = map (\<lambda>d. al ! d) (b64_digits s)"

fun index_of :: "bytes \<Rightarrow> char \<Rightarrow> nat option" where
  "index_of [] c = None"
| "index_of (x # xs) c = (if x = c then Some 0 else map_option Suc (index_of xs c))"

fun b64_values :: "bytes \<Rightarrow> bytes \<Rightarrow> nat list option" where
  "b64_values al [] = Some []"
| "b64_values al (c # s) =
     (if c = CHR 0x0A \<or> c = CHR 0x0D then b64_values al s
      else case index_of al c of
        None \<Rightarrow> None
      | Some d \<Rightarrow> map_option ((#) d) (b64_values al s))"

fun b64_bytes :: "nat list \<Rightarrow> bytes option" where
  "b64_bytes [] = Some []"
| "b64_bytes [a] = None"
| "b64_bytes [a, b] = Some [char_of (a * 4 + b div 16)]"
| "b64_bytes [a, b, c] =
     (let n = a * 4096 + b * 64 + c in Some [char_of (n div 1024), char_of (n div 4 mod 256)])"
| "b64_bytes (a # b # c # d # s) =
     (let n = a * 262144 + b * 4096 + c * 64 + d
      in map_option (\<lambda>t. char_of (n div 65536) # char_of (n div 256 mod 256)
                         # char_of (n mod 256) # t) (b64_bytes s))"

definition b64_decode :: "bytes \<Rightarrow> bytes \<Rightarrow> bytes option" where
  "b64_decode al s = Option.bind (b64_values al s) b64_bytes"

subsection \<open>Round trip\<close>

lemma code_less [simp]: "code c < 256"
  by (metis of_char_eq_iff range_nat_of_char atLeastLessThan_iff rangeI)

lemma char_of_code [simp]: "char_of (code c) = c"
  by simp

lemma div_mod_split:
  assumes "r < (m :: nat)"
  shows "(q * m + r) div m = q" and "(q * m + r) mod m = r"
  using assms by simp_all

lemma quantum_split:
  assumes b: "b < 256" and c: "c < (256 :: nat)"
  shows "(a * 65536 + b * 256 + c) div 65536 = a"
    and "(a * 65536 + b * 256 + c) div 256 mod 256 = b"
    and "(a * 65536 + b * 256 + c) mod 256 = c"
proof -
  have n: "a * 65536 + b * 256 + c = (a * 256 + b) * 256 + c" by simp
  have "b * 256 + c < 65536" using b c by linarith
  then show "(a * 65536 + b * 256 + c) div 65536 = a"
    using div_mod_split(1) [of "b * 256 + c" 65536 a] by (simp add: add.assoc)
  have "((a * 256 + b) * 256 + c) div 256 = a * 256 + b"
    by (rule div_mod_split(1) [OF c])
  then show "(a * 65536 + b * 256 + c) div 256 mod 256 = b"
    unfolding n using div_mod_split(2) [OF b, of a] by simp
  show "(a * 65536 + b * 256 + c) mod 256 = c"
    unfolding n by (rule div_mod_split(2) [OF c])
qed

lemma quantum_join:
  "(n :: nat) div 262144 * 262144 + n div 4096 mod 64 * 4096 + n div 64 mod 64 * 64 + n mod 64 = n"
proof -
  define x where "x = n div 64"
  define y where "y = x div 64"
  have y: "n div 4096 = y" using div_mult2_eq [of n 64 64] by (simp add: x_def y_def)
  have z: "n div 262144 = y div 64" using div_mult2_eq [of n 4096 64] y by simp
  have "n = x * 64 + n mod 64" by (simp add: x_def)
  moreover have "x = y * 64 + x mod 64" by (simp add: y_def)
  moreover have "y = y div 64 * 64 + y mod 64" by simp
  ultimately show ?thesis unfolding z y x_def [symmetric] by linarith
qed

lemma char_of_low: "char_of (256 * x + code b) = b"
proof -
  have "(256 * x + code b) mod 256 = code b"
    using div_mod_split(2) [OF code_less [of b], of x] by (simp add: mult.commute)
  then show ?thesis by (metis char_of_code char_of_mod_256)
qed

lemma quantum_chars:
  "char_of ((code a * 65536 + code b * 256 + code c) div 65536) = a"
  "char_of ((code a * 65536 + code b * 256 + code c) div 256) = b"
  "char_of (code a * 65536 + code b * 256 + code c) = c"
  using quantum_split [OF code_less code_less, of "code a" b c]
  by (metis char_of_code char_of_mod_256)+

lemma b64_digits_less: "d \<in> set (b64_digits s) \<Longrightarrow> d < 64"
proof (induction s rule: b64_digits.induct)
  case (2 a)
  have "code a * 16 div 64 < 64"
    by (rule less_mult_imp_div_less) (use code_less [of a] in linarith)
  with 2 show ?case by (auto simp: Let_def)
next
  case (3 a b)
  have "(code a * 1024 + code b * 4) div 4096 < 64"
    by (rule less_mult_imp_div_less) (use code_less [of a] code_less [of b] in linarith)
  with 3 show ?case by (auto simp: Let_def)
next
  case (4 a b c s)
  have "(code a * 65536 + code b * 256 + code c) div 262144 < 64"
    by (rule less_mult_imp_div_less) (use code_less [of a] code_less [of b] code_less [of c] in linarith)
  with 4 show ?case by (auto simp: Let_def)
qed simp

text \<open>The short last quantum: its digits are those of the full one with zero bytes added.\<close>

lemma b64_bytes_digits: "b64_bytes (b64_digits s) = Some s"
proof (induction s rule: b64_digits.induct)
  case (2 a)
  have "code a * 16 div 64 * 4 + code a * 16 mod 64 div 16 = code a"
  proof -
    have "code a * 16 div 64 = code a div 4" "code a * 16 mod 64 = (code a mod 4) * 16"
      using mult_mod_right [of 16 "code a" 4] by (simp_all add: mult.commute)
    then show ?thesis by simp
  qed
  then show ?case by (simp add: Let_def)
next
  case (3 a b)
  let ?n = "code a * 1024 + code b * 4"
  have "?n div 4096 * 4096 + ?n div 64 mod 64 * 64 + ?n mod 64 = ?n"
  proof -
    have "?n div 4096 = ?n div 64 div 64" using div_mult2_eq [of ?n 64 64] by simp
    moreover have "?n = ?n div 64 * 64 + ?n mod 64" by presburger
    moreover have "?n div 64 = ?n div 64 div 64 * 64 + ?n div 64 mod 64" by presburger
    ultimately show ?thesis by linarith
  qed
  moreover have "?n div 1024 = code a"
    using div_mod_split(1) [of "code b * 4" 1024 "code a"] code_less [of b] by simp
  moreover have "?n div 4 = 256 * code a + code b" by simp
  ultimately show ?case by (simp add: Let_def char_of_low)
next
  case (4 a b c s)
  then show ?case
    by (simp add: Let_def quantum_join quantum_chars)
qed simp

text \<open>What the round trip needs of an alphabet.\<close>

definition alphabet :: "bytes \<Rightarrow> bool" where
  "alphabet al \<longleftrightarrow> length al = 64 \<and> distinct al \<and> CHR 0x0A \<notin> set al \<and> CHR 0x0D \<notin> set al"

lemma alphabet_std: "alphabet std_alphabet" and alphabet_url: "alphabet url_alphabet"
  by (simp_all add: alphabet_def std_alphabet_def url_alphabet_def)

lemma index_of_nth: "distinct al \<Longrightarrow> i < length al \<Longrightarrow> index_of al (al ! i) = Some i"
  by (induction al arbitrary: i) (auto simp: nth_Cons' split: nat.splits if_splits)

lemma b64_values_map:
  assumes "alphabet al" and "list_all (\<lambda>d. d < 64) ds"
  shows "b64_values al (map (\<lambda>d. al ! d) ds) = Some ds"
  using assms(2)
proof (induction ds)
  case (Cons d ds)
  then have d: "d < length al" using assms(1) by (simp add: alphabet_def)
  then have "al ! d \<in> set al" by simp
  then have "al ! d \<noteq> CHR 0x0A" "al ! d \<noteq> CHR 0x0D"
    using assms(1) by (auto simp: alphabet_def)
  with Cons d assms(1) show ?case
    by (simp add: index_of_nth alphabet_def)
qed simp

theorem b64_decode_encode: "alphabet al \<Longrightarrow> b64_decode al (b64_encode al s) = Some s"
  using b64_values_map [of al "b64_digits s"] b64_digits_less [of _ s]
  by (simp add: b64_decode_def b64_encode_def b64_bytes_digits list_all_iff)

lemma b64_encode_inject: "alphabet al \<Longrightarrow> b64_encode al s = b64_encode al t \<longleftrightarrow> s = t"
  using b64_decode_encode by (metis option.inject)

text \<open>Every byte of an encoding is in the alphabet: no white space, so trimming keeps it.\<close>

lemma set_b64_encode: "length al = 64 \<Longrightarrow> set (b64_encode al s) \<subseteq> set al"
  using b64_digits_less by (fastforce simp: b64_encode_def)

definition plain :: "char \<Rightarrow> bool" where
  "plain c \<longleftrightarrow> ascii c \<and> \<not> is_space (code c)"

lemma plain_std: "list_all plain std_alphabet" and plain_url: "list_all plain url_alphabet"
  by (simp_all add: std_alphabet_def url_alphabet_def plain_def ascii_def is_space_def)

lemma plain_b64_encode:
  "length al = 64 \<Longrightarrow> list_all plain al \<Longrightarrow> list_all plain (b64_encode al s)"
  using set_b64_encode [of al s] by (auto simp: list_all_iff)

lemma length_b64_digits: "length (b64_digits s) = (length s * 4 + 2) div 3"
  by (induction s rule: b64_digits.induct) (auto simp: Let_def)

end
