(* ===== verification/Json.thy ===== *)
theory Json
  imports Base64
begin

text \<open>
  Package \<^verbatim>\<open>encoding/json\<close>, as far as the source uses it: \<^verbatim>\<open>Marshal\<close> and \<^verbatim>\<open>MarshalIndent\<close> with
  an indent of two blanks (one printer, \<open>jprint\<close>, for both), and the parser below \<^verbatim>\<open>Unmarshal\<close>
  (\<open>json_parse\<close>) with its string escapes, its treatment of malformed UTF-8 and its nesting limit.
  How a value fills a Go struct is stated with each struct. The main fact is the round trip
  \<open>json_parse_print\<close>.
\<close>

datatype json =
    JNull
  | JBool bool
  | JNum bytes
  | JStr bytes
  | JArr "json list"
  | JObj "(bytes \<times> json) list"

abbreviation dquote :: char where "dquote \<equiv> CHR 0x22"
abbreviation bslash :: char where "bslash \<equiv> CHR 0x5C"

subsection \<open>Printing\<close>

definition hex_digit :: "nat \<Rightarrow> char" where
  "hex_digit n = ''0123456789abcdef'' ! n"

text \<open>One byte below 128, with the HTML characters escaped as \<^verbatim>\<open>Marshal\<close> does.\<close>

definition enc_ascii :: "char \<Rightarrow> bytes" where
  "enc_ascii c =
     (if c = dquote \<or> c = bslash then [bslash, c]
      else if c = CHR 0x08 then [bslash, CHR ''b'']
      else if c = CHR 0x0C then [bslash, CHR ''f'']
      else if c = CHR 0x0A then [bslash, CHR ''n'']
      else if c = CHR 0x0D then [bslash, CHR ''r'']
      else if c = CHR 0x09 then [bslash, CHR ''t'']
      else if code c < 32 \<or> c \<in> set ''<>&'' then
        bslash # ''u00'' @ [hex_digit (code c div 16), hex_digit (code c mod 16)]
      else [c])"

fun enc_piece :: "piece \<Rightarrow> bytes" where
  "enc_piece (Bad c) = bslash # ''ufffd''"
| "enc_piece (Rune r b) =
     (if length b = 1 then enc_ascii (hd b)
      else if r = 8232 then bslash # ''u2028''
      else if r = 8233 then bslash # ''u2029''
      else b)"

definition enc_str :: "bytes \<Rightarrow> bytes" where
  "enc_str s = concat (map enc_piece (pieces s))"

definition quote_str :: "bytes \<Rightarrow> bytes" where
  "quote_str s = dquote # enc_str s @ [dquote]"

definition newline :: "bool \<Rightarrow> nat \<Rightarrow> bytes" where
  "newline ind l = (if ind then CHR 0x0A # replicate (2 * l) CHR '' '' else [])"

definition colon :: "bool \<Rightarrow> bytes" where
  "colon ind = (if ind then '': '' else '':'')"

fun jprint :: "bool \<Rightarrow> nat \<Rightarrow> json \<Rightarrow> bytes" where
  "jprint ind l JNull = ''null''"
| "jprint ind l (JBool b) = (if b then ''true'' else ''false'')"
| "jprint ind l (JNum n) = n"
| "jprint ind l (JStr s) = quote_str s"
| "jprint ind l (JArr vs) =
     (if vs = [] then ''[]''
      else ''['' @ newline ind (Suc l)
        @ join (map (jprint ind (Suc l)) vs) ('','' @ newline ind (Suc l))
        @ newline ind l @ '']'')"
| "jprint ind l (JObj kvs) =
     (if kvs = [] then ''{}''
      else ''{'' @ newline ind (Suc l)
        @ join (map (\<lambda>kv. quote_str (fst kv) @ colon ind @ jprint ind (Suc l) (snd kv)) kvs)
             ('','' @ newline ind (Suc l))
        @ newline ind l @ ''}'')"

definition marshal :: "json \<Rightarrow> bytes" where
  "marshal v = jprint False 0 v"

definition marshal_indent :: "json \<Rightarrow> bytes" where
  "marshal_indent v = jprint True 0 v"

subsection \<open>String literals\<close>

definition hex_value :: "char \<Rightarrow> nat option" where
  "hex_value c =
     (if in_range 48 57 c then Some (code c - 48)
      else if in_range 97 102 c then Some (code c - 87)
      else if in_range 65 70 c then Some (code c - 55)
      else None)"

fun hex4 :: "bytes \<Rightarrow> nat option" where
  "hex4 (a # b # c # d # _) =
     (case (hex_value a, hex_value b, hex_value c, hex_value d) of
        (Some w, Some x, Some y, Some z) \<Rightarrow> Some (((w * 16 + x) * 16 + y) * 16 + z)
      | _ \<Rightarrow> None)"
| "hex4 _ = None"

text \<open>The scanner: the raw text up to the closing quote, with its escapes checked.\<close>

function scan_string :: "bytes \<Rightarrow> (bytes \<times> bytes) option" where
  "scan_string [] = None"
| "scan_string (c # s) =
     (if c = dquote then Some ([], s)
      else if c = bslash then
        (if s = [] then None
         else if hd s = CHR ''u'' then
           (if hex4 (tl s) = None then None
            else map_option (\<lambda>(r, t). (c # take 5 s @ r, t)) (scan_string (drop 5 s)))
         else if hd s \<in> set (dquote # bslash # ''/bfnrt'') then
           map_option (\<lambda>(r, t). (c # hd s # r, t)) (scan_string (tl s))
         else None)
      else if code c < 32 then None
      else map_option (\<lambda>(r, t). (c # r, t)) (scan_string s))"
  by pat_completeness auto
termination
  by (relation "measure length") (auto simp: neq_Nil_conv)

declare scan_string.simps(2) [simp del]

fun escaped :: "char \<Rightarrow> char" where
  "escaped e =
     (if e = CHR ''b'' then CHR 0x08 else if e = CHR ''f'' then CHR 0x0C
      else if e = CHR ''n'' then CHR 0x0A else if e = CHR ''r'' then CHR 0x0D
      else if e = CHR ''t'' then CHR 0x09 else e)"

definition utf8_encode :: "nat \<Rightarrow> bytes" where
  "utf8_encode r =
     (if r < 128 then [char_of r]
      else if r < 2048 then [char_of (192 + r div 64), char_of (128 + r mod 64)]
      else if r < 65536 then
        [char_of (224 + r div 4096), char_of (128 + r div 64 mod 64), char_of (128 + r mod 64)]
      else [char_of (240 + r div 262144), char_of (128 + r div 4096 mod 64),
            char_of (128 + r div 64 mod 64), char_of (128 + r mod 64)])"

text \<open>A code unit written as an escape: a surrogate pair is one rune, a lone surrogate U+FFFD.\<close>

definition low_surrogate :: "bytes \<Rightarrow> nat option" where
  "low_surrogate t =
     (if take 2 t = [bslash, CHR ''u''] then
        (case hex4 (drop 2 t) of
           Some r \<Rightarrow> if 56320 \<le> r \<and> r < 57344 then Some r else None
         | None \<Rightarrow> None)
      else None)"

definition unit_bytes :: "nat \<Rightarrow> bytes \<Rightarrow> bytes \<times> nat" where
  "unit_bytes r t =
     (if 55296 \<le> r \<and> r < 57344 then
        (case (if r < 56320 then low_surrogate t else None) of
           Some r2 \<Rightarrow> (utf8_encode (65536 + (r - 55296) * 1024 + (r2 - 56320)), 6)
         | None \<Rightarrow> (utf8_encode 65533, 0))
      else (utf8_encode r, 0))"

function unquote :: "bytes \<Rightarrow> bytes" where
  "unquote [] = []"
| "unquote (c # s) =
     (if c = bslash then
        (if s = [] then []
         else if hd s = CHR ''u'' then
           (case hex4 (tl s) of
              None \<Rightarrow> []
            | Some r \<Rightarrow> let (b, n) = unit_bytes r (drop 5 s) in b @ unquote (drop (5 + n) s))
         else escaped (hd s) # unquote (tl s))
      else if ascii c then c # unquote s
      else if seq_len (c # s) = 0 then utf8_encode 65533 @ unquote s
      else take (seq_len (c # s)) (c # s) @ unquote (drop (seq_len (c # s)) (c # s)))"
  by pat_completeness auto
termination
  by (relation "measure length") (auto simp: neq_Nil_conv simp del: seq_len.simps)

declare unquote.simps(2) [simp del]

subsection \<open>Numbers\<close>

definition is_digit :: "char \<Rightarrow> bool" where
  "is_digit c = in_range 48 57 c"

definition scan_exp :: "bytes \<Rightarrow> bytes \<Rightarrow> (bytes \<times> bytes) option" where
  "scan_exp acc s =
     (case s of
        [] \<Rightarrow> Some (acc, s)
      | e # t \<Rightarrow>
          if e \<in> set ''eE'' then
            (let sg = (case t of [] \<Rightarrow> [] | c # _ \<Rightarrow> if c \<in> set ''+-'' then [c] else []);
                 u = drop (length sg) t;
                 ds = takeWhile is_digit u
             in if ds = [] then None else Some (acc @ e # sg @ ds, dropWhile is_digit u))
          else Some (acc, s))"

definition scan_frac :: "bytes \<Rightarrow> bytes \<Rightarrow> (bytes \<times> bytes) option" where
  "scan_frac acc s =
     (case s of
        [] \<Rightarrow> Some (acc, s)
      | c # t \<Rightarrow>
          if c = CHR ''.'' then
            (if takeWhile is_digit t = [] then None
             else scan_exp (acc @ c # takeWhile is_digit t) (dropWhile is_digit t))
          else scan_exp acc s)"

definition scan_uint :: "bytes \<Rightarrow> bytes \<Rightarrow> (bytes \<times> bytes) option" where
  "scan_uint acc s =
     (case s of
        [] \<Rightarrow> None
      | c # t \<Rightarrow>
          if c = CHR ''0'' then scan_frac (acc @ [c]) t
          else if is_digit c then scan_frac (acc @ takeWhile is_digit s) (dropWhile is_digit s)
          else None)"

definition scan_num :: "bytes \<Rightarrow> (bytes \<times> bytes) option" where
  "scan_num s =
     (case s of
        [] \<Rightarrow> None
      | c # t \<Rightarrow> if c = CHR ''-'' then scan_uint [c] t else scan_uint [] s)"

subsection \<open>Values\<close>

definition is_ws :: "char \<Rightarrow> bool" where
  "is_ws c \<longleftrightarrow> c = CHR '' '' \<or> c = CHR 0x09 \<or> c = CHR 0x0A \<or> c = CHR 0x0D"

definition skip_ws :: "bytes \<Rightarrow> bytes" where
  "skip_ws = dropWhile is_ws"

definition max_depth :: nat where
  "max_depth = 10000"

text \<open>
  The first argument is fuel. At most two calls are nested without a byte consumed between them, so
  twice the length of the text is enough: more never changes the result (\<open>parse_fuel\<close> in
  \<^theory_text>\<open>Json_Roundtrip\<close>).
\<close>

fun parse_value :: "nat \<Rightarrow> nat \<Rightarrow> bytes \<Rightarrow> (json \<times> bytes) option"
and parse_elems :: "nat \<Rightarrow> nat \<Rightarrow> bytes \<Rightarrow> (json list \<times> bytes) option"
and parse_members :: "nat \<Rightarrow> nat \<Rightarrow> bytes \<Rightarrow> ((bytes \<times> json) list \<times> bytes) option" where
  "parse_value 0 d s = None"
| "parse_value (Suc f) d s =
     (case skip_ws s of
        [] \<Rightarrow> None
      | c # t \<Rightarrow>
          if c = CHR ''{'' then
            (if d \<ge> max_depth then None
             else case skip_ws t of
                 [] \<Rightarrow> None
               | x # u \<Rightarrow>
                   if x = CHR ''}'' then Some (JObj [], u)
                   else map_option (\<lambda>(kvs, r). (JObj kvs, r)) (parse_members f (Suc d) t))
          else if c = CHR ''['' then
            (if d \<ge> max_depth then None
             else case skip_ws t of
                 [] \<Rightarrow> None
               | x # u \<Rightarrow>
                   if x = CHR '']'' then Some (JArr [], u)
                   else map_option (\<lambda>(vs, r). (JArr vs, r)) (parse_elems f (Suc d) t))
          else if c = dquote then
            map_option (\<lambda>(raw, r). (JStr (unquote raw), r)) (scan_string t)
          else if has_prefix (c # t) ''null'' then Some (JNull, drop 4 (c # t))
          else if has_prefix (c # t) ''true'' then Some (JBool True, drop 4 (c # t))
          else if has_prefix (c # t) ''false'' then Some (JBool False, drop 5 (c # t))
          else map_option (\<lambda>(n, r). (JNum n, r)) (scan_num (c # t)))"
| "parse_elems 0 d s = None"
| "parse_elems (Suc f) d s =
     (case parse_value f d s of
        None \<Rightarrow> None
      | Some (v, r) \<Rightarrow>
          (case skip_ws r of
             [] \<Rightarrow> None
           | c # t \<Rightarrow>
               if c = CHR '','' then map_option (\<lambda>(vs, u). (v # vs, u)) (parse_elems f d t)
               else if c = CHR '']'' then Some ([v], t)
               else None))"
| "parse_members 0 d s = None"
| "parse_members (Suc f) d s =
     (case skip_ws s of
        [] \<Rightarrow> None
      | q # s1 \<Rightarrow>
          if q \<noteq> dquote then None
          else case scan_string s1 of
              None \<Rightarrow> None
            | Some (raw, s2) \<Rightarrow>
                (case skip_ws s2 of
                   [] \<Rightarrow> None
                 | x # s3 \<Rightarrow>
                     if x \<noteq> CHR '':'' then None
                     else case parse_value f d s3 of
                         None \<Rightarrow> None
                       | Some (v, r) \<Rightarrow>
                           (case skip_ws r of
                              [] \<Rightarrow> None
                            | c # t \<Rightarrow>
                                if c = CHR '','' then
                                  map_option (\<lambda>(kvs, u). ((unquote raw, v) # kvs, u))
                                    (parse_members f d t)
                                else if c = CHR ''}'' then Some ([(unquote raw, v)], t)
                                else None)))"

definition json_parse :: "bytes \<Rightarrow> json option" where
  "json_parse s =
     (case parse_value (2 * length s + 1) 0 s of
        None \<Rightarrow> None
      | Some (v, r) \<Rightarrow> if skip_ws r = [] then Some v else None)"

end
