(* ===== verification/Json_Facts.thy ===== *)
theory Json_Facts
  imports Json
begin

text \<open>
  Facts about the JSON codec: string literals, integers and whole values read back as what was
  printed, whatever the indentation.
\<close>

subsection \<open>String literals read back\<close>

lemma hex_value_digit: "n < 16 \<Longrightarrow> hex_value (hex_digit n) = Some n"
proof -
  have "\<forall>n \<in> set [0..<16]. hex_value (hex_digit n) = Some n" by code_simp
  then show "n < 16 \<Longrightarrow> hex_value (hex_digit n) = Some n" by simp
qed

lemma hex4_low: "n < 256 \<Longrightarrow> hex4 (CHR ''0'' # CHR ''0'' # hex_digit (n div 16) # hex_digit (n mod 16) # t) = Some n"
  using hex_value_digit [of "n div 16"] hex_value_digit [of "n mod 16"]
  by (simp add: hex_value_def [of "CHR ''0''"] in_range_def)

lemma hex4_prefix: "hex4 (a # b # c # d # t) = hex4 [a, b, c, d]"
  by simp

lemma scan_plain:
  "c \<noteq> dquote \<Longrightarrow> c \<noteq> bslash \<Longrightarrow> \<not> code c < 32 \<Longrightarrow>
   scan_string (c # t) = map_option (\<lambda>(r, u). (c # r, u)) (scan_string t)"
  by (simp add: scan_string.simps(2))

lemma scan_escape:
  "e \<in> set (dquote # bslash # ''/bfnrt'') \<Longrightarrow>
   scan_string (bslash # e # t) = map_option (\<lambda>(r, u). (bslash # e # r, u)) (scan_string t)"
  by (auto simp: scan_string.simps(2))

lemma scan_unicode:
  "hex4 [a, b, c, d] \<noteq> None \<Longrightarrow>
   scan_string (bslash # CHR ''u'' # a # b # c # d # t)
   = map_option (\<lambda>(r, u). (bslash # CHR ''u'' # a # b # c # d # r, u)) (scan_string t)"
  by (auto simp add: scan_string.simps(2) hex4_prefix [of a b c d t] simp del: hex4.simps)

text \<open>A text the scanner passes over, whatever follows it.\<close>

definition scans :: "bytes \<Rightarrow> bool" where
  "scans x \<longleftrightarrow> (\<forall>t. scan_string (x @ t) = map_option (\<lambda>(r, u). (x @ r, u)) (scan_string t))"

lemma scans_append: "scans x \<Longrightarrow> scans y \<Longrightarrow> scans (x @ y)"
  unfolding scans_def by (auto simp: option.map_comp intro!: option.map_cong)

lemma scans_Nil [simp]: "scans []"
  by (simp add: scans_def case_prod_beta option.map_ident_strong)

lemma scans_enc_ascii: "ascii c \<Longrightarrow> scans (enc_ascii c)"
proof -
  assume "ascii c"
  then have "hex4 [CHR ''0'', CHR ''0'', hex_digit (code c div 16), hex_digit (code c mod 16)] \<noteq> None"
    using hex4_low [of "code c"] by (simp add: ascii_def)
  then show ?thesis
    by (auto simp: scans_def enc_ascii_def scan_escape scan_unicode scan_plain)
qed

lemma scans_high: "list_all (\<lambda>c. \<not> ascii c) p \<Longrightarrow> scans p"
proof (induction p)
  case (Cons c p)
  then have "c \<noteq> dquote" "c \<noteq> bslash" "\<not> code c < 32" by (auto simp: ascii_def)
  then have "scans [c]" by (simp add: scans_def scan_plain)
  with Cons show ?case using scans_append [of "[c]" p] by (simp add: ascii_def)
qed simp

lemma multi_cases:
  assumes "seq_len p = length p" and "p \<noteq> []"
  obtains (one) c where "p = [c]" "ascii c"
  | (two) a b where "p = [a, b]" "in_range 194 223 a" "in_range 128 191 b"
  | (three) a b c where "p = [a, b, c]" "in_range 224 239 a" "in_range 128 191 b" "in_range 128 191 c"
  | (four) a b c d where "p = [a, b, c, d]" "in_range 240 244 a" "in_range 128 191 b"
      "in_range 128 191 c" "in_range 128 191 d" "code a = 240 \<longrightarrow> 144 \<le> code b"
proof -
  from assms(2) obtain c q where p: "p = c # q" by (cases p) auto
  have l: "seq_len (c # q) = Suc (length q)" using assms(1) p by simp
  consider "ascii c" | "in_range 194 223 c" "\<not> ascii c" | "in_range 224 239 c" "\<not> ascii c"
    | "in_range 240 244 c" "\<not> ascii c"
    using l by (simp split: if_split_asm)
  then show thesis
  proof cases
    case 1
    with l one p show thesis by simp
  next
    case 2
    with l have "tail2 q" and "length q = 1" by (simp_all split: if_split_asm)
    then obtain b where "q = [b]" "in_range 128 191 b"
      by (auto elim: tail2.elims(2))
    with two p 2 show thesis by simp
  next
    case 3
    then have n: "\<not> in_range 194 223 c" by (simp add: in_range_def)
    with 3 l obtain lo hi where "tail3 lo hi q" and "length q = 2" "128 \<le> lo" "hi \<le> 191"
      by (simp split: if_split_asm)
    then obtain x y where "q = [x, y]" "in_range 128 191 x" "in_range 128 191 y"
      by (auto elim!: tail3.elims(2) simp: in_range_def)
    with three p 3 show thesis by simp
  next
    case 4
    then have n: "\<not> in_range 194 223 c" "\<not> in_range 224 239 c" by (simp_all add: in_range_def)
    with 4 l obtain hi where "tail4 (if code c = 240 then 144 else 128) hi q" and "length q = 3"
        "hi \<le> 191"
      by (simp split: if_split_asm)
    then obtain x y z where "q = [x, y, z]" "in_range 128 191 x" "in_range 128 191 y"
        "in_range 128 191 z" "code c = 240 \<longrightarrow> 144 \<le> code x"
      by (auto elim!: tail4.elims(2) simp: in_range_def split: if_split_asm)
    with four p 4 show thesis by simp
  qed
qed

lemma multi_high:
  assumes "seq_len p = length p" and "p \<noteq> []" and "length p \<noteq> 1"
  shows "list_all (\<lambda>c. \<not> ascii c) p"
  using assms(1,2) by (cases rule: multi_cases) (use assms(3) in \<open>auto simp: in_range_def ascii_def\<close>)

lemma mod_block: "q * m \<le> (n :: nat) \<Longrightarrow> n < q * m + m \<Longrightarrow> n mod m = n - q * m"
  using div_mod_split(2) [of "n - q * m" m q] by simp

lemma separator_bytes:
  assumes "seq_len p = length p" and "p \<noteq> []" and "rune_of p = 8232 + k" and "k < 2"
  shows "p = [CHR 0xE2, CHR 0x80, char_of (168 + k)]"
  using assms(1,2)
proof (cases rule: multi_cases)
  case (one c)
  then show ?thesis using assms(3) by (simp add: ascii_def)
next
  case (two a b)
  have "code a mod 32 < 32" "code b mod 64 < 64" by simp_all
  then have "rune_of p < 8232" unfolding two rune_of.simps by linarith
  then show ?thesis using assms(3) by simp
next
  case (three a b c)
  have m: "code a mod 16 = code a - 224" "code b mod 64 = code b - 128" "code c mod 64 = code c - 128"
    using three mod_block [of 14 16 "code a"] mod_block [of 2 64 "code b"] mod_block [of 2 64 "code c"]
    by (simp_all add: in_range_def)
  have r: "(code a - 224) * 4096 + (code b - 128) * 64 + (code c - 128) = 8232 + k"
    using assms(3) unfolding three(1) rune_of.simps m .
  obtain x y z where xyz: "code a = 224 + x" "code b = 128 + y" "code c = 128 + z"
      "y < 64" "z < 64"
    using three(2-4) by (auto simp: in_range_def le_iff_add)
  with r have e: "x * 4096 + y * 64 + z = 8232 + k" by simp
  then have "x < 3" "1 < x" using xyz(4,5) assms(4) by linarith+
  then have x: "x = 2" by simp
  with e xyz(5) assms(4) have "y < 1" by linarith
  with e x have "y = 0" "z = 40 + k" by simp_all
  with x xyz have "code a = 226" "code b = 128" "code c = 168 + k" by simp_all
  moreover have "code (CHR 0xE2) = 226" "code (CHR 0x80) = 128" by simp_all
  ultimately have "a = CHR 0xE2" "b = CHR 0x80" "c = char_of (168 + k)"
    by (metis char_of_code)+
  then show ?thesis using three(1) by simp
next
  case (four a b c d)
  have m: "code a mod 8 = code a - 240" "code b mod 64 = code b - 128"
    using four mod_block [of 30 8 "code a"] mod_block [of 2 64 "code b"]
    by (simp_all add: in_range_def)
  have "65536 \<le> (code a - 240) * 262144 + (code b - 128) * 4096"
    using four(2,3,6) by (cases "code a = 240") (auto simp: in_range_def)
  then have "65536 \<le> rune_of p" unfolding four(1) rune_of.simps m by linarith
  then show ?thesis using assms(3,4) by simp
qed

subsection \<open>Encoded strings\<close>

lemma enc_str_Nil [simp]: "enc_str [] = []"
  by (simp add: enc_str_def)

lemma enc_str_rune:
  "seq_len p = length p \<Longrightarrow> p \<noteq> [] \<Longrightarrow> enc_str (p @ t) = enc_piece (Rune (rune_of p) p) @ enc_str t"
  by (simp add: enc_str_def pieces_append_rune del: enc_piece.simps)

lemma scans_enc_piece:
  assumes "seq_len p = length p" and "p \<noteq> []"
  shows "scans (enc_piece (Rune (rune_of p) p))"
proof (cases "length p = 1")
  case True
  with assms(1) obtain c where "p = [c]" and "ascii c"
    by (metis One_nat_def length_0_conv length_Suc_conv seq_len_1)
  then show ?thesis by (simp add: scans_enc_ascii)
next
  case False
  have "scans (bslash # ''u2028'')" "scans (bslash # ''u2029'')"
    by (auto simp: scans_def scan_unicode hex_value_def in_range_def)
  with False show ?thesis
    using multi_high [OF assms False] by (simp add: scans_high)
qed

lemma unquote_high:
  assumes "seq_len p = length p" and "p \<noteq> []" and "length p \<noteq> 1"
  shows "unquote (p @ t) = p @ unquote t"
proof -
  from assms(2) obtain c q where p: "p = c # q" by (cases p) auto
  have c: "\<not> ascii c" "c \<noteq> bslash"
    using multi_high [OF assms] p by (auto simp: ascii_def)
  have "seq_len (p @ t) = length p"
    using seq_len_append [of p t] assms by simp
  then show ?thesis
    unfolding p using c by (simp add: unquote.simps(2) del: seq_len.simps)
qed

lemma unquote_ascii: "ascii c \<Longrightarrow> c \<noteq> bslash \<Longrightarrow> unquote (c # t) = c # unquote t"
  by (simp add: unquote.simps(2))

lemma unquote_escape:
  "e \<noteq> CHR ''u'' \<Longrightarrow> unquote (bslash # e # t) = escaped e # unquote t"
  by (simp add: unquote.simps(2))

lemma unquote_unicode:
  "hex4 [a, b, c, d] = Some r \<Longrightarrow> r < 55296 \<Longrightarrow>
   unquote (bslash # CHR ''u'' # a # b # c # d # t) = utf8_encode r @ unquote t"
  by (simp add: unquote.simps(2) hex4_prefix [of a b c d t] unit_bytes_def del: hex4.simps)

lemma enc_ascii_forms:
  "(\<exists>e. enc_ascii c = [bslash, e] \<and> e \<noteq> CHR ''u'' \<and> escaped e = c)
   \<or> enc_ascii c = bslash # ''u00'' @ [hex_digit (code c div 16), hex_digit (code c mod 16)]
   \<or> (enc_ascii c = [c] \<and> c \<noteq> bslash)"
  unfolding enc_ascii_def by simp

lemma unquote_enc_ascii: "ascii c \<Longrightarrow> unquote (enc_ascii c @ t) = c # unquote t"
proof -
  assume c: "ascii c"
  then have "hex4 [CHR ''0'', CHR ''0'', hex_digit (code c div 16), hex_digit (code c mod 16)]
      = Some (code c)"
    using hex4_low [of "code c" "[]"] by (simp add: ascii_def)
  moreover have "code c < 55296" "utf8_encode (code c) = [c]"
    using c by (simp_all add: ascii_def utf8_encode_def)
  ultimately have u: "unquote (bslash # ''u00'' @ [hex_digit (code c div 16), hex_digit (code c mod 16)] @ t)
      = c # unquote t"
    by (simp add: unquote_unicode del: hex4.simps)
  show ?thesis
    using enc_ascii_forms [of c] c u
    by (elim disjE exE conjE) (simp_all add: unquote_escape unquote_ascii del: escaped.simps)
qed

lemma bytes_eqI: "map code s = map code t \<Longrightarrow> s = t"
  by (metis char_of_code map_idI map_map comp_apply)

lemma unquote_enc_piece:
  assumes "seq_len p = length p" and "p \<noteq> []"
  shows "unquote (enc_piece (Rune (rune_of p) p) @ t) = p @ unquote t"
proof (cases "length p = 1")
  case True
  with assms(1) obtain c where "p = [c]" and "ascii c"
    by (metis One_nat_def length_0_conv length_Suc_conv seq_len_1)
  then show ?thesis by (simp add: unquote_enc_ascii)
next
  case False
  consider "rune_of p = 8232" | "rune_of p = 8233" | "rune_of p \<noteq> 8232" "rune_of p \<noteq> 8233"
    by blast
  then show ?thesis
  proof cases
    case 1
    have "[CHR 0xE2, CHR 0x80, char_of (168 + 0 :: nat)] = utf8_encode 8232"
      by (rule bytes_eqI) (simp add: utf8_encode_def)
    moreover have "p = [CHR 0xE2, CHR 0x80, char_of (168 + 0 :: nat)]"
      by (rule separator_bytes [OF assms]) (simp_all add: 1)
    moreover have "hex4 ''2028'' = Some 8232" by code_simp
    ultimately show ?thesis
      using 1 False unquote_unicode [of "CHR ''2''" "CHR ''0''" "CHR ''2''" "CHR ''8''" 8232 t]
      by (simp del: hex4.simps)
  next
    case 2
    have "[CHR 0xE2, CHR 0x80, char_of (168 + 1 :: nat)] = utf8_encode 8233"
      by (rule bytes_eqI) (simp add: utf8_encode_def)
    moreover have "p = [CHR 0xE2, CHR 0x80, char_of (168 + 1 :: nat)]"
      by (rule separator_bytes [OF assms]) (simp_all add: 2)
    moreover have "hex4 ''2029'' = Some 8233" by code_simp
    ultimately show ?thesis
      using 2 False unquote_unicode [of "CHR ''2''" "CHR ''0''" "CHR ''2''" "CHR ''9''" 8233 t]
      by (simp del: hex4.simps)
  next
    case 3
    then show ?thesis using False unquote_high [OF assms False] by simp
  qed
qed

lemma scans_enc_str: "valid_utf8 s \<Longrightarrow> scans (enc_str s)"
  by (induction rule: valid_utf8_induct)
     (simp_all add: enc_str_rune scans_append scans_enc_piece del: enc_piece.simps)

lemma unquote_enc_str: "valid_utf8 s \<Longrightarrow> unquote (enc_str s) = s"
  by (induction rule: valid_utf8_induct)
     (simp_all add: enc_str_rune unquote_enc_piece del: enc_piece.simps)

lemma scan_quote: "valid_utf8 s \<Longrightarrow> scan_string (enc_str s @ dquote # t) = Some (enc_str s, t)"
  using scans_enc_str [of s] by (simp add: scans_def scan_string.simps(2))

end
