(* ===== verification/Json_Roundtrip.thy ===== *)
theory Json_Roundtrip
  imports Json_Facts
begin

text \<open>
  The parser reads back what the printer wrote: for every value whose strings are well-formed UTF-8,
  whose numbers are integers and whose nesting stays within the parser's limit, compact or indented.
  And the parser's fuel never runs out.
\<close>

subsection \<open>Integers\<close>

definition stops :: "bytes \<Rightarrow> bool" where
  "stops t \<longleftrightarrow> (case t of [] \<Rightarrow> True | c # _ \<Rightarrow> \<not> is_digit c \<and> c \<notin> set ''.eE'')"

lemma code_digit: "d < 10 \<Longrightarrow> code (digit_char d) = 48 + d"
  by (simp add: digit_char_def)

lemma is_digit_char: "d < 10 \<Longrightarrow> is_digit (digit_char d)"
  by (simp add: is_digit_def in_range_def code_digit)

lemma utoa_digits: "list_all is_digit (utoa n)"
proof (induction n rule: utoa.induct)
  case (1 n)
  then show ?case
    by (subst utoa.simps) (auto simp: is_digit_char)
qed

lemma utoa_hd_zero: "hd (utoa n) = CHR ''0'' \<Longrightarrow> n = 0"
proof (induction n rule: utoa.induct)
  case (1 n)
  show ?case
  proof (cases "n < 10")
    case True
    then have "code (hd (utoa n)) = 48 + n"
      by (subst utoa.simps) (simp add: code_digit)
    with "1.prems" show ?thesis by simp
  next
    case False
    then have "hd (utoa n) = hd (utoa (n div 10))"
      by (subst utoa.simps) simp
    with "1.IH" False "1.prems" have "n div 10 = 0" by simp
    with False show ?thesis by simp
  qed
qed

lemma utoa_0 [simp]: "utoa 0 = ''0''"
  by (subst utoa.simps) (simp add: digit_char_def, code_simp)

lemma digits_span:
  assumes "list_all is_digit ds" and "stops t"
  shows "takeWhile is_digit (ds @ t) = ds" and "dropWhile is_digit (ds @ t) = t"
proof -
  have "takeWhile is_digit t = []" "dropWhile is_digit t = t"
    using assms(2) by (auto simp: stops_def split: list.splits)
  then show "takeWhile is_digit (ds @ t) = ds" "dropWhile is_digit (ds @ t) = t"
    using assms(1) by (induction ds) auto
qed

lemma scan_frac_stops: "stops t \<Longrightarrow> scan_frac acc t = Some (acc, t)"
  by (auto simp: scan_frac_def scan_exp_def stops_def split: list.splits)

lemma scan_uint_utoa:
  assumes "stops t"
  shows "scan_uint acc (utoa n @ t) = Some (acc @ utoa n, t)"
proof (cases "n = 0")
  case True
  then show ?thesis using assms by (simp add: scan_uint_def scan_frac_stops)
next
  case False
  obtain c s where u: "utoa n = c # s" by (meson neq_Nil_conv utoa_nonempty)
  have c: "c \<noteq> CHR ''0''" "is_digit c"
    using utoa_hd_zero [of n] False utoa_digits [of n] u by auto
  then have "scan_uint acc (utoa n @ t)
      = scan_frac (acc @ takeWhile is_digit (utoa n @ t)) (dropWhile is_digit (utoa n @ t))"
    by (simp add: scan_uint_def u)
  then show ?thesis
    using digits_span [OF utoa_digits assms] scan_frac_stops [OF assms] by simp
qed

lemma utoa_not_minus: "utoa n = c # s \<Longrightarrow> is_digit c"
  using utoa_digits [of n] by simp

lemma scan_num_itoa:
  assumes "stops t"
  shows "scan_num (itoa i @ t) = Some (itoa i, t)"
proof (cases "i < 0")
  case True
  then show ?thesis
    using scan_uint_utoa [OF assms, of "''-''"] by (simp add: scan_num_def itoa_def)
next
  case False
  obtain c s where u: "utoa (nat i) = c # s" by (meson neq_Nil_conv utoa_nonempty)
  then have "c \<noteq> CHR ''-''" using utoa_not_minus [OF u] by (auto simp: is_digit_def in_range_def)
  then show ?thesis
    using False scan_uint_utoa [OF assms, of "[]" "nat i"] u by (simp add: scan_num_def itoa_def)
qed

lemma itoa_hd: "\<exists>c s. itoa i = c # s \<and> (c = CHR ''-'' \<or> is_digit c)"
  by (metis itoa_def neq_Nil_conv utoa_nonempty utoa_not_minus)

subsection \<open>Printable values\<close>

fun jok :: "nat \<Rightarrow> json \<Rightarrow> bool" where
  "jok d (JNum n) = (\<exists>i. n = itoa i)"
| "jok d (JStr s) = valid_utf8 s"
| "jok d (JArr vs) = (d < max_depth \<and> list_all (jok (Suc d)) vs)"
| "jok d (JObj kvs) =
     (d < max_depth \<and> list_all (\<lambda>kv. valid_utf8 (fst kv) \<and> jok (Suc d) (snd kv)) kvs)"
| "jok d _ = True"

lemma jprint_hd:
  assumes "jok d v"
  shows "\<exists>c u. jprint ind l v = c # u \<and> \<not> is_ws c \<and> c \<noteq> CHR '']'' \<and> c \<noteq> CHR ''}''"
proof (cases v)
  case (JNum n)
  with assms obtain i where "n = itoa i" by auto
  with JNum itoa_hd [of i] show ?thesis
    by (auto simp: is_digit_def in_range_def is_ws_def)
qed (auto simp: is_ws_def quote_str_def)

lemma skip_ws_append: "list_all is_ws w \<Longrightarrow> skip_ws (w @ s) = skip_ws s"
  by (simp add: skip_ws_def dropWhile_all)

lemma newline_ws: "list_all is_ws (newline ind l)"
  by (auto simp: newline_def is_ws_def list_all_iff)

lemma skip_ws_id: "\<not> is_ws c \<Longrightarrow> skip_ws (c # s) = c # s"
  by (simp add: skip_ws_def)

lemma parse_value_ws: "list_all is_ws w \<Longrightarrow> parse_value f d (w @ s) = parse_value f d s"
  by (cases f) (simp_all add: skip_ws_append)

lemma parse_members_ws: "list_all is_ws w \<Longrightarrow> parse_members f d (w @ s) = parse_members f d s"
  by (cases f) (simp_all add: skip_ws_append)

lemma parse_elems_ws: "list_all is_ws w \<Longrightarrow> parse_elems f d (w @ s) = parse_elems f d s"
  by (cases f) (simp_all add: parse_value_ws)

lemma stops_ws: "list_all is_ws w \<Longrightarrow> stops (c # t) \<Longrightarrow> stops (w @ c # t)"
  by (cases w) (auto simp: stops_def is_ws_def is_digit_def in_range_def)

lemma stops_close [simp]: "stops (CHR '']'' # t)" "stops (CHR ''}'' # t)" "stops (CHR '','' # t)"
  by (simp_all add: stops_def is_digit_def in_range_def)

lemma skip_ws_close:
  "list_all is_ws w \<Longrightarrow> \<not> is_ws c \<Longrightarrow> skip_ws (w @ c # t) = c # t"
  by (simp add: skip_ws_append skip_ws_id)

lemma not_ws_punct [simp]:
  "\<not> is_ws (CHR '']'')" "\<not> is_ws (CHR ''}'')" "\<not> is_ws (CHR '','')" "\<not> is_ws (CHR '':'')"
  "\<not> is_ws dquote" "\<not> is_ws (CHR ''['')" "\<not> is_ws (CHR ''{'')"
  by (simp_all add: is_ws_def)

text \<open>What the induction proves of one value: it reads back with fuel for its own length.\<close>

definition reads :: "bool \<Rightarrow> json \<Rightarrow> bool" where
  "reads ind v \<longleftrightarrow>
     (\<forall>f d l t. jok d v \<longrightarrow> length (jprint ind l v) \<le> f \<longrightarrow> stops t \<longrightarrow>
        parse_value f d (jprint ind l v @ t) = Some (v, t))"

lemma readsD:
  "reads ind v \<Longrightarrow> jok d v \<Longrightarrow> length (jprint ind l v) \<le> f \<Longrightarrow> stops t \<Longrightarrow>
   parse_value f d (jprint ind l v @ t) = Some (v, t)"
  by (simp add: reads_def)

lemma jprint_length: "jok d v \<Longrightarrow> 0 < length (jprint ind l v)"
  using jprint_hd [of d v ind l] by auto

lemma parse_elems_join:
  assumes "vs \<noteq> []" and "\<forall>v \<in> set vs. reads ind v \<and> jok d v"
    and "length (join (map (jprint ind l) vs) ('','' @ newline ind l)) < f"
    and "list_all is_ws w"
  shows "parse_elems f d (join (map (jprint ind l) vs) ('','' @ newline ind l) @ w @ CHR '']'' # t)
         = Some (vs, t)"
  using assms(1-3)
proof (induction vs arbitrary: f)
  case (Cons v vs)
  then obtain f' where f: "f = Suc f'" by (cases f) auto
  show ?case
  proof (cases vs)
    case Nil
    then have "parse_value f' d (jprint ind l v @ w @ CHR '']'' # t) = Some (v, w @ CHR '']'' # t)"
      using Cons.prems f assms(4) by (intro readsD) (auto intro: stops_ws)
    then show ?thesis
      using Nil f assms(4) by (simp add: skip_ws_close)
  next
    case (Cons x xs)
    let ?rest = "join (map (jprint ind l) vs) ('','' @ newline ind l)"
    let ?tail = "w @ CHR '']'' # t"
    have j: "join (map (jprint ind l) (v # vs)) ('','' @ newline ind l)
        = jprint ind l v @ CHR '','' # newline ind l @ ?rest"
      using Cons by simp
    have "parse_value f' d (jprint ind l v @ CHR '','' # newline ind l @ ?rest @ ?tail)
        = Some (v, CHR '','' # newline ind l @ ?rest @ ?tail)"
      using Cons.prems f unfolding j by (intro readsD) auto
    moreover have "parse_elems f' d (?rest @ ?tail) = Some (vs, t)"
      using Cons.prems Cons f unfolding j by (intro Cons.IH) auto
    ultimately show ?thesis
      unfolding j f
      by (simp add: skip_ws_id parse_elems_ws newline_ws)
  qed
qed simp

definition member_text :: "bool \<Rightarrow> nat \<Rightarrow> bytes \<times> json \<Rightarrow> bytes" where
  "member_text ind l kv = quote_str (fst kv) @ colon ind @ jprint ind l (snd kv)"

lemma parse_member:
  assumes "reads ind v" and "jok d v" and "valid_utf8 k"
    and "length (member_text ind l (k, v)) \<le> f" and "stops (c # u)" and "\<not> is_ws c"
    and "list_all is_ws w"
  shows "parse_members (Suc f) d (member_text ind l (k, v) @ w @ c # u) =
     (if c = CHR '','' then map_option (\<lambda>(kvs, r). ((k, v) # kvs, r)) (parse_members f d u)
      else if c = CHR ''}'' then Some ([(k, v)], u) else None)"
proof -
  let ?v = "jprint ind l v" and ?t = "w @ c # u"
  have "parse_value f d (?v @ ?t) = Some (v, ?t)"
    using assms by (intro readsD) (auto simp: member_text_def intro: stops_ws)
  moreover have "skip_ws (colon ind @ ?v @ ?t) = CHR '':'' # (tl (colon ind)) @ ?v @ ?t"
    by (simp add: colon_def skip_ws_id)
  moreover have "list_all is_ws (tl (colon ind))"
    by (simp add: colon_def is_ws_def)
  ultimately show ?thesis
    using scan_quote [OF assms(3)] assms(6,7)
    by (simp add: member_text_def quote_str_def skip_ws_id skip_ws_close parse_value_ws
        unquote_enc_str assms(3))
qed

lemma parse_members_join:
  assumes "kvs \<noteq> []"
    and "\<forall>kv \<in> set kvs. reads ind (snd kv) \<and> jok d (snd kv) \<and> valid_utf8 (fst kv)"
    and "length (join (map (member_text ind l) kvs) ('','' @ newline ind l)) < f"
    and "list_all is_ws w"
  shows "parse_members f d
           (join (map (member_text ind l) kvs) ('','' @ newline ind l) @ w @ CHR ''}'' # t)
         = Some (kvs, t)"
  using assms(1-3)
proof (induction kvs arbitrary: f)
  case (Cons kv kvs)
  then obtain f' where f: "f = Suc f'" by (cases f) auto
  obtain k v where kv: "kv = (k, v)" by (cases kv)
  show ?case
  proof (cases kvs)
    case Nil
    then show ?thesis
      using Cons.prems parse_member [of ind v d k l f' "CHR ''}''" t w] assms(4)
      by (simp add: kv f)
  next
    case (Cons x xs)
    let ?rest = "join (map (member_text ind l) kvs) ('','' @ newline ind l)"
    let ?tail = "w @ CHR ''}'' # t"
    have j: "join (map (member_text ind l) (kv # kvs)) ('','' @ newline ind l)
        = member_text ind l kv @ CHR '','' # newline ind l @ ?rest"
      using Cons by simp
    have "parse_members f' d (?rest @ ?tail) = Some (kvs, t)"
      using Cons.prems Cons f unfolding j by (intro Cons.IH) auto
    then show ?thesis
      using Cons.prems parse_member [of ind v d k l f' "CHR '',''" "newline ind l @ ?rest @ ?tail" "[]"]
      unfolding j f by (simp add: kv parse_members_ws newline_ws)
  qed
qed simp

subsection \<open>Values read back\<close>

lemma member_texts:
  "map (\<lambda>kv. quote_str (fst kv) @ colon ind @ jprint ind l (snd kv)) kvs
   = map (member_text ind l) kvs"
  by (simp add: member_text_def)

lemma reads_scalar:
  assumes "\<And>f d l t. jok d v \<Longrightarrow> stops t \<Longrightarrow>
    parse_value (Suc f) d (jprint ind l v @ t) = Some (v, t)"
  shows "reads ind v"
  unfolding reads_def
proof (intro allI impI)
  fix f d l t
  assume v: "jok d v" and f: "length (jprint ind l v) \<le> f" and t: "stops t"
  from f jprint_length [OF v, of ind l] obtain f' where "f = Suc f'" by (cases f) auto
  with assms [OF v t] show "parse_value f d (jprint ind l v @ t) = Some (v, t)" by simp
qed

lemma reads_num: "reads ind (JNum n)"
proof (rule reads_scalar)
  fix f d l t
  assume "jok d (JNum n)" and t: "stops t"
  then obtain i where n: "n = itoa i" by auto
  obtain c s where c: "itoa i = c # s" "c = CHR ''-'' \<or> is_digit c" using itoa_hd by blast
  then have p: "\<not> is_ws c" "c \<notin> set ''{[ntf''" "c \<noteq> dquote"
    by (auto simp: is_digit_def in_range_def is_ws_def)
  then show "parse_value (Suc f) d (jprint ind l (JNum n) @ t) = Some (JNum n, t)"
    using scan_num_itoa [OF t, of i] c(1) by (simp add: n skip_ws_id has_prefix_def)
qed

lemma reads_str: "reads ind (JStr s)"
  by (rule reads_scalar) (simp add: quote_str_def skip_ws_id scan_quote unquote_enc_str)

lemma reads_bool: "reads ind (JBool b)" and reads_null: "reads ind JNull"
  by (rule reads_scalar; simp add: skip_ws_id is_ws_def has_prefix_def)+

lemma reads_arr:
  assumes "\<And>v. v \<in> set vs \<Longrightarrow> reads ind v"
  shows "reads ind (JArr vs)"
  unfolding reads_def
proof (intro allI impI)
  fix f d l t
  assume v: "jok d (JArr vs)" and f: "length (jprint ind l (JArr vs)) \<le> f" and "stops t"
  from f jprint_length [OF v, of ind l] obtain f' where f': "f = Suc f'" by (cases f) auto
  show "parse_value f d (jprint ind l (JArr vs) @ t) = Some (JArr vs, t)"
  proof (cases vs)
    case Nil
    then show ?thesis using v by (simp add: f' skip_ws_id)
  next
    case (Cons x xs)
    let ?body = "join (map (jprint ind (Suc l)) vs) ('','' @ newline ind (Suc l))"
    have "parse_elems f' (Suc d) (?body @ newline ind l @ CHR '']'' # t) = Some (vs, t)"
      using assms v f f' Cons by (intro parse_elems_join) (auto simp: list_all_iff newline_ws [unfolded list_all_iff])
    moreover obtain c u where "jprint ind (Suc l) x = c # u" "\<not> is_ws c" "c \<noteq> CHR '']''"
      using jprint_hd [of "Suc d" x ind "Suc l"] v Cons by auto
    moreover have "\<exists>z. ?body = jprint ind (Suc l) x @ z"
      using Cons by (cases xs) auto
    ultimately show ?thesis
      using v Cons by (auto simp: f' skip_ws_id skip_ws_append newline_ws parse_elems_ws)
  qed
qed

lemma reads_obj:
  assumes "\<And>kv. kv \<in> set kvs \<Longrightarrow> reads ind (snd kv)"
  shows "reads ind (JObj kvs)"
  unfolding reads_def
proof (intro allI impI)
  fix f d l t
  assume v: "jok d (JObj kvs)" and f: "length (jprint ind l (JObj kvs)) \<le> f" and "stops t"
  from f jprint_length [OF v, of ind l] obtain f' where f': "f = Suc f'" by (cases f) auto
  show "parse_value f d (jprint ind l (JObj kvs) @ t) = Some (JObj kvs, t)"
  proof (cases kvs)
    case Nil
    then show ?thesis using v by (simp add: f' skip_ws_id)
  next
    case (Cons x xs)
    let ?body = "join (map (member_text ind (Suc l)) kvs) ('','' @ newline ind (Suc l))"
    have "parse_members f' (Suc d) (?body @ newline ind l @ CHR ''}'' # t) = Some (kvs, t)"
      using assms v f f' Cons
      by (intro parse_members_join) (auto simp: list_all_iff newline_ws [unfolded list_all_iff] member_texts)
    moreover have "\<exists>z. ?body = dquote # z"
      using Cons by (cases xs) (auto simp: member_text_def quote_str_def)
    ultimately show ?thesis
      using v Cons
      by (auto simp: f' skip_ws_id skip_ws_append newline_ws parse_members_ws member_texts
          simp del: list.map join.simps)
  qed
qed

lemma reads_all: "reads ind v"
proof (induction v)
  case (JArr vs)
  then show ?case by (intro reads_arr) auto
next
  case (JObj kvs)
  then show ?case by (intro reads_obj) (auto simp: snds.simps)
qed (simp_all add: reads_null reads_bool reads_num reads_str)

theorem json_parse_print:
  assumes "jok 0 v" and "list_all is_ws w"
  shows "json_parse (jprint ind l v @ w) = Some v"
proof -
  have "stops w" using assms(2) stops_ws
    by (cases w) (auto simp: stops_def is_ws_def is_digit_def in_range_def)
  then have "parse_value (2 * length (jprint ind l v @ w) + 1) 0 (jprint ind l v @ w) = Some (v, w)"
    by (intro readsD [OF reads_all assms(1)]) auto
  moreover have "skip_ws w = []"
    using skip_ws_append [OF assms(2), of "[]"] by (simp add: skip_ws_def)
  ultimately show ?thesis by (simp add: json_parse_def)
qed

subsection \<open>The fuel is enough\<close>

lemma skip_ws_Cons: "skip_ws s = c # t \<Longrightarrow> length t < length s"
  using length_dropWhile_le [of is_ws s] by (simp add: skip_ws_def)

lemma scan_string_shorter: "scan_string s = Some (r, t) \<Longrightarrow> length t < length s"
proof (induction s arbitrary: r rule: scan_string.induct)
  case (2 c s)
  note d = "2.prems" [unfolded scan_string.simps(2)]
  show ?case
  proof (cases "c = dquote \<or> c \<noteq> bslash")
    case True
    then show ?thesis
      using d "2.IH"(3) by (auto split: if_split_asm)
  next
    case False
    then have s: "s \<noteq> []" using d by auto
    show ?thesis
    proof (cases "hd s = CHR ''u''")
      case True
      then obtain r' where "scan_string (drop 5 s) = Some (r', t)"
        using d False s by (auto split: if_split_asm)
      then have "length t < length (drop 5 s)"
        using "2.IH"(1) True False s d by (auto split: if_split_asm)
      then show ?thesis by simp
    next
      case u: False
      then obtain r' where "scan_string (tl s) = Some (r', t)"
        using d False s by (auto split: if_split_asm)
      then have "length t < length (tl s)"
        using "2.IH"(2) u False s d by (auto split: if_split_asm)
      then show ?thesis by simp
    qed
  qed
qed simp

lemma dropWhile_le: "length (dropWhile is_digit s) \<le> length s"
  by (rule length_dropWhile_le)

lemma scan_exp_shorter: "scan_exp acc s = Some (n, t) \<Longrightarrow> length t \<le> length s"
proof (cases s)
  case (Cons e u)
  assume "scan_exp acc s = Some (n, t)"
  with Cons have "t = s \<or> (\<exists>k. t = dropWhile is_digit (drop k u))"
    by (auto simp: scan_exp_def Let_def split: if_split_asm)
  moreover have "length (dropWhile is_digit (drop k u)) \<le> length u" for k
    using dropWhile_le [of "drop k u"] by simp
  ultimately show ?thesis using Cons by (auto intro: le_SucI)
qed (simp add: scan_exp_def)

lemma scan_frac_shorter: "scan_frac acc s = Some (n, t) \<Longrightarrow> length t \<le> length s"
proof (cases s)
  case (Cons c u)
  assume "scan_frac acc s = Some (n, t)"
  with Cons have "length t \<le> length s \<or> length t \<le> length (dropWhile is_digit u)"
    by (auto simp: scan_frac_def dest: scan_exp_shorter split: if_split_asm)
  then show ?thesis using Cons dropWhile_le [of u] by auto
qed (simp add: scan_frac_def)

lemma scan_uint_shorter: "scan_uint acc s = Some (n, t) \<Longrightarrow> length t < length s"
proof (cases s)
  case (Cons c u)
  assume "scan_uint acc s = Some (n, t)"
  with Cons have "length t \<le> length u \<or> length t \<le> length (dropWhile is_digit s) \<and> is_digit c"
    by (auto simp: scan_uint_def dest: scan_frac_shorter split: if_split_asm)
  then show ?thesis using Cons dropWhile_le [of u] by auto
qed (simp add: scan_uint_def)

lemma scan_num_shorter: "scan_num s = Some (n, t) \<Longrightarrow> length t < length s"
  by (cases s) (auto simp: scan_num_def dest: scan_uint_shorter split: if_split_asm)

lemma parse_shorter:
  "parse_value f d s = Some (v, t) \<Longrightarrow> length t < length s"
  "parse_elems f d s = Some (vs, t) \<Longrightarrow> length t < length s"
  "parse_members f d s = Some (kvs, t) \<Longrightarrow> length t < length s"
proof (induction f d s and f d s and f d s arbitrary: v t and vs t and kvs t
    rule: parse_value_parse_elems_parse_members.induct)
  case (2 f d s)
  from "2.prems" obtain c u where c: "skip_ws s = c # u"
    by (auto split: list.splits)
  have u: "length u < length s" by (rule skip_ws_Cons [OF c])
  have k: "length (drop n (c # u)) < length s" if "0 < n" for n
    using u that by (cases n) auto
  show ?case
  proof (cases "c = CHR ''{'' \<or> c = CHR ''[''")
    case True
    then obtain x w where x: "skip_ws u = x # w"
      using "2.prems" c by (auto split: if_split_asm list.splits)
    then show ?thesis
      using True "2.prems" c u skip_ws_Cons [OF x] "2.IH"(1) [OF c _ _ x] "2.IH"(2) [OF c _ _ _ x]
      by (auto split: if_split_asm)
  next
    case False
    then show ?thesis
      using "2.prems" c u k [of 4] k [of 5] scan_num_shorter [of "c # u"] scan_string_shorter [of u]
        length_dropWhile_le [of is_ws s]
      by (auto simp: skip_ws_def split: if_split_asm)
  qed
next
  case (4 f d s)
  from "4.prems" obtain v r c u where v: "parse_value f d s = Some (v, r)" and c: "skip_ws r = c # u"
    by (auto split: list.splits option.splits)
  then show ?case
    using "4.prems" "4.IH"(1) [OF v] "4.IH"(2) [OF v refl c] skip_ws_Cons [OF c]
    by (fastforce split: if_split_asm)
next
  case (6 f d s)
  from "6.prems" obtain s1 raw s2 where s1: "skip_ws s = dquote # s1"
      and s2: "scan_string s1 = Some (raw, s2)"
    by (auto split: list.splits option.splits if_split_asm)
  with "6.prems" obtain s3 v r c u where s3: "skip_ws s2 = CHR '':'' # s3"
      and v: "parse_value f d s3 = Some (v, r)" and c: "skip_ws r = c # u"
    by (auto split: list.splits option.splits if_split_asm)
  note less = skip_ws_Cons [OF s1] scan_string_shorter [OF s2] skip_ws_Cons [OF s3] skip_ws_Cons [OF c]
  have "length r < length s3"
    using "6.IH"(1) [OF s1 _ s2 refl s3 _ v] by simp
  moreover have "length t < length u" if "c = CHR '',''" "parse_members f d u = Some (k, t)" for k
    using "6.IH"(2) [OF s1 _ s2 refl s3 _ v refl c that] by simp
  ultimately show ?case
    using "6.prems" s1 s2 s3 v c less by (fastforce split: if_split_asm)
qed simp_all

text \<open>Twice the length of the text bounds the calls: the result no longer depends on the fuel.\<close>

lemma parse_fuel:
  "2 * length s + 1 \<le> f \<Longrightarrow> f \<le> g \<Longrightarrow> parse_value g d s = parse_value f d s"
  "2 * length s + 2 \<le> f \<Longrightarrow> f \<le> g \<Longrightarrow> parse_elems g d s = parse_elems f d s"
  "2 * length s + 2 \<le> f \<Longrightarrow> f \<le> g \<Longrightarrow> parse_members g d s = parse_members f d s"
proof (induction f arbitrary: d s g)
  case (Suc f)
  {
    case 1
    then obtain g' where g: "g = Suc g'" "f \<le> g'" by (cases g) auto
    have "parse_elems g' (Suc d) u = parse_elems f (Suc d) u"
      "parse_members g' (Suc d) u = parse_members f (Suc d) u" if "skip_ws s = c # u" for c u
      using Suc.IH(2,3) [of u g' "Suc d"] skip_ws_Cons [OF that] 1 g by simp_all
    then show ?case unfolding g by (simp cong: list.case_cong if_cong option.case_cong)
  next
    case 2
    then obtain g' where g: "g = Suc g'" "f \<le> g'" by (cases g) auto
    have v: "parse_value g' d s = parse_value f d s"
      using Suc.IH(1) [of s g' d] 2 g by simp
    have "parse_elems g' d u = parse_elems f d u"
      if "parse_value f d s = Some (w, r)" "skip_ws r = c # u" for w r c u
      using Suc.IH(2) [of u g' d] parse_shorter(1) [OF that(1)] skip_ws_Cons [OF that(2)] 2 g by simp
    then show ?case unfolding g by (simp add: v split: option.split list.split prod.split)
  next
    case 3
    then obtain g' where g: "g = Suc g'" "f \<le> g'" by (cases g) auto
    have v: "parse_value g' d s3 = parse_value f d s3"
      if "skip_ws s = q # s1" "scan_string s1 = Some (raw, s2)" "skip_ws s2 = x # s3"
      for q s1 raw s2 x s3
      using Suc.IH(1) [of s3 g' d] skip_ws_Cons [OF that(1)] scan_string_shorter [OF that(2)]
        skip_ws_Cons [OF that(3)] 3 g by simp
    have "parse_members g' d u = parse_members f d u"
      if "skip_ws s = q # s1" "scan_string s1 = Some (raw, s2)" "skip_ws s2 = x # s3"
        "parse_value f d s3 = Some (w, r)" "skip_ws r = c # u"
      for q s1 raw s2 x s3 w r c u
      using Suc.IH(3) [of u g' d] skip_ws_Cons [OF that(1)] scan_string_shorter [OF that(2)]
        skip_ws_Cons [OF that(3)] parse_shorter(1) [OF that(4)] skip_ws_Cons [OF that(5)] 3 g
      by simp
    with v show ?case unfolding g by (simp split: option.split list.split prod.split)
  }
qed simp_all

end
