(* ===== verification/Gostruct.thy ===== *)
theory Gostruct
  imports Json_Roundtrip
begin

text \<open>
  How \<^verbatim>\<open>json.Unmarshal\<close> fills a Go struct and \<^verbatim>\<open>json.Marshal\<close> prints one: which field a key
  names, what a value of the wrong type or \<^verbatim>\<open>null\<close> does, integers at 64 bits, and \<^verbatim>\<open>omitempty\<close>.
\<close>

subsection \<open>Keys\<close>

text \<open>
  A key names the field of exactly its name, else the first field it equals up to case. The letters
  outside ASCII that fold to an ASCII letter are the long s and the Kelvin sign.
\<close>

fun fold_piece :: "piece \<Rightarrow> bytes" where
  "fold_piece (Rune r b) =
     (if 97 \<le> r \<and> r \<le> 122 then [char_of (r - 32)]
      else if r = 383 then ''S'' else if r = 8490 then ''K'' else b)"
| "fold_piece (Bad c) = [c]"

definition fold_name :: "bytes \<Rightarrow> bytes" where
  "fold_name s = concat (map fold_piece (pieces s))"

definition find_field :: "bytes list \<Rightarrow> bytes \<Rightarrow> bytes option" where
  "find_field names k = (if k \<in> set names then Some k else find (\<lambda>n. fold_name n = fold_name k) names)"

subsection \<open>Values\<close>

definition json_error :: go_error where
  "json_error = OsErr ''json: cannot unmarshal''"

text \<open>
  An object fills the fields of \<open>r\<close> one member after the other. A member no field is named by is
  skipped, and a value of the wrong type (\<open>set_field\<close> returns \<open>None\<close>) makes the whole an error. What
  \<^verbatim>\<open>null\<close> does depends on the type of the field: it empties a map and leaves a string, a boolean or a
  number alone.
\<close>

definition fill_member ::
    "bytes list \<Rightarrow> (bytes \<Rightarrow> json \<Rightarrow> 'r \<Rightarrow> 'r option) \<Rightarrow> bytes \<times> json \<Rightarrow> 'r \<Rightarrow> 'r option" where
  "fill_member names set_field kv r =
     (case find_field names (fst kv) of
        None \<Rightarrow> Some r
      | Some n \<Rightarrow> set_field n (snd kv) r)"

fun fill :: "bytes list \<Rightarrow> (bytes \<Rightarrow> json \<Rightarrow> 'r \<Rightarrow> 'r option) \<Rightarrow> (bytes \<times> json) list \<Rightarrow> 'r \<Rightarrow> 'r option" where
  "fill names set_field [] r = Some r"
| "fill names set_field (kv # kvs) r =
     (case fill_member names set_field kv r of None \<Rightarrow> None | Some r' \<Rightarrow> fill names set_field kvs r')"

definition unmarshal_struct ::
    "bytes list \<Rightarrow> (bytes \<Rightarrow> json \<Rightarrow> 'r \<Rightarrow> 'r option) \<Rightarrow> json \<Rightarrow> 'r \<Rightarrow> 'r option" where
  "unmarshal_struct names set_field v r =
     (case v of JNull \<Rightarrow> Some r | JObj kvs \<Rightarrow> fill names set_field kvs r | _ \<Rightarrow> None)"

fun as_string :: "json \<Rightarrow> bytes option" where
  "as_string (JStr s) = Some s"
| "as_string _ = None"

fun as_bool :: "json \<Rightarrow> bool option" where
  "as_bool (JBool b) = Some b"
| "as_bool _ = None"

fun digits_value :: "nat \<Rightarrow> bytes \<Rightarrow> nat" where
  "digits_value n [] = n"
| "digits_value n (c # s) = digits_value (10 * n + (code c - 48)) s"

text \<open>\<^verbatim>\<open>strconv.ParseInt(s, 10, 64)\<close> on the text of a JSON number.\<close>

definition parse_int64 :: "bytes \<Rightarrow> int option" where
  "parse_int64 s =
     (let neg = has_prefix s ''-''; ds = (if neg then tl s else s);
          v = (if neg then - int (digits_value 0 ds) else int (digits_value 0 ds))
      in if ds = [] \<or> \<not> list_all is_digit ds then None
         else if - (2 ^ 63) \<le> v \<and> v < 2 ^ 63 then Some v else None)"

fun as_int :: "json \<Rightarrow> int option" where
  "as_int (JNum s) = parse_int64 s"
| "as_int _ = None"

subsection \<open>Printing\<close>

text \<open>A field with \<^verbatim>\<open>omitempty\<close> is left out when it is the zero value of its type.\<close>

definition omit :: "bool \<Rightarrow> bytes \<times> json \<Rightarrow> (bytes \<times> json) list" where
  "omit left_out kv = (if left_out then [] else [kv])"

definition opt_str :: "bytes \<Rightarrow> bytes \<Rightarrow> (bytes \<times> json) list" where
  "opt_str name s = omit (s = []) (name, JStr s)"

definition opt_bool :: "bytes \<Rightarrow> bool \<Rightarrow> (bytes \<times> json) list" where
  "opt_bool name b = omit (\<not> b) (name, JBool b)"

definition opt_int :: "bytes \<Rightarrow> int \<Rightarrow> (bytes \<times> json) list" where
  "opt_int name i = omit (i = 0) (name, JNum (itoa i))"

subsection \<open>Lemmas\<close>

lemma find_field_exact: "k \<in> set names \<Longrightarrow> find_field names k = Some k"
  by (simp add: find_field_def)

lemma fill_append:
  "fill names f (xs @ ys) r = (case fill names f xs r of None \<Rightarrow> None | Some r' \<Rightarrow> fill names f ys r')"
  by (induction xs arbitrary: r) (auto split: option.splits)

lemma fill_omit:
  "k \<in> set names \<Longrightarrow> fill names f (omit e (k, v)) r = (if e then Some r else f k v r)"
  by (auto simp: omit_def fill_member_def find_field_exact split: option.splits)

lemma digits_value_append: "digits_value n (s @ [c]) = 10 * digits_value n s + (code c - 48)"
  by (induction s arbitrary: n) auto

lemma digits_value_utoa: "digits_value 0 (utoa n) = n"
proof (induction n rule: less_induct)
  case (less n)
  show ?case
  proof (cases "n < 10")
    case True
    then show ?thesis by (subst utoa.simps) (simp add: code_digit)
  next
    case False
    then have "digits_value 0 (utoa (n div 10)) = n div 10" using less.IH by simp
    with False show ?thesis by (subst utoa.simps) (simp add: digits_value_append code_digit)
  qed
qed

lemma digit_not_minus: "is_digit c \<Longrightarrow> c \<noteq> CHR ''-''"
  by (auto simp: is_digit_def in_range_def)

lemma parse_int64_itoa:
  assumes "- (2 ^ 63) \<le> i" and "i < 2 ^ 63"
  shows "parse_int64 (itoa i) = Some i"
proof (cases "i < 0")
  case True
  then show ?thesis
    using assms utoa_digits [of "nat (- i)"] digits_value_utoa [of "nat (- i)"]
    by (simp add: parse_int64_def itoa_def has_prefix_def Let_def)
next
  case False
  obtain c s where "utoa (nat i) = c # s" by (cases "utoa (nat i)") auto
  moreover from this have "c \<noteq> CHR ''-''"
    using utoa_digits [of "nat i"] digit_not_minus by auto
  ultimately show ?thesis
    using False assms utoa_digits [of "nat i"] digits_value_utoa [of "nat i"]
    by (simp add: parse_int64_def itoa_def has_prefix_def Let_def)
qed

end
