(* ===== verification/World.thy ===== *)
theory World
  imports Utf8
begin

text \<open>
  The operating system as package \<^verbatim>\<open>os\<close> shows it to the source: files with their contents and
  modes, directories, and what the process prints. Every call takes the next entry of \<open>faults\<close>,
  which says whether the call fails, and for a write after how many bytes (no entry: it succeeds); a
  theorem that does not constrain \<open>faults\<close> holds for every pattern of failures. What is printed is a
  log of formats and arguments.

  An operation is a function from the world to a result and the new world (\<open>'a io\<close>); \<open>io_bind\<close> is
  the \<^verbatim>\<open>if err != nil { return err }\<close> of Go, and \<open>wrap_err\<close> its \<^verbatim>\<open>fmt.Errorf("...: %w", err)\<close>.
\<close>

datatype fault = NoFault | Fault string | Partial nat string

record world =
  files :: "string \<Rightarrow> (bytes \<times> nat) option"
  dirs :: "string \<Rightarrow> nat option"
  faults :: "fault list"
  stdout :: "(string \<times> string list) list"
  stderr :: "(string \<times> string list \<times> go_error option) list"
  stdin :: "bytes result"

record env =
  userConfigDir :: "string result"
  hostname :: "string result"
  executable :: "string result"
  terminal :: bool

type_synonym 'a io = "world \<Rightarrow> 'a result \<times> world"

definition io_return :: "'a \<Rightarrow> 'a io" where
  "io_return x w = (Inr x, w)"

definition io_fail :: "go_error \<Rightarrow> 'a io" where
  "io_fail e w = (Inl e, w)"

definition io_lift :: "'a result \<Rightarrow> 'a io" where
  "io_lift r w = (r, w)"

definition io_bind :: "'a io \<Rightarrow> ('a \<Rightarrow> 'b io) \<Rightarrow> 'b io" where
  "io_bind m f w = (case m w of (Inl e, w') \<Rightarrow> (Inl e, w') | (Inr x, w') \<Rightarrow> f x w')"

definition wrap_err :: "string \<Rightarrow> string list \<Rightarrow> 'a io \<Rightarrow> 'a io" where
  "wrap_err fmt args m w =
     (case m w of (Inl e, w') \<Rightarrow> (Inl (Errorf fmt args (Some e)), w') | (Inr x, w') \<Rightarrow> (Inr x, w'))"

subsection \<open>Calls\<close>

definition take_fault :: "world \<Rightarrow> fault \<times> world" where
  "take_fault w = (case faults w of [] \<Rightarrow> (NoFault, w) | f # fs \<Rightarrow> (f, w\<lparr>faults := fs\<rparr>))"

definition ReadFile :: "string \<Rightarrow> bytes io" where
  "ReadFile p w =
     (case take_fault w of
        (NoFault, w') \<Rightarrow>
          (case files w' p of None \<Rightarrow> (Inl ErrNotExist, w') | Some (b, m) \<Rightarrow> (Inr b, w'))
      | (Fault s, w') \<Rightarrow> (Inl (OsErr s), w')
      | (Partial n s, w') \<Rightarrow> (Inl (OsErr s), w'))"

definition file_mode :: "world \<Rightarrow> string \<Rightarrow> nat \<Rightarrow> nat" where
  "file_mode w p mode = (case files w p of None \<Rightarrow> mode | Some (b, m) \<Rightarrow> m)"

definition put_file :: "string \<Rightarrow> bytes \<Rightarrow> nat \<Rightarrow> world \<Rightarrow> world" where
  "put_file p b mode w = w\<lparr>files := (files w)(p \<mapsto> (b, file_mode w p mode))\<rparr>"

text \<open>\<^verbatim>\<open>os.WriteFile\<close> truncates first; a failure may leave any prefix behind.\<close>

definition WriteFile :: "string \<Rightarrow> bytes \<Rightarrow> nat \<Rightarrow> unit io" where
  "WriteFile p b mode w =
     (case take_fault w of
        (NoFault, w') \<Rightarrow> (Inr (), put_file p b mode w')
      | (Fault s, w') \<Rightarrow> (Inl (OsErr s), w')
      | (Partial n s, w') \<Rightarrow> (Inl (OsErr s), put_file p (take n b) mode w'))"

definition Rename :: "string \<Rightarrow> string \<Rightarrow> unit io" where
  "Rename a b w =
     (case take_fault w of
        (NoFault, w') \<Rightarrow>
          (case files w' a of
             None \<Rightarrow> (Inl ErrNotExist, w')
           | Some f \<Rightarrow> (Inr (), w'\<lparr>files := (files w')(a := None, b := Some f)\<rparr>))
      | (Fault s, w') \<Rightarrow> (Inl (OsErr s), w')
      | (Partial n s, w') \<Rightarrow> (Inl (OsErr s), w'))"

definition Remove :: "string \<Rightarrow> unit io" where
  "Remove p w =
     (case take_fault w of
        (NoFault, w') \<Rightarrow> (Inr (), w'\<lparr>files := (files w')(p := None)\<rparr>)
      | (Fault s, w') \<Rightarrow> (Inl (OsErr s), w')
      | (Partial n s, w') \<Rightarrow> (Inl (OsErr s), w'))"

definition Stat :: "string \<Rightarrow> unit io" where
  "Stat p w =
     (case take_fault w of
        (NoFault, w') \<Rightarrow> ((if files w' p = None then Inl ErrNotExist else Inr ()), w')
      | (Fault s, w') \<Rightarrow> (Inl (OsErr s), w')
      | (Partial n s, w') \<Rightarrow> (Inl (OsErr s), w'))"

definition MkdirAll :: "string \<Rightarrow> nat \<Rightarrow> unit io" where
  "MkdirAll d mode w =
     (case take_fault w of
        (NoFault, w') \<Rightarrow>
          (Inr (), if dirs w' d = None then w'\<lparr>dirs := (dirs w')(d \<mapsto> mode)\<rparr> else w')
      | (Fault s, w') \<Rightarrow> (Inl (OsErr s), w')
      | (Partial n s, w') \<Rightarrow> (Inl (OsErr s), w'))"

text \<open>\<^verbatim>\<open>OpenFile\<close> with \<^verbatim>\<open>O_APPEND|O_CREATE|O_WRONLY\<close>, and a write to such a file.\<close>

definition OpenAppend :: "string \<Rightarrow> nat \<Rightarrow> unit io" where
  "OpenAppend p mode w =
     (case take_fault w of
        (NoFault, w') \<Rightarrow> (Inr (), if files w' p = None then put_file p [] mode w' else w')
      | (Fault s, w') \<Rightarrow> (Inl (OsErr s), w')
      | (Partial n s, w') \<Rightarrow> (Inl (OsErr s), w'))"

definition append_file :: "string \<Rightarrow> bytes \<Rightarrow> world \<Rightarrow> world" where
  "append_file p b w = put_file p ((case files w p of None \<Rightarrow> [] | Some (a, m) \<Rightarrow> a) @ b) 0 w"

definition WriteAppend :: "string \<Rightarrow> bytes \<Rightarrow> unit io" where
  "WriteAppend p b w =
     (case take_fault w of
        (NoFault, w') \<Rightarrow> (Inr (), append_file p b w')
      | (Fault s, w') \<Rightarrow> (Inl (OsErr s), w')
      | (Partial n s, w') \<Rightarrow> (Inl (OsErr s), append_file p (take n b) w'))"

definition Stdout :: "string \<Rightarrow> string list \<Rightarrow> unit io" where
  "Stdout fmt args w = (Inr (), w\<lparr>stdout := stdout w @ [(fmt, args)]\<rparr>)"

definition Stderr :: "string \<Rightarrow> string list \<Rightarrow> unit io" where
  "Stderr fmt args w = (Inr (), w\<lparr>stderr := stderr w @ [(fmt, args, None)]\<rparr>)"

text \<open>A message on standard error that ends with the text of an error (\<^verbatim>\<open>%v\<close>).\<close>

definition StderrErr :: "string \<Rightarrow> string list \<Rightarrow> go_error \<Rightarrow> unit io" where
  "StderrErr fmt args err w = (Inr (), w\<lparr>stderr := stderr w @ [(fmt, args, Some err)]\<rparr>)"

definition ReadStdin :: "bytes io" where
  "ReadStdin w = (stdin w, w)"

text \<open>
  A command of the program: an operation that may also not return (\<open>None\<close>). \<open>call\<close> makes one of a
  call that always returns, \<open>pure\<close> of a result.
\<close>

type_synonym 'a prog = "world \<Rightarrow> ('a result \<times> world) option"

definition call :: "'a io \<Rightarrow> 'a prog" where
  "call m w = Some (m w)"

definition pure :: "'a result \<Rightarrow> 'a prog" where
  "pure r w = Some (r, w)"

definition prog_bind :: "'a prog \<Rightarrow> ('a \<Rightarrow> 'b prog) \<Rightarrow> 'b prog" where
  "prog_bind m f w =
     (case m w of
        None \<Rightarrow> None
      | Some (Inl e, w') \<Rightarrow> Some (Inl e, w')
      | Some (Inr x, w') \<Rightarrow> f x w')"

text \<open>The modes \<^verbatim>\<open>0o700\<close>, \<^verbatim>\<open>0o600\<close> and \<^verbatim>\<open>0o644\<close>.\<close>

definition mode_700 :: nat where "mode_700 = 7 * 64"
definition mode_600 :: nat where "mode_600 = 6 * 64"
definition mode_644 :: nat where "mode_644 = 6 * 64 + 4 * 8 + 4"

text \<open>The directory of a path, made unless it is empty or the current one.\<close>

definition make_parent :: "string \<Rightarrow> string \<Rightarrow> unit io" where
  "make_parent fmt p =
     (let dir = path_dir p in
      if dir \<noteq> '''' \<and> dir \<noteq> ''.'' then wrap_err fmt [dir] (MkdirAll dir mode_700) else io_return ())"

subsection \<open>Lemmas\<close>

lemma io_simps [simp]:
  "io_return x w = (Inr x, w)"
  "io_fail e w = (Inl e, w)"
  "io_lift r w = (r, w)"
  by (simp_all add: io_return_def io_fail_def io_lift_def)

lemma prog_simps [simp]:
  "pure r w = Some (r, w)"
  "prog_bind (pure (Inr x)) f w = f x w"
  "prog_bind (pure (Inl e)) f w = Some (Inl e, w)"
  by (simp_all add: pure_def prog_bind_def)

lemma prog_bind_Inr:
  "prog_bind m f w = Some (Inr y, w'') \<longleftrightarrow> (\<exists>x w'. m w = Some (Inr x, w') \<and> f x w' = Some (Inr y, w''))"
  by (auto simp: prog_bind_def split: option.splits sum.splits)

lemma prog_bind_call_Inr:
  "prog_bind (call m) f w = Some (Inr y, w'') \<longleftrightarrow> (\<exists>x w'. m w = (Inr x, w') \<and> f x w' = Some (Inr y, w''))"
  by (simp add: prog_bind_Inr call_def)

lemma prog_bind_pure_Inr:
  "prog_bind (pure r) f w = Some (Inr y, w'') \<longleftrightarrow> (\<exists>x. r = Inr x \<and> f x w = Some (Inr y, w''))"
  by (auto simp: prog_bind_Inr)

lemma prog_bind_Some: "m w = Some (Inr x, w') \<Longrightarrow> prog_bind m f w = f x w'"
  by (simp add: prog_bind_def)

lemmas prog_Inr = prog_bind_call_Inr prog_bind_pure_Inr

lemma io_bind_ok: "m w = (Inr x, w') \<Longrightarrow> io_bind m f w = f x w'"
  by (simp add: io_bind_def)

lemma io_bind_err: "m w = (Inl e, w') \<Longrightarrow> io_bind m f w = (Inl e, w')"
  by (simp add: io_bind_def)

lemma wrap_err_ok: "m w = (Inr x, w') \<Longrightarrow> wrap_err fmt args m w = (Inr x, w')"
  by (simp add: wrap_err_def)

lemma io_bind_Inr:
  "io_bind m f w = (Inr y, w'') \<longleftrightarrow> (\<exists>x w'. m w = (Inr x, w') \<and> f x w' = (Inr y, w''))"
  by (auto simp: io_bind_def split: prod.splits sum.splits)

lemma wrap_err_Inr: "wrap_err fmt args m w = (Inr x, w') \<longleftrightarrow> m w = (Inr x, w')"
  by (auto simp: wrap_err_def split: prod.splits sum.splits)

lemma put_file_simps [simp]:
  "files (put_file p b m w) = (files w)(p \<mapsto> (b, file_mode w p m))"
  "faults (put_file p b m w) = faults w" "dirs (put_file p b m w) = dirs w"
  "stdout (put_file p b m w) = stdout w" "stderr (put_file p b m w) = stderr w"
  by (simp_all add: put_file_def)

lemmas call_defs = ReadFile_def WriteFile_def Rename_def Remove_def Stat_def MkdirAll_def OpenAppend_def
  WriteAppend_def take_fault_def

text \<open>What a call can do to the files, whatever fails.\<close>

lemma MkdirAll_files: "MkdirAll d m w = (r, w') \<Longrightarrow> files w' = files w"
  by (auto simp: MkdirAll_def take_fault_def split: list.splits fault.splits if_splits)

lemma ReadFile_files: "ReadFile p w = (r, w') \<Longrightarrow> files w' = files w \<and> dirs w' = dirs w"
  by (auto simp: ReadFile_def take_fault_def split: list.splits fault.splits option.splits if_splits)

lemma Stat_files: "Stat p w = (r, w') \<Longrightarrow> files w' = files w \<and> dirs w' = dirs w"
  by (auto simp: Stat_def take_fault_def split: list.splits fault.splits if_splits)

lemma ReadFile_Inr: "ReadFile p w = (Inr b, w') \<Longrightarrow> \<exists>m. files w p = Some (b, m)"
  by (auto simp: ReadFile_def take_fault_def split: list.splits fault.splits option.splits)

lemma WriteFile_others: "WriteFile p b m w = (r, w') \<Longrightarrow> q \<noteq> p \<Longrightarrow> files w' q = files w q"
  by (auto simp: WriteFile_def take_fault_def split: list.splits fault.splits)

lemma WriteFile_Inr:
  "WriteFile p b m w = (Inr (), w') \<Longrightarrow> files w' = (files w)(p \<mapsto> (b, file_mode w p m))"
  by (auto simp: WriteFile_def take_fault_def file_mode_def split: list.splits fault.splits)

lemma make_parent_files: "make_parent fmt p w = (r, w') \<Longrightarrow> files w' = files w"
  by (auto simp: make_parent_def wrap_err_def Let_def split: if_splits prod.splits sum.splits dest: MkdirAll_files)

subsection \<open>Invariants of the world\<close>

text \<open>
  An operation keeps a property of the world, whatever fails. The rules follow how operations are put
  together, so that \<open>(rule io_keeps)+\<close> reduces an operation to its calls.
\<close>

named_theorems io_keeps \<open>rules for keeps\<close>

definition keeps :: "(world \<Rightarrow> bool) \<Rightarrow> 'a io \<Rightarrow> bool" where
  "keeps P m \<longleftrightarrow> (\<forall>w r w'. P w \<longrightarrow> m w = (r, w') \<longrightarrow> P w')"

lemma keepsD: "keeps P m \<Longrightarrow> P w \<Longrightarrow> m w = (r, w') \<Longrightarrow> P w'"
  by (auto simp: keeps_def)

lemma keepsI: "(\<And>w r w'. P w \<Longrightarrow> m w = (r, w') \<Longrightarrow> P w') \<Longrightarrow> keeps P m"
  by (auto simp: keeps_def)

lemma keeps_bind [io_keeps]:
  assumes "keeps P m" and "\<And>x. keeps P (f x)"
  shows "keeps P (io_bind m f)"
proof (rule keepsI)
  fix w r w' assume P: "P w" and b: "io_bind m f w = (r, w')"
  obtain r1 w1 where m: "m w = (r1, w1)" by (metis surj_pair)
  then have P1: "P w1" by (rule keepsD [OF assms(1) P])
  show "P w'"
  proof (cases r1)
    case (Inl e)
    with m b P1 show ?thesis by (simp add: io_bind_def)
  next
    case (Inr x)
    with m b have "f x w1 = (r, w')" by (simp add: io_bind_def)
    then show ?thesis by (rule keepsD [OF assms(2) P1])
  qed
qed

lemma keeps_wrap [io_keeps]:
  assumes "keeps P m"
  shows "keeps P (wrap_err fmt args m)"
proof (rule keepsI)
  fix w r w' assume P: "P w" and b: "wrap_err fmt args m w = (r, w')"
  obtain r1 w1 where m: "m w = (r1, w1)" by (metis surj_pair)
  with b have "w' = w1" by (cases r1) (simp_all add: wrap_err_def)
  with keepsD [OF assms P m] show "P w'" by simp
qed

lemma keeps_pure [io_keeps]: "keeps P (io_lift r)" "keeps P (io_return x)" "keeps P (io_fail e)"
  by (simp_all add: keeps_def io_lift_def io_return_def io_fail_def)

lemma keeps_if [io_keeps]: "(b \<Longrightarrow> keeps P m) \<Longrightarrow> (\<not> b \<Longrightarrow> keeps P n) \<Longrightarrow> keeps P (if b then m else n)"
  by simp

text \<open>A property of the files alone, and a write that makes a file it may hold of.\<close>

lemma keeps_files [io_keeps]:
  "keeps (\<lambda>w. Q (files w)) (ReadFile p)" "keeps (\<lambda>w. Q (files w)) (Stat p)"
  "keeps (\<lambda>w. Q (files w)) (MkdirAll p m)" "keeps (\<lambda>w. Q (files w)) (make_parent fmt p)"
  "keeps (\<lambda>w. Q (files w)) (Stdout fmt args)" "keeps (\<lambda>w. Q (files w)) (Stderr fmt args)"
  "keeps (\<lambda>w. Q (files w)) (StderrErr fmt args err)"
  by (auto intro!: keepsI dest: ReadFile_files Stat_files MkdirAll_files make_parent_files
      simp: Stdout_def Stderr_def StderrErr_def)

lemma keeps_WriteFile:
  assumes "\<And>fs c m. Q fs \<Longrightarrow> m = (case fs p of None \<Rightarrow> mode | Some (b, m) \<Rightarrow> m) \<Longrightarrow> Q (fs(p \<mapsto> (c, m)))"
  shows "keeps (\<lambda>w. Q (files w)) (WriteFile p b mode)"
  using assms
  by (intro keepsI) (auto simp: WriteFile_def take_fault_def file_mode_def split: list.splits fault.splits)

text \<open>No call on files prints.\<close>

named_theorems io_silent \<open>calls that leave standard output alone\<close>

lemma silent_calls [io_silent]:
  "keeps (\<lambda>w. stdout w = out) (ReadFile p)" "keeps (\<lambda>w. stdout w = out) (Stat p)"
  "keeps (\<lambda>w. stdout w = out) (MkdirAll p m)" "keeps (\<lambda>w. stdout w = out) (WriteFile p b m)"
  "keeps (\<lambda>w. stdout w = out) (Stderr fmt args)" "keeps (\<lambda>w. stdout w = out) (StderrErr fmt args err)"
  by (auto intro!: keepsI simp: call_defs Stderr_def StderrErr_def put_file_def
      split: list.splits fault.splits option.splits if_splits)

lemma silent_make_parent [io_silent]: "keeps (\<lambda>w. stdout w = out) (make_parent fmt p)"
  unfolding make_parent_def Let_def by (rule io_keeps io_silent)+

text \<open>Without faults every call does what it is for.\<close>

lemma quiet_make_parent:
  "faults w = [] \<Longrightarrow> \<exists>w'. make_parent fmt p w = (Inr (), w') \<and> faults w' = [] \<and> files w' = files w"
  by (auto simp: make_parent_def wrap_err_def MkdirAll_def take_fault_def Let_def)

lemma quiet_MkdirAll:
  "faults w = [] \<Longrightarrow> \<exists>w'. MkdirAll d m w = (Inr (), w') \<and> faults w' = [] \<and> files w' = files w"
  by (auto simp: MkdirAll_def take_fault_def)

lemma quiet_WriteFile: "faults w = [] \<Longrightarrow> WriteFile p b m w = (Inr (), put_file p b m w)"
  by (simp add: WriteFile_def take_fault_def)

lemma quiet_ReadFile:
  "faults w = [] \<Longrightarrow> ReadFile p w = (case files w p of None \<Rightarrow> (Inl ErrNotExist, w) | Some (b, m) \<Rightarrow> (Inr b, w))"
  by (simp add: ReadFile_def take_fault_def)

end
