(* ===== verification/Config.thy ===== *)
theory Config
  imports Gostruct World
begin

text \<open>
  \<^verbatim>\<open>internal/client/config.go\<close>: the client's configuration file, with \<^verbatim>\<open>Transport\<close>,
  \<^verbatim>\<open>ParseTransport\<close> and \<^verbatim>\<open>Target\<close> of \<^verbatim>\<open>client.go\<close>. The map of agents is an association list
  (\<open>None\<close>: the nil map of a zero \<^verbatim>\<open>Config\<close>).
\<close>

subsection \<open>Data\<close>

datatype transport_name = TransportConnect | TransportWS

record agent =
  agURL :: bytes
  agToken :: bytes
  agUser :: bytes
  agInsecure :: bool
  agTLSFingerprint :: bytes
  agPort :: int
  agTransport :: bytes

record config =
  agents :: "(bytes \<times> agent) list option"

text \<open>\<open>Known\<close> and \<open>OnTrust\<close> of a target are set by the command, in \<open>Cli\<close>.\<close>

record target =
  tgName :: bytes
  tgURL :: bytes
  tgToken :: bytes
  tgUser :: bytes
  tgInsecure :: bool
  tgTransport :: transport_name
  tgPort :: int
  tgTLSFingerprint :: bytes

definition ParseTransport :: "bytes \<Rightarrow> transport_name result" where
  "ParseTransport s =
     (if s = '''' \<or> s = ''connect'' then Inr TransportConnect
      else if s = ''ws'' then Inr TransportWS
      else Inl (Errorf ''unknown transport %q: want %q or %q'' [s, ''connect'', ''ws''] None))"

subsection \<open>JSON\<close>

definition zero_agent :: agent where
  "zero_agent = \<lparr>agURL = [], agToken = [], agUser = [], agInsecure = False, agTLSFingerprint = [],
     agPort = 0, agTransport = []\<rparr>"

definition agent_fields :: "bytes list" where
  "agent_fields = [''url'', ''token'', ''user'', ''insecure'', ''tls_fingerprint'', ''port'', ''transport'']"

definition set_agent_field :: "bytes \<Rightarrow> json \<Rightarrow> agent \<Rightarrow> agent option" where
  "set_agent_field n v a =
     (if v = JNull then Some a
      else if n = ''url'' then map_option (\<lambda>s. a\<lparr>agURL := s\<rparr>) (as_string v)
      else if n = ''token'' then map_option (\<lambda>s. a\<lparr>agToken := s\<rparr>) (as_string v)
      else if n = ''user'' then map_option (\<lambda>s. a\<lparr>agUser := s\<rparr>) (as_string v)
      else if n = ''insecure'' then map_option (\<lambda>b. a\<lparr>agInsecure := b\<rparr>) (as_bool v)
      else if n = ''tls_fingerprint'' then map_option (\<lambda>s. a\<lparr>agTLSFingerprint := s\<rparr>) (as_string v)
      else if n = ''port'' then map_option (\<lambda>i. a\<lparr>agPort := i\<rparr>) (as_int v)
      else map_option (\<lambda>s. a\<lparr>agTransport := s\<rparr>) (as_string v))"

definition agent_of_json :: "json \<Rightarrow> agent option" where
  "agent_of_json v = unmarshal_struct agent_fields set_agent_field v zero_agent"

definition agent_json :: "agent \<Rightarrow> json" where
  "agent_json a = JObj
     ([(''url'', JStr (agURL a))] @ opt_str ''token'' (agToken a) @ opt_str ''user'' (agUser a)
      @ opt_bool ''insecure'' (agInsecure a) @ opt_str ''tls_fingerprint'' (agTLSFingerprint a)
      @ opt_int ''port'' (agPort a) @ opt_str ''transport'' (agTransport a))"

text \<open>A JSON object into a map: each member's value into a zero element, the last one of a key wins.\<close>

fun fill_map :: "(json \<Rightarrow> 'v option) \<Rightarrow> (bytes \<times> json) list \<Rightarrow> (bytes \<times> 'v) list \<Rightarrow> (bytes \<times> 'v) list option" where
  "fill_map dec [] m = Some m"
| "fill_map dec ((k, v) # kvs) m =
     (case dec v of None \<Rightarrow> None | Some x \<Rightarrow> fill_map dec kvs (AList.update k x m))"

definition set_config_field :: "bytes \<Rightarrow> json \<Rightarrow> config \<Rightarrow> config option" where
  "set_config_field n v c =
     (case v of
        JNull \<Rightarrow> Some (c\<lparr>agents := None\<rparr>)
      | JObj kvs \<Rightarrow>
          map_option (\<lambda>m. c\<lparr>agents := Some m\<rparr>)
            (fill_map agent_of_json kvs (case agents c of None \<Rightarrow> [] | Some m \<Rightarrow> m))
      | _ \<Rightarrow> None)"

definition config_of_json :: "json \<Rightarrow> config option" where
  "config_of_json v = unmarshal_struct [''agents''] set_config_field v \<lparr>agents = None\<rparr>"

definition map_json :: "('v \<Rightarrow> json) \<Rightarrow> (bytes \<times> 'v) list \<Rightarrow> json" where
  "map_json enc m = JObj (map (\<lambda>k. (k, enc (the (map_of m k)))) (sort_strings (map fst m)))"

definition config_json :: "config \<Rightarrow> json" where
  "config_json c =
     JObj [(''agents'', case agents c of None \<Rightarrow> JNull | Some m \<Rightarrow> map_json agent_json m)]"

subsection \<open>Operations\<close>

definition DefaultConfigPath :: "env \<Rightarrow> string result" where
  "DefaultConfigPath env =
     (case userConfigDir env of
        Inl e \<Rightarrow> Inl (Errorf ''locate user config dir: %w'' [] (Some e))
      | Inr dir \<Rightarrow> Inr (path_join [dir, ''san_tunnels'', ''config.json'']))"

definition LoadConfig :: "string \<Rightarrow> config io" where
  "LoadConfig path w =
     (case ReadFile path w of
        (Inl e, w') \<Rightarrow>
          if errors_is e ErrNotExist then (Inr \<lparr>agents = Some []\<rparr>, w')
          else (Inl (Errorf ''read config %s: %w'' [path] (Some e)), w')
      | (Inr b, w') \<Rightarrow>
          (case Option.bind (json_parse b) config_of_json of
             None \<Rightarrow> (Inl (Errorf ''parse config %s: %w'' [path] (Some json_error)), w')
           | Some c \<Rightarrow> (Inr (if agents c = None then c\<lparr>agents := Some []\<rparr> else c), w')))"

definition config_text :: "config \<Rightarrow> bytes" where
  "config_text c = marshal_indent (config_json c) @ [CHR 0x0A]"

definition config_tmp :: "string \<Rightarrow> string" where
  "config_tmp path = path @ ''.tmp''"

definition config_Save :: "config \<Rightarrow> string \<Rightarrow> unit io" where
  "config_Save c path =
     io_bind (wrap_err ''create config directory: %w'' [] (MkdirAll (path_dir path) mode_700)) (\<lambda>_.
     io_bind (wrap_err ''write config: %w'' [] (WriteFile (config_tmp path) (config_text c) mode_600)) (\<lambda>_.
     (\<lambda>w. case Rename (config_tmp path) path w of
        (Inl e, w') \<Rightarrow>
          (Inl (Errorf ''replace config %s: %w'' [path] (Some e)), snd (Remove (config_tmp path) w'))
      | (Inr u, w') \<Rightarrow> (Inr (), w'))))"

definition config_Set :: "config \<Rightarrow> bytes \<Rightarrow> agent \<Rightarrow> config" where
  "config_Set c name a =
     c\<lparr>agents := Some (AList.update name a (case agents c of None \<Rightarrow> [] | Some m \<Rightarrow> m))\<rparr>"

definition agent_map :: "config \<Rightarrow> (bytes \<times> agent) list" where
  "agent_map c = (case agents c of None \<Rightarrow> [] | Some m \<Rightarrow> m)"

definition config_Names :: "config \<Rightarrow> bytes list" where
  "config_Names c = sort_strings (map fst (agent_map c))"

definition config_Resolve :: "config \<Rightarrow> bytes \<Rightarrow> target result" where
  "config_Resolve c name =
     (case map_of (agent_map c) name of
        None \<Rightarrow>
          (let known = config_Names c in
           if known = [] then Inl (Errorf ''no agent named %q, and no agents are configured yet'' [name] None)
           else Inl (Errorf ''no agent named %q; configured agents: %s'' [name, join known '', ''] None))
      | Some a \<Rightarrow>
          if agURL a = '''' then Inl (Errorf ''agent %q has no url'' [name] None)
          else (case ParseTransport (agTransport a) of
             Inl err \<Rightarrow> Inl (Errorf ''agent %q: %w'' [name] (Some err))
           | Inr tr \<Rightarrow>
               if agPort a < 0 \<or> agPort a > 65535 then
                 Inl (Errorf ''agent %q has port %d, which is not a port number'' [name, itoa (agPort a)] None)
               else Inr \<lparr>tgName = name, tgURL = agURL a, tgToken = agToken a, tgUser = agUser a,
                 tgInsecure = agInsecure a, tgTransport = tr, tgPort = agPort a,
                 tgTLSFingerprint = agTLSFingerprint a\<rparr>))"

definition SSHConfigBlock :: "target \<Rightarrow> string \<Rightarrow> bytes" where
  "SSHConfigBlock t exe =
     ''Host '' @ tgName t @ [CHR 0x0A] @ ''  ProxyCommand '' @ exe @ '' client proxy %h'' @ [CHR 0x0A]
     @ (if tgUser t \<noteq> '''' then ''  User '' @ tgUser t @ [CHR 0x0A] else [])"

subsection \<open>Round trip of the JSON\<close>

lemma ParseTransport_Inl: "ParseTransport s = Inl e \<Longrightarrow> s \<notin> {[], ''connect'', ''ws''}"
  by (auto simp: ParseTransport_def)

text \<open>A configuration that JSON can carry: valid UTF-8 and a 64-bit port.\<close>

definition agent_ok :: "agent \<Rightarrow> bool" where
  "agent_ok a \<longleftrightarrow> list_all valid_utf8 [agURL a, agToken a, agUser a, agTLSFingerprint a, agTransport a]
     \<and> - (2 ^ 63) \<le> agPort a \<and> agPort a < 2 ^ 63"

definition config_ok :: "config \<Rightarrow> bool" where
  "config_ok c \<longleftrightarrow> distinct (map fst (agent_map c))
     \<and> list_all (\<lambda>(k, a). valid_utf8 k \<and> agent_ok a) (agent_map c)"

lemmas opt_defs = opt_str_def opt_bool_def opt_int_def

lemma agent_of_json_json:
  assumes "agent_ok a"
  shows "agent_of_json (agent_json a) = Some a"
  using assms
  by (cases a)
    (simp add: agent_of_json_def agent_json_def unmarshal_struct_def fill_append fill_omit opt_defs
      agent_fields_def set_agent_field_def zero_agent_def agent_ok_def parse_int64_itoa fill_member_def
      find_field_exact)

lemma jok_omit: "list_all P (omit e kv) \<longleftrightarrow> e \<or> P kv"
  by (simp add: omit_def)

lemma jok_agent: "agent_ok a \<Longrightarrow> jok (Suc (Suc 0)) (agent_json a)"
  by (auto simp: agent_json_def agent_ok_def opt_defs jok_omit max_depth_def valid_utf8_all_ascii ascii_def)

lemma fill_map_enc:
  assumes "distinct ks" and "\<And>k. k \<in> set ks \<Longrightarrow> dec (enc (f k)) = Some (f k)"
  shows "\<exists>m'. fill_map dec (map (\<lambda>k. (k, enc (f k))) ks) m = Some m'
    \<and> map_of m' = (\<lambda>k. if k \<in> set ks then Some (f k) else map_of m k)"
  using assms
proof (induction ks arbitrary: m)
  case (Cons k ks)
  from Cons.prems obtain m' where "fill_map dec (map (\<lambda>k. (k, enc (f k))) ks) (AList.update k (f k) m) = Some m'"
    and m': "map_of m' = (\<lambda>j. if j \<in> set ks then Some (f j) else map_of (AList.update k (f k) m) j)"
    using Cons.IH [of "AList.update k (f k) m"] by auto
  moreover have "dec (enc (f k)) = Some (f k)" using Cons.prems(2) by simp
  ultimately show ?case using Cons.prems(1) by (simp add: m' fun_eq_iff)
qed simp

lemma fill_map_json:
  assumes "distinct (map fst m)" and "\<And>k v. (k, v) \<in> set m \<Longrightarrow> dec (enc v) = Some v"
  shows "\<exists>m'. fill_map dec (map (\<lambda>k. (k, enc (the (map_of m k)))) (sort_strings (map fst m))) [] = Some m'
    \<and> map_of m' = map_of m"
proof -
  have "dec (enc (the (map_of m k))) = Some (the (map_of m k))" if "k \<in> set (sort_strings (map fst m))" for k
  proof -
    from that obtain v where "(k, v) \<in> set m" by auto
    with assms show ?thesis by simp
  qed
  then have "\<And>k. k \<in> set (sort_strings (map fst m)) \<Longrightarrow> dec (enc ((\<lambda>k. the (map_of m k)) k)) = Some ((\<lambda>k. the (map_of m k)) k)"
    by simp
  with assms(1) fill_map_enc [where dec = dec and enc = enc and f = "\<lambda>k. the (map_of m k)"
    and ks = "sort_strings (map fst m)" and m = "[]"]
  obtain m' where "fill_map dec (map (\<lambda>k. (k, enc (the (map_of m k)))) (sort_strings (map fst m))) [] = Some m'"
      and "map_of m' = (\<lambda>k. if k \<in> fst ` set m then Some (the (map_of m k)) else map_of [] k)"
    by auto
  moreover have "(\<lambda>k. if k \<in> fst ` set m then Some (the (map_of m k)) else map_of [] k) = map_of m"
    by (rule ext) (metis map_of_eq_None_iff image_set list.set_map map_of.simps(1) option.collapse)
  ultimately show ?thesis by auto
qed

lemma config_of_json_json:
  assumes "config_ok c" and "agents c \<noteq> None"
  shows "\<exists>c'. config_of_json (config_json c) = Some c' \<and> map_of (agent_map c') = map_of (agent_map c)
    \<and> agents c' \<noteq> None"
proof -
  obtain m where m: "agents c = Some m" using assms(2) by blast
  then have "distinct (map fst m)" "\<And>k a. (k, a) \<in> set m \<Longrightarrow> agent_of_json (agent_json a) = Some a"
    using assms(1) agent_of_json_json by (auto simp: config_ok_def agent_map_def list_all_iff)
  with fill_map_json [of m agent_of_json agent_json] obtain m' where
    "fill_map agent_of_json (map (\<lambda>k. (k, agent_json (the (map_of m k)))) (sort_strings (map fst m))) [] = Some m'"
    "map_of m' = map_of m" by blast
  with m show ?thesis
    by (simp add: config_of_json_def config_json_def unmarshal_struct_def fill_member_def find_field_exact
        set_config_field_def map_json_def agent_map_def)
qed

lemma jok_config:
  assumes "config_ok c"
  shows "jok 0 (config_json c)"
proof (cases "agents c")
  case (Some m)
  have "valid_utf8 k \<and> jok (Suc (Suc 0)) (agent_json (the (map_of m k)))" if "k \<in> fst ` set m" for k
  proof -
    from that obtain v where v: "(k, v) \<in> set m" by auto
    moreover from v assms Some have "map_of m k = Some v" by (simp add: config_ok_def agent_map_def)
    ultimately show ?thesis
      using assms Some jok_agent by (auto simp: config_ok_def agent_map_def list_all_iff)
  qed
  with Some show ?thesis
    by (simp add: config_json_def map_json_def max_depth_def list_all_iff valid_utf8_all_ascii ascii_def)
qed (simp add: config_json_def max_depth_def valid_utf8_all_ascii ascii_def)

lemma parse_config_text:
  "config_ok c \<Longrightarrow> json_parse (config_text c) = Some (config_json c)"
  using json_parse_print [OF jok_config, of c "[CHR 0x0A]" True 0]
  by (simp add: config_text_def marshal_indent_def is_ws_def)

subsection \<open>Properties\<close>

text \<open>
  C13: saving a configuration is atomic: whatever calls fail, and wherever a write stops, the
  configuration file afterwards is the old one, and \<^verbatim>\<open>Save\<close> reported an error, or it is the complete
  new text, and \<^verbatim>\<open>Save\<close> reported success. No file but it and its temporary is touched, and a file
  that did not exist gets the mode 0600.
\<close>

theorem config_Save_atomic:
  assumes "config_Save c path w = (r, w')"
  shows "(if isl r then files w' path = files w path
      else files w' path = Some (config_text c, file_mode w (config_tmp path) mode_600))
    \<and> (\<forall>q. q = path \<or> q = config_tmp path \<or> files w' q = files w q)"
proof -
  have ne: "config_tmp path \<noteq> path" by (simp add: config_tmp_def)
  obtain r1 w1 where w1: "MkdirAll (path_dir path) mode_700 w = (r1, w1)" by (metis surj_pair)
  then have f1: "files w1 = files w" by (rule MkdirAll_files)
  obtain r2 w2 where w2: "WriteFile (config_tmp path) (config_text c) mode_600 w1 = (r2, w2)" by (metis surj_pair)
  obtain r3 w3 where w3: "Rename (config_tmp path) path w2 = (r3, w3)" by (metis surj_pair)
  have others2: "files w2 q = files w q" if "q \<noteq> config_tmp path" for q
    using WriteFile_others [OF w2 that] f1 by simp
  show ?thesis
  proof (cases "isl r1 \<or> isl r2")
    case True
    with assms w1 w2 f1 others2 ne show ?thesis
      by (auto simp: config_Save_def io_bind_def wrap_err_def split: sum.splits)
  next
    case False
    then have "files w2 = (files w)(config_tmp path \<mapsto> (config_text c, file_mode w (config_tmp path) mode_600))"
      using WriteFile_Inr w2 f1 by (cases r2) (auto simp: file_mode_def)
    with False assms w1 w2 w3 ne show ?thesis
      by (auto simp: config_Save_def io_bind_def wrap_err_def Rename_def Remove_def take_fault_def
          split: sum.splits list.splits fault.splits option.splits if_splits)
  qed
qed

definition demo_agent :: agent where
  "demo_agent = zero_agent\<lparr>agURL := ''https://box:8443'', agToken := ''t'', agPort := 2222\<rparr>"

definition demo_config :: config where
  "demo_config = \<lparr>agents = Some [(''box'', demo_agent)]\<rparr>"

definition quiet_world :: world where
  "quiet_world = \<lparr>files = (\<lambda>p. None), dirs = (\<lambda>p. None), faults = [], stdout = [], stderr = [], stdin = Inr []\<rparr>"

lemma config_Save_atomic_witness:
  "\<exists>w'. config_Save demo_config ''/c'' (quiet_world\<lparr>faults := [NoFault, Partial 3 ''disk full'']\<rparr>)
      = (Inl (Errorf ''write config: %w'' [] (Some (OsErr ''disk full''))), w')
    \<and> files w' ''/c'' = None"
proof -
  have "\<exists>w'. config_Save demo_config ''/c'' (quiet_world\<lparr>faults := [NoFault, Partial 3 ''disk full'']\<rparr>)
      = (Inl (Errorf ''write config: %w'' [] (Some (OsErr ''disk full''))), w')"
    by (simp add: config_Save_def io_bind_def wrap_err_def call_defs quiet_world_def)
  then obtain w' where "config_Save demo_config ''/c'' (quiet_world\<lparr>faults := [NoFault, Partial 3 ''disk full'']\<rparr>)
      = (Inl (Errorf ''write config: %w'' [] (Some (OsErr ''disk full''))), w')" ..
  with config_Save_atomic [OF this] show ?thesis by (simp add: quiet_world_def)
qed

text \<open>
  C17: a configuration that was saved is loaded back: the same agents under the same names with the
  same fields, for any valid UTF-8 in them.
\<close>

theorem config_Load_Save:
  assumes "config_ok c" and "agents c \<noteq> None" and "faults w = []"
    and "config_Save c path w = (r, w')"
  shows "\<exists>c'. r = Inr () \<and> LoadConfig path w' = (Inr c', w') \<and> map_of (agent_map c') = map_of (agent_map c)"
proof -
  obtain w1 where w1: "MkdirAll (path_dir path) mode_700 w = (Inr (), w1)" "faults w1 = []"
    using quiet_MkdirAll [OF assms(3)] by blast
  have r: "r = Inr ()" and quiet: "faults w' = []"
    using assms(4) w1 by (auto simp: config_Save_def io_bind_def wrap_err_def quiet_WriteFile Rename_def take_fault_def)
  with config_Save_atomic [OF assms(4)] obtain m where f: "files w' path = Some (config_text c, m)" by auto
  obtain c' where c': "config_of_json (config_json c) = Some c'" "map_of (agent_map c') = map_of (agent_map c)"
      "agents c' \<noteq> None"
    using config_of_json_json [OF assms(1,2)] by blast
  from parse_config_text [OF assms(1)] c' f quiet have "LoadConfig path w' = (Inr c', w')"
    by (simp add: LoadConfig_def quiet_ReadFile)
  with r c'(2) show ?thesis by blast
qed

lemma config_Load_Save_witness:
  "\<exists>w' c'. config_Save demo_config ''/c'' quiet_world = (Inr (), w') \<and> LoadConfig ''/c'' w' = (Inr c', w')
     \<and> map_of (agent_map c') ''box'' = Some demo_agent"
proof -
  obtain r w' where s: "config_Save demo_config ''/c'' quiet_world = (r, w')" by (metis surj_pair)
  have "config_ok demo_config"
    by (simp add: config_ok_def demo_config_def agent_map_def agent_ok_def demo_agent_def zero_agent_def
        ascii_def)
  from config_Load_Save [OF this _ _ s] s show ?thesis
    by (auto simp: demo_config_def agent_map_def quiet_world_def)
qed

text \<open>
  A target that \<^verbatim>\<open>Resolve\<close> returns is the entry of that name, with a non-empty URL, one of the
  two transports (Connect when none is named) and a port between 0 and 65535; and every entry that
  meets these conditions resolves.
\<close>

theorem config_Resolve_iff:
  "config_Resolve c name = Inr t \<longleftrightarrow>
     (\<exists>a. map_of (agent_map c) name = Some a \<and> agURL a \<noteq> [] \<and> 0 \<le> agPort a \<and> agPort a \<le> 65535
        \<and> agTransport a \<in> {[], ''connect'', ''ws''}
        \<and> t = \<lparr>tgName = name, tgURL = agURL a, tgToken = agToken a, tgUser = agUser a,
            tgInsecure = agInsecure a,
            tgTransport = (if agTransport a = ''ws'' then TransportWS else TransportConnect),
            tgPort = agPort a, tgTLSFingerprint = agTLSFingerprint a\<rparr>)"
proof (cases "map_of (agent_map c) name")
  case None
  then show ?thesis by (simp add: config_Resolve_def Let_def)
next
  case (Some a)
  show ?thesis
  proof (cases "ParseTransport (agTransport a)")
    case (Inl e)
    with Some ParseTransport_Inl [OF Inl] show ?thesis by (simp add: config_Resolve_def)
  next
    case (Inr tr)
    then have "agTransport a \<in> {[], ''connect'', ''ws''}"
      and "tr = (if agTransport a = ''ws'' then TransportWS else TransportConnect)"
      by (auto simp: ParseTransport_def split: if_splits)
    with Some Inr show ?thesis by (simp add: config_Resolve_def) blast
  qed
qed

text \<open>
  \<^verbatim>\<open>Names\<close> lists each agent once, in order, and the list does not depend on the order the map
  is iterated in; after \<^verbatim>\<open>Set\<close> the name is listed, resolves to the new entry, and every other
  entry is as before.
\<close>

theorem config_Names_sorted:
  assumes "distinct (map fst (agent_map c))" and "distinct (map fst (agent_map c'))"
    and "map_of (agent_map c) = map_of (agent_map c')"
  shows "config_Names c = config_Names c'
    \<and> sorted (config_Names c) \<and> distinct (config_Names c)
    \<and> set (config_Names (config_Set c name a)) = insert name (set (config_Names c))
    \<and> map_of (agent_map (config_Set c name a)) = (map_of (agent_map c))(name \<mapsto> a)"
proof -
  have "set (map fst (agent_map c)) = set (map fst (agent_map c'))"
    using assms(3) by (metis dom_map_of_conv_image_fst image_set)
  with sort_strings_unique [OF assms(1,2)] have "config_Names c = config_Names c'"
    by (simp add: config_Names_def)
  moreover have "set (map fst (agent_map (config_Set c name a))) = insert name (set (map fst (agent_map c)))"
    by (cases "agents c") (auto simp: config_Set_def agent_map_def keys_update [unfolded set_map] )
  moreover have "map_of (agent_map (config_Set c name a)) = (map_of (agent_map c))(name \<mapsto> a)"
    by (cases "agents c") (simp_all add: config_Set_def agent_map_def)
  ultimately show ?thesis using assms(1,2) by (simp add: config_Names_def) (metis set_map set_sort_strings)
qed

lemma config_Names_sorted_witness:
  "config_Names \<lparr>agents = Some [(''b'', demo_agent), (''a'', demo_agent)]\<rparr>
     = config_Names \<lparr>agents = Some [(''a'', demo_agent), (''b'', demo_agent)]\<rparr>"
  using config_Names_sorted [of "\<lparr>agents = Some [(''b'', demo_agent), (''a'', demo_agent)]\<rparr>"
      "\<lparr>agents = Some [(''a'', demo_agent), (''b'', demo_agent)]\<rparr>"]
  by (auto simp: agent_map_def fun_eq_iff)

end
