(* ===== verification/Sha256.thy ===== *)
theory Sha256
  imports Base64 "HOL-Library.Word"
begin

unbundle bit_operations_syntax

text \<open>
  \<^verbatim>\<open>crypto/sha256\<close>, which the fingerprints of both sides are made with: the hash of FIPS 180-4 over
  32-bit words, whose addition wraps.
\<close>

text \<open>
  The constants are the first 32 bits behind the point of the cube roots of the first 64 primes, and
  of the square roots of the first 8: the integer part of a root of \<open>p * 2 ^ (32 * k)\<close>, found bit by
  bit, of which the word keeps the low half.
\<close>

fun int_root :: "nat \<Rightarrow> nat \<Rightarrow> nat \<Rightarrow> nat \<Rightarrow> nat" where
  "int_root k n 0 r = r"
| "int_root k n (Suc b) r = int_root k n b (if (r + 2 ^ b) ^ k \<le> n then r + 2 ^ b else r)"

definition frac_root :: "nat \<Rightarrow> nat \<Rightarrow> 32 word" where
  "frac_root k p = word_of_nat (int_root k (p * 2 ^ (32 * k)) 36 0)"

definition primes_below :: "nat \<Rightarrow> nat list" where
  "primes_below n = filter (\<lambda>m. list_all (\<lambda>d. m mod d \<noteq> 0) [2..<m]) [2..<n]"

definition sha_k :: "32 word list" where
  "sha_k = map (frac_root 3) (primes_below 312)"

definition sha_h :: "32 word list" where
  "sha_h = map (frac_root 2) [2, 3, 5, 7, 11, 13, 17, 19]"

definition rotr :: "nat \<Rightarrow> 32 word \<Rightarrow> 32 word" where
  "rotr n x = drop_bit n x OR push_bit (32 - n) x"

definition be_bytes :: "nat \<Rightarrow> nat \<Rightarrow> bytes" where
  "be_bytes k n = map (\<lambda>i. char_of (n div 256 ^ (k - 1 - i))) [0..<k]"

fun be_words :: "bytes \<Rightarrow> 32 word list" where
  "be_words (a # b # c # d # s) =
     word_of_nat (((code a * 256 + code b) * 256 + code c) * 256 + code d) # be_words s"
| "be_words _ = []"

definition sha_pad :: "bytes \<Rightarrow> bytes" where
  "sha_pad s =
     s @ [char_of (128 :: nat)] @ replicate ((119 - length s mod 64) mod 64) (char_of (0 :: nat))
     @ be_bytes 8 (8 * length s)"

definition sha_next :: "32 word list \<Rightarrow> 32 word" where
  "sha_next ws =
     (let n = length ws; x = ws ! (n - 15); y = ws ! (n - 2);
          s0 = rotr 7 x XOR rotr 18 x XOR drop_bit 3 x;
          s1 = rotr 17 y XOR rotr 19 y XOR drop_bit 10 y
      in ws ! (n - 16) + s0 + ws ! (n - 7) + s1)"

fun sha_extend :: "nat \<Rightarrow> 32 word list \<Rightarrow> 32 word list" where
  "sha_extend 0 ws = ws"
| "sha_extend (Suc n) ws = sha_extend n (ws @ [sha_next ws])"

fun sha_round :: "32 word \<times> 32 word \<Rightarrow> 32 word list \<Rightarrow> 32 word list" where
  "sha_round (k, w) [a, b, c, d, e, f, g, h] =
     (let s1 = rotr 6 e XOR rotr 11 e XOR rotr 25 e;
          ch = (e AND f) XOR (NOT e AND g);
          t1 = h + s1 + ch + k + w;
          s0 = rotr 2 a XOR rotr 13 a XOR rotr 22 a;
          maj = (a AND b) XOR (a AND c) XOR (b AND c)
      in [t1 + (s0 + maj), a, b, c, d + t1, e, f, g])"
| "sha_round _ hs = hs"

definition sha_block :: "32 word list \<Rightarrow> 32 word list \<Rightarrow> 32 word list" where
  "sha_block hs blk = map2 (+) hs (fold sha_round (zip sha_k (sha_extend 48 blk)) hs)"

fun sha_blocks :: "nat \<Rightarrow> 32 word list \<Rightarrow> 32 word list \<Rightarrow> 32 word list" where
  "sha_blocks 0 ws hs = hs"
| "sha_blocks (Suc n) ws hs = sha_blocks n (drop 16 ws) (sha_block hs (take 16 ws))"

definition Sum256 :: "bytes \<Rightarrow> bytes" where
  "Sum256 s =
     (let ws = be_words (sha_pad s)
      in concat (map (\<lambda>w. be_bytes 4 (unat w)) (sha_blocks (length ws div 16) ws sha_h)))"

subsection \<open>Fingerprints\<close>

text \<open>
  The fingerprint of a certificate: \<^verbatim>\<open>Fingerprint\<close> of \<^verbatim>\<open>internal/client/trust.go\<close> and
  \<^verbatim>\<open>CertFingerprint\<close> of \<^verbatim>\<open>internal/agent/tlskey.go\<close>, which have to agree.
\<close>

definition Fingerprint :: "bytes \<Rightarrow> bytes" where
  "Fingerprint der = ''SHA256:'' @ b64_encode std_alphabet (Sum256 der)"

definition CertFingerprint :: "bytes \<Rightarrow> bytes" where
  "CertFingerprint der = ''SHA256:'' @ b64_encode std_alphabet (Sum256 der)"

lemma Fingerprint_eq: "Fingerprint a = Fingerprint b \<longleftrightarrow> Sum256 a = Sum256 b"
  by (simp add: Fingerprint_def b64_encode_inject alphabet_std)

lemma Fingerprint_nonempty [simp]: "Fingerprint a \<noteq> []"
  by (simp add: Fingerprint_def)

lemma length_be_bytes [simp]: "length (be_bytes k n) = k"
  by (simp add: be_bytes_def)

lemma length_sha_block: "length hs = 8 \<Longrightarrow> length (sha_block hs blk) = 8"
proof -
  have "length (sha_round kw hs) = length hs" for kw hs
    by (cases "(kw, hs)" rule: sha_round.cases) (simp_all add: Let_def)
  then have "length (fold sha_round kws hs) = length hs" for kws hs
    by (induction kws arbitrary: hs) simp_all
  then show "length hs = 8 \<Longrightarrow> length (sha_block hs blk) = 8" by (simp add: sha_block_def)
qed

lemma length_Sum256: "length (Sum256 s) = 32"
proof -
  have "length (sha_blocks n ws hs) = 8" if "length hs = 8" for n ws hs
    using that by (induction n ws hs rule: sha_blocks.induct) (simp_all add: length_sha_block)
  then have "length (sha_blocks n ws sha_h) = 8" for n ws by (simp add: sha_h_def)
  then show ?thesis by (simp add: Sum256_def Let_def length_concat comp_def sum_list_triv)
qed

lemma plain_Fingerprint: "list_all plain (Fingerprint der)"
  using plain_b64_encode [OF _ plain_std] by (simp add: Fingerprint_def std_alphabet_def plain_def ascii_def is_space_def)

end
