(* ===== verification/Trust.thy ===== *)
theory Trust
  imports Config Sha256
begin

text \<open>
  \<^verbatim>\<open>internal/client/trust.go\<close>: the store of known agents and the verification of an agent's
  certificate. The verify callback of the TLS configuration changes the store, the verifier cell and
  the world; these three are \<open>tls_state\<close>. Parsing a certificate and checking its chain against the
  system roots belong to the X.509 library and are parameters.
\<close>

subsection \<open>The store\<close>

record known_agents =
  knPath :: string
  knMap :: "(bytes \<times> bytes) list"

definition DefaultKnownAgentsPath :: "env \<Rightarrow> string result" where
  "DefaultKnownAgentsPath env =
     (case userConfigDir env of
        Inl e \<Rightarrow> Inl (Errorf ''locate user config dir: %w'' [] (Some e))
      | Inr dir \<Rightarrow> Inr (path_join [dir, ''san_tunnels'', ''known_agents.json'']))"

text \<open>\<^verbatim>\<open>json.Unmarshal\<close> into the map: \<^verbatim>\<open>null\<close> is the nil map, which the code makes an empty one.\<close>

definition known_elem :: "json \<Rightarrow> bytes option" where
  "known_elem v = (if v = JNull then Some [] else as_string v)"

definition known_of_json :: "json \<Rightarrow> (bytes \<times> bytes) list option" where
  "known_of_json v =
     (case v of JNull \<Rightarrow> Some [] | JObj kvs \<Rightarrow> fill_map known_elem kvs [] | _ \<Rightarrow> None)"

definition LoadKnownAgents :: "string \<Rightarrow> known_agents io" where
  "LoadKnownAgents path w =
     (case ReadFile path w of
        (Inl e, w') \<Rightarrow>
          if errors_is e ErrNotExist then (Inr \<lparr>knPath = path, knMap = []\<rparr>, w')
          else (Inl (Errorf ''read known agents %s: %w'' [path] (Some e)), w')
      | (Inr b, w') \<Rightarrow>
          (case Option.bind (json_parse b) known_of_json of
             None \<Rightarrow> (Inl (Errorf ''parse known agents %s: %w'' [path] (Some json_error)), w')
           | Some m \<Rightarrow> (Inr \<lparr>knPath = path, knMap = m\<rparr>, w')))"

definition known_Get :: "known_agents \<Rightarrow> bytes \<Rightarrow> bytes" where
  "known_Get k name = (case map_of (knMap k) name of None \<Rightarrow> [] | Some fp \<Rightarrow> fp)"

definition known_text :: "(bytes \<times> bytes) list \<Rightarrow> bytes" where
  "known_text m = marshal_indent (map_json JStr m) @ [CHR 0x0A]"

text \<open>The map in memory is changed first, and stays changed when the write fails.\<close>

definition known_Add :: "known_agents \<Rightarrow> bytes \<Rightarrow> bytes \<Rightarrow> world \<Rightarrow> (unit result \<times> world) \<times> known_agents" where
  "known_Add k name fp w =
     (let k' = k\<lparr>knMap := AList.update name fp (knMap k)\<rparr> in
      (io_bind (make_parent ''create dir %s: %w'' (knPath k)) (\<lambda>_.
         wrap_err ''write known agents %s: %w'' [knPath k] (WriteFile (knPath k) (known_text (knMap k')) mode_600)) w,
       k'))"

definition known_Names :: "known_agents \<Rightarrow> bytes list" where
  "known_Names k = sort_strings (map fst (knMap k))"

subsection \<open>Verification\<close>

type_synonym verifier = "go_error option"

definition verifier_set :: "verifier \<Rightarrow> go_error \<Rightarrow> verifier" where
  "verifier_set v err = Some err"

definition enrich :: "verifier \<Rightarrow> go_error \<Rightarrow> go_error" where
  "enrich v err = (case v of Some ve \<Rightarrow> ve | None \<Rightarrow> err)"

text \<open>The chain check: \<open>parse\<close> and \<open>chain\<close> stand for the X.509 library, \<open>host_of\<close> for \<^verbatim>\<open>hostOf\<close>.\<close>

record 'c x509 =
  parse_cert :: "bytes \<Rightarrow> 'c result"
  chain_check :: "'c \<Rightarrow> string \<Rightarrow> 'c list \<Rightarrow> go_error option"
  host_of :: "string \<Rightarrow> string"

fun parse_certs :: "'c x509 \<Rightarrow> bytes list \<Rightarrow> 'c list result" where
  "parse_certs x [] = Inr []"
| "parse_certs x (raw # raws) =
     (case parse_cert x raw of
        Inl e \<Rightarrow> Inl e
      | Inr c \<Rightarrow> (case parse_certs x raws of Inl e \<Rightarrow> Inl e | Inr cs \<Rightarrow> Inr (c # cs)))"

definition verifyAgainstSystemRoots :: "'c x509 \<Rightarrow> target \<Rightarrow> bytes list \<Rightarrow> go_error option" where
  "verifyAgainstSystemRoots x t raws =
     (case parse_certs x raws of
        Inl e \<Rightarrow> Some e
      | Inr cs \<Rightarrow> chain_check x (hd cs) (host_of x (tgURL t)) (tl cs))"

record tls_state =
  tsKnown :: "known_agents option"
  tsVerifier :: verifier
  tsWorld :: world

type_synonym on_trust = "(bytes \<Rightarrow> bytes \<Rightarrow> unit io) option"

text \<open>\<^verbatim>\<open>OnTrust\<close> as \<^verbatim>\<open>resolveTarget\<close> in \<^verbatim>\<open>main.go\<close> sets it: a notice on standard error.\<close>

definition announce_trust :: "string \<Rightarrow> bytes \<Rightarrow> bytes \<Rightarrow> unit io" where
  "announce_trust knownPath name fp =
     Stderr (''san_tunnels: trusting agent %q on first use: %s'' @ [CHR 0x0A] @
       ''  recorded in %s; a different certificate will be refused from now on'' @ [CHR 0x0A])
       [name, fp, knownPath]"

record tls_config =
  insecureSkipVerify :: bool
  verifyPeer :: "(bytes list \<Rightarrow> tls_state \<Rightarrow> go_error option \<times> tls_state) option"
  nextProtos :: "string list"

definition pin_mismatch :: "target \<Rightarrow> bytes \<Rightarrow> bytes \<Rightarrow> go_error" where
  "pin_mismatch t got pinned = Errorf
     (''agent %q presented certificate %s, but %s is pinned.'' @ [CHR 0x0A] @
      ''Either the agent's certificate was regenerated, or something is '' @
      ''impersonating it. If the change was expected, remove the entry for '' @
      ''%q from your known_agents.json (or update tls_fingerprint) and reconnect'')
     [tgName t, got, pinned, tgName t] None"

definition verify_callback ::
    "'c x509 \<Rightarrow> target \<Rightarrow> on_trust \<Rightarrow> bytes \<Rightarrow> bytes list \<Rightarrow> tls_state \<Rightarrow> go_error option \<times> tls_state" where
  "verify_callback x t onTrust pinned raws s =
     (if raws = [] then (Some (errors_new ''agent presented no certificate''), s)
      else
        let got = Fingerprint (hd raws) in
        if pinned \<noteq> [] then
          (if got = pinned then (None, s)
           else let e = pin_mismatch t got pinned in (Some e, s\<lparr>tsVerifier := verifier_set (tsVerifier s) e\<rparr>))
        else if verifyAgainstSystemRoots x t raws = None then (None, s)
        else
          (let (r, s1) = (case tsKnown s of
               None \<Rightarrow> (Inr (), s)
             | Some k \<Rightarrow> (case known_Add k (tgName t) got (tsWorld s) of
                 ((r, w'), k') \<Rightarrow> (r, s\<lparr>tsKnown := Some k', tsWorld := w'\<rparr>)))
           in case r of
               Inl err \<Rightarrow> (Some (Errorf ''record agent fingerprint: %w'' [] (Some err)), s1)
             | Inr u \<Rightarrow>
                 (None, case onTrust of
                    None \<Rightarrow> s1
                  | Some f \<Rightarrow> s1\<lparr>tsWorld := snd (f (tgName t) got (tsWorld s1))\<rparr>)))"

text \<open>The pin is read when the configuration is built.\<close>

definition pin_of :: "target \<Rightarrow> known_agents option \<Rightarrow> bytes" where
  "pin_of t known =
     (if tgTLSFingerprint t = [] then (case known of None \<Rightarrow> [] | Some k \<Rightarrow> known_Get k (tgName t))
      else tgTLSFingerprint t)"

definition tlsConfigFor :: "'c x509 \<Rightarrow> target \<Rightarrow> known_agents option \<Rightarrow> on_trust \<Rightarrow> tls_config" where
  "tlsConfigFor x t known onTrust =
     (if tgInsecure t then \<lparr>insecureSkipVerify = True, verifyPeer = None, nextProtos = []\<rparr>
      else \<lparr>insecureSkipVerify = True,
        verifyPeer = Some (verify_callback x t onTrust (pin_of t known)), nextProtos = []\<rparr>)"

definition wsTLSConfig :: "'c x509 \<Rightarrow> target \<Rightarrow> known_agents option \<Rightarrow> on_trust \<Rightarrow> tls_config" where
  "wsTLSConfig x t known onTrust = (tlsConfigFor x t known onTrust)\<lparr>nextProtos := [''http/1.1'']\<rparr>"

text \<open>
  What a handshake with a peer presenting \<open>raws\<close> makes of a configuration: with the default
  verification switched off, the callback alone decides.
\<close>

definition handshake :: "tls_config \<Rightarrow> bytes list \<Rightarrow> tls_state \<Rightarrow> go_error option \<times> tls_state" where
  "handshake cfg raws s = (case verifyPeer cfg of None \<Rightarrow> (None, s) | Some f \<Rightarrow> f raws s)"

subsection \<open>Lemmas\<close>

lemma known_elem_JStr: "known_elem (JStr s) = Some s"
  by (simp add: known_elem_def)

definition known_ok :: "(bytes \<times> bytes) list \<Rightarrow> bool" where
  "known_ok m \<longleftrightarrow> distinct (map fst m) \<and> list_all (\<lambda>(k, v). valid_utf8 k \<and> valid_utf8 v) m"

lemma known_ok_update:
  "known_ok m \<Longrightarrow> valid_utf8 k \<Longrightarrow> valid_utf8 v \<Longrightarrow> known_ok (AList.update k v m)"
  by (induction m) (auto simp: known_ok_def keys_update [unfolded set_map] split: if_splits)

lemma parse_known_text:
  assumes "known_ok m"
  shows "\<exists>m'. Option.bind (json_parse (known_text m)) known_of_json = Some m' \<and> map_of m' = map_of m"
proof -
  have "valid_utf8 k \<and> valid_utf8 (the (map_of m k))" if "k \<in> fst ` set m" for k
    using that assms by (auto simp: known_ok_def list_all_iff)
  then have "jok 0 (map_json JStr m)"
    by (simp add: map_json_def max_depth_def list_all_iff)
  with json_parse_print [of "map_json JStr m" "[CHR 0x0A]" True 0]
  have "json_parse (known_text m) = Some (map_json JStr m)"
    by (simp add: known_text_def marshal_indent_def is_ws_def)
  moreover obtain m' where
    "fill_map known_elem (map (\<lambda>k. (k, JStr (the (map_of m k)))) (sort_strings (map fst m))) [] = Some m'"
    "map_of m' = map_of m"
    using fill_map_json [of m known_elem JStr] assms known_elem_JStr by (auto simp: known_ok_def)
  ultimately show ?thesis by (simp add: known_of_json_def map_json_def)
qed

lemma valid_Fingerprint: "valid_utf8 (Fingerprint der)"
  using plain_Fingerprint [of der] by (intro valid_utf8_all_ascii) (auto simp: list_all_iff plain_def)

text \<open>A successful \<^verbatim>\<open>Add\<close> leaves a file that loads to the store in memory.\<close>

lemma known_Add_Load:
  assumes "known_Add k name fp w = ((Inr (), w'), k')" and "known_ok (knMap k')"
  shows "knMap k' = AList.update name fp (knMap k) \<and> knPath k' = knPath k
    \<and> (\<exists>m. files w' (knPath k) = Some (known_text (knMap k'), m))"
proof -
  from assms(1) have k': "k' = k\<lparr>knMap := AList.update name fp (knMap k)\<rparr>"
    by (simp add: known_Add_def Let_def)
  from assms(1) obtain w1 where "WriteFile (knPath k) (known_text (knMap k')) mode_600 w1 = (Inr (), w')"
    by (auto simp: known_Add_def Let_def io_bind_Inr wrap_err_Inr)
  from WriteFile_Inr [OF this] k' show ?thesis by simp
qed

subsection \<open>Properties\<close>

text \<open>
  C7: with a pin, from the configuration or from the store, a certificate is accepted exactly when
  its fingerprint is the pin, whatever the system roots say of it, and accepting it changes nothing.
  A refusal is kept for the caller, in place of the transport's own error. The pin of the
  configuration wins over the store's.
\<close>

theorem pinned_certificate_only:
  assumes "\<not> tgInsecure t" and "pin_of t known \<noteq> []"
    and "handshake (tlsConfigFor x t known onTrust) raws s = (r, s')"
  shows "(r = None \<longleftrightarrow> raws \<noteq> [] \<and> Fingerprint (hd raws) = pin_of t known)
    \<and> (r = None \<longrightarrow> s' = s) \<and> tsKnown s' = tsKnown s \<and> tsWorld s' = tsWorld s
    \<and> (\<forall>e other. r = Some e \<longrightarrow> raws \<noteq> [] \<longrightarrow> enrich (tsVerifier s') other = e)
    \<and> (tgTLSFingerprint t \<noteq> [] \<longrightarrow> pin_of t known = tgTLSFingerprint t)"
  using assms
  by (auto simp: handshake_def tlsConfigFor_def verify_callback_def verifier_set_def enrich_def Let_def
      pin_of_def split: if_splits)

definition demo_target :: target where
  "demo_target = \<lparr>tgName = ''box'', tgURL = ''https://box:8443'', tgToken = ''t'', tgUser = [],
     tgInsecure = False, tgTransport = TransportConnect, tgPort = 0, tgTLSFingerprint = []\<rparr>"

definition demo_state :: tls_state where
  "demo_state = \<lparr>tsKnown = None, tsVerifier = None, tsWorld = quiet_world\<rparr>"

definition no_x509 :: "unit x509" where
  "no_x509 = \<lparr>parse_cert = (\<lambda>raw. Inl (OsErr ''malformed'')), chain_check = (\<lambda>c h cs. None), host_of = (\<lambda>u. u)\<rparr>"

lemma pinned_certificate_only_witness:
  "\<exists>e s'. handshake (tlsConfigFor no_x509 (demo_target\<lparr>tgTLSFingerprint := ''other''\<rparr>) None None) [''cert''] demo_state
     = (Some e, s') \<and> enrich (tsVerifier s') EOF = e"
proof -
  let ?t = "demo_target\<lparr>tgTLSFingerprint := ''other''\<rparr>"
  obtain r s' where h: "handshake (tlsConfigFor no_x509 ?t None None) [''cert''] demo_state = (r, s')"
    by (metis surj_pair)
  have "Fingerprint ''cert'' \<noteq> pin_of ?t None" by (simp add: Fingerprint_def pin_of_def)
  with pinned_certificate_only [OF _ _ h] h show ?thesis
    by (cases r) (auto simp: demo_target_def pin_of_def)
qed

text \<open>
  C14: trust on first use lasts. A first connection to an agent that is not pinned and has no
  certificate of a system root accepts its certificate and records it; whoever loads the store
  afterwards accepts for this agent exactly the certificates with that fingerprint, and for other
  agents pins what it pinned before.
\<close>

theorem first_use_is_remembered:
  assumes "\<not> tgInsecure t" and "tgTLSFingerprint t = []" and "raws \<noteq> []"
    and "verifyAgainstSystemRoots x t raws \<noteq> None"
    and "known_Get k (tgName t) = []" and "known_ok (knMap k)" and "valid_utf8 (tgName t)" and "faults w = []"
    and "handshake (tlsConfigFor x t (Some k) (Some (announce_trust (knPath k)))) raws
      \<lparr>tsKnown = Some k, tsVerifier = None, tsWorld = w\<rparr> = (r, s1)"
  shows "r = None \<and> (\<exists>k2. LoadKnownAgents (knPath k) (tsWorld s1) = (Inr k2, tsWorld s1)
    \<and> (\<forall>raws2 f s2. fst (handshake (tlsConfigFor x t (Some k2) f) raws2 s2) = None
         \<longleftrightarrow> raws2 \<noteq> [] \<and> Fingerprint (hd raws2) = Fingerprint (hd raws))
    \<and> (\<forall>n. n \<noteq> tgName t \<longrightarrow> known_Get k2 n = known_Get k n))"
proof -
  let ?fp = "Fingerprint (hd raws)"
  obtain w1 where w1: "make_parent ''create dir %s: %w'' (knPath k) w = (Inr (), w1)" "faults w1 = []"
    using quiet_make_parent [OF assms(8)] by blast
  define k' where "k' = k\<lparr>knMap := AList.update (tgName t) ?fp (knMap k)\<rparr>"
  define w2 where "w2 = put_file (knPath k) (known_text (knMap k')) mode_600 w1"
  have add: "known_Add k (tgName t) ?fp w = ((Inr (), w2), k')"
    using w1 by (simp add: known_Add_def Let_def io_bind_def wrap_err_def quiet_WriteFile k'_def w2_def)
  have r: "r = None" and s1: "tsWorld s1 = snd (announce_trust (knPath k) (tgName t) ?fp w2)"
    using assms(1-5,9) add
    by (auto simp: handshake_def tlsConfigFor_def pin_of_def verify_callback_def Let_def)
  have ok: "known_ok (knMap k')"
    using known_ok_update [OF assms(6,7) valid_Fingerprint] by (simp add: k'_def)
  from known_Add_Load [OF add ok] obtain m where m: "files w2 (knPath k) = Some (known_text (knMap k'), m)" by blast
  from parse_known_text [OF ok] obtain m' where
    m': "Option.bind (json_parse (known_text (knMap k'))) known_of_json = Some m'" "map_of m' = map_of (knMap k')"
    by blast
  define k2 where "k2 = \<lparr>knPath = knPath k, knMap = m'\<rparr>"
  have "files (tsWorld s1) = files w2" "faults (tsWorld s1) = []"
    using w1(2) by (simp_all add: s1 announce_trust_def Stderr_def w2_def)
  with m m'(1) have load: "LoadKnownAgents (knPath k) (tsWorld s1) = (Inr k2, tsWorld s1)"
    by (simp add: LoadKnownAgents_def quiet_ReadFile k2_def)
  have get: "known_Get k2 n = (if n = tgName t then ?fp else known_Get k n)" for n
    by (simp add: known_Get_def k2_def m'(2) k'_def)
  then have pin: "pin_of t (Some k2) = ?fp" using assms(2) by (simp add: pin_of_def)
  have "fst (handshake (tlsConfigFor x t (Some k2) f) raws2 s2) = None
      \<longleftrightarrow> raws2 \<noteq> [] \<and> Fingerprint (hd raws2) = ?fp" for raws2 f s2
    using assms(1) pin by (simp add: handshake_def tlsConfigFor_def verify_callback_def Let_def)
  with r load get show ?thesis by auto
qed

lemma first_use_is_remembered_witness:
  "\<exists>s1 k2. handshake (tlsConfigFor no_x509 demo_target (Some \<lparr>knPath = ''/k'', knMap = []\<rparr>) (Some (announce_trust ''/k'')))
      [''cert''] \<lparr>tsKnown = Some \<lparr>knPath = ''/k'', knMap = []\<rparr>, tsVerifier = None, tsWorld = quiet_world\<rparr> = (None, s1)
    \<and> LoadKnownAgents ''/k'' (tsWorld s1) = (Inr k2, tsWorld s1)"
proof -
  let ?k = "\<lparr>knPath = ''/k'', knMap = []\<rparr>"
  obtain r s1 where h: "handshake (tlsConfigFor no_x509 demo_target (Some ?k) (Some (announce_trust (knPath ?k))))
      [''cert''] \<lparr>tsKnown = Some ?k, tsVerifier = None, tsWorld = quiet_world\<rparr> = (r, s1)"
    by (metis surj_pair)
  have "verifyAgainstSystemRoots no_x509 demo_target [''cert''] \<noteq> None"
    by (simp add: verifyAgainstSystemRoots_def no_x509_def)
  with first_use_is_remembered [OF _ _ _ _ _ _ _ _ h] h show ?thesis
    by (auto simp: demo_target_def quiet_world_def known_Get_def known_ok_def ascii_def)
qed

text \<open>
  C26: trust on first use fails closed: when the certificate cannot be recorded, the connection is
  refused, and nobody is told that the agent is trusted.
\<close>

theorem first_use_fails_closed:
  assumes "\<not> tgInsecure t" and "pin_of t (Some k) = []" and "raws \<noteq> []"
    and "verifyAgainstSystemRoots x t raws \<noteq> None"
    and "known_Add k (tgName t) (Fingerprint (hd raws)) w = ((Inl err, w'), k')"
  shows "handshake (tlsConfigFor x t (Some k) onTrust) raws \<lparr>tsKnown = Some k, tsVerifier = v, tsWorld = w\<rparr>
    = (Some (Errorf ''record agent fingerprint: %w'' [] (Some err)),
       \<lparr>tsKnown = Some k', tsVerifier = v, tsWorld = w'\<rparr>)"
  using assms by (simp add: handshake_def tlsConfigFor_def verify_callback_def Let_def)

lemma first_use_fails_closed_witness:
  "\<exists>e s'. handshake (tlsConfigFor no_x509 demo_target (Some \<lparr>knPath = ''k'', knMap = []\<rparr>) None) [''cert'']
    \<lparr>tsKnown = Some \<lparr>knPath = ''k'', knMap = []\<rparr>, tsVerifier = None,
      tsWorld = quiet_world\<lparr>faults := [Fault ''read-only'']\<rparr>\<rparr> = (Some e, s')"
proof -
  let ?k = "\<lparr>knPath = ''k'', knMap = []\<rparr>" and ?w = "quiet_world\<lparr>faults := [Fault ''read-only'']\<rparr>"
  have "path_dir ''k'' = ''.''" by code_simp
  then obtain err w' k' where a: "known_Add ?k (tgName demo_target) (Fingerprint (hd [''cert''])) ?w = ((Inl err, w'), k')"
    by (simp add: known_Add_def Let_def io_bind_def make_parent_def wrap_err_def call_defs quiet_world_def)
  have "verifyAgainstSystemRoots no_x509 demo_target [''cert''] \<noteq> None"
    by (simp add: verifyAgainstSystemRoots_def no_x509_def)
  from first_use_fails_closed [OF _ _ _ this a] show ?thesis
    by (auto simp: demo_target_def pin_of_def known_Get_def)
qed

end
