(* ===== verification/Rpc.thy ===== *)
theory Rpc
  imports Prelude
begin

text \<open>
  The generated \<^verbatim>\<open>tunnelsv1connect/tunnel.connect.go\<close>: the names of the procedures, the client stub and
  the handler that stands in for a service without an implementation. A client of the Connect library is
  what it is made of: the HTTP client, the URL of the procedure, and the header that its interceptors set
  on a call. The dispatch of the generated handler is in \<open>Http\<close>.
\<close>

definition TunnelServiceName :: string where
  "TunnelServiceName = ''san.tunnels.v1.TunnelService''"

definition service_path :: string where "service_path = ''/san.tunnels.v1.TunnelService/''"

definition forward_procedure :: string where
  "forward_procedure = ''/san.tunnels.v1.TunnelService/Forward''"

definition ping_procedure :: string where
  "ping_procedure = ''/san.tunnels.v1.TunnelService/Ping''"

lemma procedures_of_service:
  "service_path = ''/'' @ TunnelServiceName @ ''/''" "forward_procedure = service_path @ ''Forward''"
  "ping_procedure = service_path @ ''Ping''"
  by (simp_all add: service_path_def forward_procedure_def ping_procedure_def TunnelServiceName_def)

subsection \<open>The client stub\<close>

record 't rpc_client =
  rpcHTTP :: 't
  rpcURL :: string
  rpcAuthorization :: "bytes option"

record 't tunnel_service_client =
  forward_client :: "'t rpc_client"
  ping_client :: "'t rpc_client"

definition trim_right :: "bytes \<Rightarrow> char \<Rightarrow> bytes" where
  "trim_right s c = rev (dropWhile (\<lambda>x. x = c) (rev s))"

definition NewTunnelServiceClient :: "'t \<Rightarrow> string \<Rightarrow> bytes option \<Rightarrow> 't tunnel_service_client" where
  "NewTunnelServiceClient httpClient baseURL opts =
     (let baseURL = trim_right baseURL (CHR ''/'') in
      \<lparr>forward_client = \<lparr>rpcHTTP = httpClient, rpcURL = baseURL @ forward_procedure, rpcAuthorization = opts\<rparr>,
       ping_client = \<lparr>rpcHTTP = httpClient, rpcURL = baseURL @ ping_procedure, rpcAuthorization = opts\<rparr>\<rparr>)"

text \<open>A call is on the client of its procedure.\<close>

definition call_Forward :: "'t tunnel_service_client \<Rightarrow> 't rpc_client" where
  "call_Forward c = forward_client c"

definition call_Ping :: "'t tunnel_service_client \<Rightarrow> 't rpc_client" where
  "call_Ping c = ping_client c"

subsection \<open>A service without an implementation\<close>

definition Unimplemented_Forward :: go_error where
  "Unimplemented_Forward =
     ConnectErr CodeUnimplemented (errors_new ''san.tunnels.v1.TunnelService.Forward is not implemented'')"

definition Unimplemented_Ping :: go_error where
  "Unimplemented_Ping =
     ConnectErr CodeUnimplemented (errors_new ''san.tunnels.v1.TunnelService.Ping is not implemented'')"

end
