(* ===== verification/Client.thy ===== *)
theory Client
  imports Trust Wsconn Rpc
begin

text \<open>
  \<^verbatim>\<open>internal/client/client.go\<close>, \<^verbatim>\<open>ws.go\<close> and \<^verbatim>\<open>probe.go\<close>: opening a tunnel over either transport,
  and reading an agent's certificate. Parsing a URL and what the network answers are parameters: a
  Connect stream and a WebSocket are scripts, as on the agent's side. The content of the verifier
  cell at the moment it is read is an argument too; \<open>Trust\<close> says how the handshake fills it.
\<close>

subsection \<open>HTTP transports\<close>

record url =
  uScheme :: string
  uHost :: string
  uHostname :: string
  uPort :: string
  uPath :: string
  uQuery :: "(string \<times> string) list"

datatype http_transport =
    H2TLS tls_config
  | H2Cleartext
  | H1Upgrade tls_config

type_synonym url_parser = "string \<Rightarrow> url result"

definition hostOf :: "url_parser \<Rightarrow> string \<Rightarrow> string" where
  "hostOf parse raw = (case parse raw of Inl e \<Rightarrow> '''' | Inr u \<Rightarrow> uHostname u)"

definition httpClient ::
    "url_parser \<Rightarrow> 'c x509 \<Rightarrow> target \<Rightarrow> known_agents option \<Rightarrow> on_trust \<Rightarrow> http_transport result" where
  "httpClient parse x t known onTrust =
     (case parse (tgURL t) of
        Inl e \<Rightarrow> Inl (Errorf ''parse server url %q: %w'' [tgURL t] (Some e))
      | Inr u \<Rightarrow>
          if uScheme u = ''https'' then Inr (H2TLS (tlsConfigFor x t known onTrust))
          else if uScheme u = ''http'' then Inr H2Cleartext
          else Inl (Errorf ''server url %q must be http or https'' [tgURL t] None))"

definition wsHTTPClient :: "'c x509 \<Rightarrow> target \<Rightarrow> known_agents option \<Rightarrow> on_trust \<Rightarrow> http_transport" where
  "wsHTTPClient x t known onTrust = H1Upgrade (wsTLSConfig x t known onTrust)"

text \<open>The header \<^verbatim>\<open>Authorization\<close> that the interceptor \<^verbatim>\<open>bearer\<close> and \<^verbatim>\<open>dialWS\<close> set, if any.\<close>

definition bearer_header :: "bytes \<Rightarrow> bytes option" where
  "bearer_header token = (if token = [] then None else Some (''Bearer '' @ token))"

definition newService ::
    "url_parser \<Rightarrow> 'c x509 \<Rightarrow> target \<Rightarrow> known_agents option \<Rightarrow> on_trust
     \<Rightarrow> http_transport tunnel_service_client result" where
  "newService parse x t known onTrust =
     (case httpClient parse x t known onTrust of
        Inl e \<Rightarrow> Inl e
      | Inr hc \<Rightarrow> Inr (NewTunnelServiceClient hc (tgURL t) (bearer_header (tgToken t))))"

subsection \<open>Open over Connect\<close>

type_synonym client_stream = "(forward_response, forward_request) stream"

definition client_payload :: "forward_response \<Rightarrow> bytes result" where
  "client_payload m = Inr (resp_GetData m)"

definition clientConn :: "target \<Rightarrow> client_stream conn" where
  "clientConn t =
     conn_New \<lparr>Recv = receive_with client_payload, Send = request_send,
       CloseSend = Some stream_CloseRequest, CloseAll = None, Local = ''client'', Remote = tgName t\<rparr>"

definition open_error :: "verifier \<Rightarrow> target \<Rightarrow> string \<Rightarrow> go_error \<Rightarrow> go_error" where
  "open_error v t endpoint err =
     enrich v (Errorf ''open endpoint %q on %s: %w'' [endpoint, tgURL t] (Some err))"

text \<open>\<open>svc\<close> is the outcome of \<open>newService\<close>; \<open>None\<close> as a result: the agent never answers.\<close>

definition openConnect ::
    "'a result \<Rightarrow> verifier \<Rightarrow> target \<Rightarrow> string \<Rightarrow> client_stream \<Rightarrow> (client_stream conn result \<times> client_stream) option" where
  "openConnect svc v t endpoint st =
     (case svc of
        Inl e \<Rightarrow> Some (Inl e, st)
      | Inr c \<Rightarrow>
          (case stream_Send (ReqOpen endpoint) st of
             (Some err, st1) \<Rightarrow> Some (Inl (open_error v t endpoint err), st1)
           | (None, st1) \<Rightarrow>
               (case stream_Receive st1 of
                  None \<Rightarrow> None
                | Some (Inl err, st2) \<Rightarrow> Some (Inl (open_error v t endpoint err), st2)
                | Some (Inr resp, st2) \<Rightarrow>
                    if resp_GetOpened resp = None then
                      Some (Inl (errors_new ''agent did not acknowledge the open request''), st2)
                    else Some (Inr (clientConn t), st2))))"

subsection \<open>Open over a WebSocket\<close>

definition wsURL :: "url_parser \<Rightarrow> string \<Rightarrow> string \<Rightarrow> (string \<times> string) list \<Rightarrow> url result" where
  "wsURL parse raw path qry =
     (case parse raw of
        Inl e \<Rightarrow> Inl (Errorf ''parse server url %q: %w'' [raw] (Some e))
      | Inr u \<Rightarrow>
          if uScheme u = ''https'' \<or> uScheme u = ''wss'' then
            Inr (u\<lparr>uScheme := ''wss'', uPath := path, uQuery := qry\<rparr>)
          else if uScheme u = ''http'' \<or> uScheme u = ''ws'' then
            Inr (u\<lparr>uScheme := ''ws'', uPath := path, uQuery := qry\<rparr>)
          else Inl (Errorf ''server url %q must be http, https, ws or wss'' [raw] None))"

definition handshakeReason :: "(string \<times> bytes) option \<Rightarrow> string" where
  "handshakeReason resp =
     (case resp of
        None \<Rightarrow> ''''
      | Some (status, body) \<Rightarrow>
          let msg = trim_space (take 1024 body) in if msg \<noteq> '''' then status @ '': '' @ msg else status)"

text \<open>
  The network as the dial sees it: for a URL and an authorization header, a socket, or an error with
  the response that came, if one did. \<open>show\<close> is \<^verbatim>\<open>URL.String\<close>.
\<close>

record ws_net =
  ws_dial :: "url \<Rightarrow> bytes option \<Rightarrow> (go_error \<times> (string \<times> bytes) option) + ws"
  url_string :: "url \<Rightarrow> string"

definition dialWS ::
    "url_parser \<Rightarrow> ws_net \<Rightarrow> verifier \<Rightarrow> target \<Rightarrow> string \<Rightarrow> (string \<times> string) list \<Rightarrow> ws result" where
  "dialWS parse net v t path qry =
     (case wsURL parse (tgURL t) path qry of
        Inl e \<Rightarrow> Inl e
      | Inr u \<Rightarrow>
          (case ws_dial net u (bearer_header (tgToken t)) of
             Inr w \<Rightarrow> Inr w
           | Inl (err, resp) \<Rightarrow>
               (case v of
                  Some ve \<Rightarrow> Inl ve
                | None \<Rightarrow>
                    let reason = handshakeReason resp in
                    if reason \<noteq> '''' then Inl (Errorf ''websocket to %s: %s'' [url_string net u, reason] None)
                    else Inl (Errorf ''websocket to %s: %w'' [url_string net u] (Some err)))))"

definition openWS ::
    "url_parser \<Rightarrow> ws_net \<Rightarrow> verifier \<Rightarrow> target \<Rightarrow> string \<Rightarrow> (ws conn \<times> ws) result" where
  "openWS parse net v t endpoint =
     (case dialWS parse net v t Path [(EndpointParam, endpoint)] of
        Inl err \<Rightarrow> Inl (Errorf ''open endpoint %q on %s: %w'' [endpoint, tgURL t] (Some err))
      | Inr w \<Rightarrow> Inr (wsconn_New ''client'' (tgName t) w))"

datatype tunnel =
    ConnectTunnel "client_stream conn" client_stream
  | WSTunnel "ws conn" ws

definition client_Open ::
    "url_parser \<Rightarrow> 'c x509 \<Rightarrow> ws_net \<Rightarrow> known_agents option \<Rightarrow> on_trust \<Rightarrow> verifier \<Rightarrow> target \<Rightarrow> string
     \<Rightarrow> client_stream \<Rightarrow> tunnel result option" where
  "client_Open parse x net known onTrust v t endpoint st =
     (case tgTransport t of
        TransportWS \<Rightarrow>
          Some (case openWS parse net v t endpoint of Inl e \<Rightarrow> Inl e | Inr (c, w) \<Rightarrow> Inr (WSTunnel c w))
      | TransportConnect \<Rightarrow>
          map_option (\<lambda>(r, st'). case r of Inl e \<Rightarrow> Inl e | Inr c \<Rightarrow> Inr (ConnectTunnel c st'))
            (openConnect (newService parse x t known onTrust) v t endpoint st))"

subsection \<open>Probing a certificate\<close>

definition JoinHostPort :: "string \<Rightarrow> string \<Rightarrow> string" where
  "JoinHostPort host port =
     (if CHR '':'' \<in> set host then ''['' @ host @ '']:'' @ port else host @ '':'' @ port)"

text \<open>\<open>dial\<close> is the unverified TLS dial: the certificates the peer presented.\<close>

definition ProbeFingerprint :: "url_parser \<Rightarrow> (string \<Rightarrow> bytes list result) \<Rightarrow> string \<Rightarrow> bytes result" where
  "ProbeFingerprint parse dial raw =
     (case parse raw of
        Inl e \<Rightarrow> Inl (Errorf ''parse server url %q: %w'' [raw] (Some e))
      | Inr u \<Rightarrow>
          if uScheme u = ''http'' \<or> uScheme u = ''ws'' then Inr ''''
          else if uScheme u \<noteq> ''https'' \<and> uScheme u \<noteq> ''wss'' then
            Inl (Errorf ''server url %q must be http, https, ws or wss'' [raw] None)
          else
            let host = (if uPort u = '''' then JoinHostPort (uHostname u) ''443'' else uHost u) in
            (case dial host of
               Inl e \<Rightarrow> Inl (Errorf ''connect to %s: %w'' [host] (Some e))
             | Inr certs \<Rightarrow>
                 if certs = [] then Inl (errors_new ''the server presented no certificate'')
                 else Inr (Fingerprint (hd certs))))"

subsection \<open>The client's conns as ends of a session\<close>

interpretation client: duplex_conn "receive_with client_payload" "stream_script client_payload"
  request_send "sent_data req_GetData" stream_accepts stream_CloseRequest stream_ended
  conn_finish "\<lambda>c. closeSend c = Some stream_CloseRequest"
  by unfold_locales (auto simp: conn_finish_def conn_CloseWrite_def split: prod.splits)

lemma clientConn_start [simp]:
  "recv (clientConn t) = receive_with client_payload" "send (clientConn t) = request_send"
  "closeSend (clientConn t) = Some stream_CloseRequest" "closeAll (clientConn t) = None"
  "rest (clientConn t) = []" "readErr (clientConn t) = None" "writeErr (clientConn t) = None"
  "closed (clientConn t) = False"
  by (simp_all add: clientConn_def conn_New_def)

lemma wsconn_New_start:
  assumes "wsconn_New l r w = (c, w')"
  shows "recv c = ws_recv \<and> send c = ws_send \<and> closeSend c = Some ws_closeSend \<and> closeAll c = Some ws_closeAll
    \<and> rest c = [] \<and> readErr c = None \<and> writeErr c = None \<and> \<not> closed c
    \<and> wsIn w' = wsIn w \<and> wsOut w' = wsOut w \<and> wsErrs w' = wsErrs w \<and> \<not> onceDone w'
    \<and> readLimit w' = Some ReadLimit \<and> keepalive w' = Some (KeepaliveInterval, KeepaliveTimeout)"
  using assms by (auto simp: wsconn_New_def conn_New_def)

end
