(* ===== verification/Connect.thy ===== *)
theory Connect
  imports Client "HOL-Library.Word"
begin

text \<open>
  \<^verbatim>\<open>internal/client/proxy.go\<close>, \<^verbatim>\<open>connect.go\<close> and \<^verbatim>\<open>checkWS\<close> of \<^verbatim>\<open>ws.go\<close>: what the client does
  with a tunnel. \<^verbatim>\<open>Proxy\<close> and \<^verbatim>\<open>splice\<close> are sessions of two pumps (\<open>Pump\<close>): the near end is
  standard input and output, or the local TCP connection; the far end is the tunnel.
\<close>

subsection \<open>Proxy\<close>

text \<open>Upstream the tunnel is half-closed behind the copy; downstream nothing follows it.\<close>

definition proxy_step :: "'c io_ops \<Rightarrow> (sock, 'c) session \<Rightarrow> (sock, 'c) session \<Rightarrow> bool" where
  "proxy_step ops = splice_step sock_ops ops (\<lambda>r. True) (\<lambda>r. False)"

text \<open>
  \<^verbatim>\<open>Proxy\<close> returns when its downstream copy does, whatever the upstream one is doing: its result, and the
  tunnel behind the deferred \<^verbatim>\<open>Close\<close>.
\<close>

definition proxy_return ::
    "('c \<Rightarrow> go_error option \<times> 'c) \<Rightarrow> target \<Rightarrow> (sock, 'c) session \<Rightarrow> (go_error option \<times> 'c) option" where
  "proxy_return close t s =
     (case downPump s of
        Copied r \<Rightarrow>
          Some (case r of
             None \<Rightarrow> None
           | Some e \<Rightarrow> if errors_is e EOF then None
                        else Some (Errorf ''tunnel to %s closed: %w'' [tgName t] (Some e)),
           snd (close (far s)))
      | _ \<Rightarrow> None)"

text \<open>The start of \<^verbatim>\<open>Proxy\<close>: an error, or a session on standard input and output.\<close>

definition proxy_start :: "'c result \<Rightarrow> sock \<Rightarrow> (sock, 'c) session result" where
  "proxy_start opened stdio =
     (case opened of Inl e \<Rightarrow> Inl e | Inr tunnel \<Rightarrow> Inr (session_start stdio tunnel))"

subsection \<open>connect\<close>

definition DefaultListen :: string where "DefaultListen = ''127.0.0.1:0''"
definition HostSuffix :: string where "HostSuffix = ''.tunnels.internal''"

text \<open>
  One character of the alias. The name is lower-cased first, rune by rune; the runes outside ASCII
  whose lower case is an ASCII letter are the Kelvin sign and the capital I with a dot.
\<close>

fun alias_char :: "piece \<Rightarrow> char" where
  "alias_char (Bad c) = CHR ''-''"
| "alias_char (Rune r b) =
     (if 97 \<le> r \<and> r \<le> 122 \<or> 48 \<le> r \<and> r \<le> 57 \<or> r = 45 then char_of r
      else if 65 \<le> r \<and> r \<le> 90 then char_of (r + 32)
      else if r = 8490 then CHR ''k'' else if r = 304 then CHR ''i''
      else CHR ''-'')"

definition HostAlias :: "bytes \<Rightarrow> bytes" where
  "HostAlias name =
     (let b = map alias_char (pieces (trim_suffix name HostSuffix)) in
      if b = [] then ''agent'' @ HostSuffix else b @ HostSuffix)"

text \<open>Two agents can share an alias, and with it a host key entry.\<close>

lemma HostAlias_clash: "HostAlias ''box.1'' = HostAlias ''box-1'' \<and> HostAlias ''Box-1'' = HostAlias ''box-1''"
  by (simp add: HostAlias_def trim_suffix_def HostSuffix_def has_suffix_def ascii_def char_of_def bit_0)

text \<open>
  \<^verbatim>\<open>splice\<close>: the local connection is half-closed when the tunnel ended well. It returns when both
  copies are done.
\<close>

definition ended_well :: "go_error option \<Rightarrow> bool" where
  "ended_well r = (case r of None \<Rightarrow> True | Some e \<Rightarrow> errors_is e EOF)"

definition local_step :: "'c io_ops \<Rightarrow> (sock, 'c) session \<Rightarrow> (sock, 'c) session \<Rightarrow> bool" where
  "local_step ops = splice_step sock_ops ops (\<lambda>r. True) ended_well"

definition splice_returns :: "(sock, 'c) session \<Rightarrow> bool" where
  "splice_returns s \<longleftrightarrow> upPump s = HalfClosed \<and> downPump s = HalfClosed"

text \<open>
  \<^verbatim>\<open>Listen\<close>: the outcome of listening, then of each \<^verbatim>\<open>Accept\<close> in turn. For every connection a tunnel
  is opened (\<open>opened\<close>: the outcomes, in order); where that fails the connection is closed.
\<close>

definition serve_local :: "'c result \<Rightarrow> sock \<Rightarrow> sock + (sock, 'c) session" where
  "serve_local opened lc =
     (case opened of Inl e \<Rightarrow> Inl (sock_Close lc) | Inr tunnel \<Rightarrow> Inr (session_start lc tunnel))"

text \<open>
  When \<^verbatim>\<open>splice\<close> has returned, the deferred calls close the tunnel, then the local connection.
\<close>

definition serve_local_end :: "('c \<Rightarrow> go_error option \<times> 'c) \<Rightarrow> (sock, 'c) session \<Rightarrow> (sock, 'c) session option" where
  "serve_local_end close s =
     (if splice_returns s then Some (s\<lparr>far := snd (close (far s)), near := sock_Close (near s)\<rparr>) else None)"

fun accept_loop ::
    "bool \<Rightarrow> string \<Rightarrow> sock result list \<Rightarrow> 'c result list
     \<Rightarrow> ((sock + (sock, 'c) session) list \<times> go_error option) option" where
  "accept_loop stopped addr [] os = None"
| "accept_loop stopped addr (Inl err # as) os =
     Some ([], if stopped then None else Some (Errorf ''accept on %s: %w'' [addr] (Some err)))"
| "accept_loop stopped addr (Inr l # as) [] = None"
| "accept_loop stopped addr (Inr l # as) (o1 # os) =
     map_option (\<lambda>(ss, r). (serve_local o1 l # ss, r)) (accept_loop stopped addr as os)"

definition Listen ::
    "(string \<Rightarrow> string result) \<Rightarrow> bool \<Rightarrow> string \<Rightarrow> (string \<Rightarrow> world \<Rightarrow> world) \<Rightarrow> sock result list
     \<Rightarrow> 'c result list \<Rightarrow> world \<Rightarrow> (((sock + (sock, 'c) session) list \<times> go_error option) option \<times> world)" where
  "Listen listen stopped addr ready as os w =
     (let addr' = (if addr = '''' then DefaultListen else addr) in
      case listen addr' of
        Inl err \<Rightarrow> (Some ([], Some (Errorf ''listen on %s: %w'' [addr'] (Some err))), w)
      | Inr bound \<Rightarrow> (accept_loop stopped bound as os, ready bound w))"

subsection \<open>Check\<close>

type_synonym ping_stream = "(64 word, 64 word) stream"

definition duplex_advice :: string where
  "duplex_advice =
     ''no reply from %s within %s on round %d of the duplex probe. '' @
     ''The connection was established, so this is usually a proxy in the path '' @
     ''that speaks HTTP/2 to you and HTTP/1.1 to the agent: it buffers the whole '' @
     ''request before forwarding, so full-duplex streams never work.'' @ [CHR 0x0A] @
     ''Fix the path if you can (nginx grpc_pass, an ALB target group with protocol '' @
     ''version HTTP2 or gRPC, backend-protocol: GRPC on an ingress, or an L4 '' @
     ''passthrough such as an NLB).'' @ [CHR 0x0A] @
     ''If you cannot, this agent can use a WebSocket instead: retry with '' @
     ''--transport ws, and set '' @ [CHR 0x22] @ ''transport'' @ [CHR 0x22] @ '': '' @ [CHR 0x22] @ ''ws''
     @ [CHR 0x22] @ '' on %q in the client config '' @ ''to make it stick''"

text \<open>
  The rounds of the probe. \<open>expired\<close> says whether the deadline has passed when a receive fails; a
  receive that would block past the deadline is one that returns an error with \<open>expired\<close> set.
\<close>

fun check_rounds ::
    "bool \<Rightarrow> verifier \<Rightarrow> target \<Rightarrow> string \<Rightarrow> 64 word list \<Rightarrow> ping_stream \<Rightarrow> (go_error option \<times> ping_stream) option" where
  "check_rounds expired v t timeout [] st = Some (None, st)"
| "check_rounds expired v t timeout (i # is) st =
     (case stream_Send i st of
        (Some err, st1) \<Rightarrow>
          Some (Some (enrich v (Errorf ''ping %d to %s: %w'' [utoa (unat i), tgURL t] (Some err))), st1)
      | (None, st1) \<Rightarrow>
          (case stream_Receive st1 of
             None \<Rightarrow> None
           | Some (Inl err, st2) \<Rightarrow>
               if errors_is err DeadlineExceeded \<or> expired then
                 Some (Some (Errorf duplex_advice [tgURL t, timeout, utoa (unat i), tgName t] None), st2)
               else Some (Some (Errorf ''ping %d to %s: %w'' [utoa (unat i), tgURL t] (Some err)), st2)
           | Some (Inr seq, st2) \<Rightarrow>
               if seq \<noteq> i then
                 Some (Some (Errorf ''ping %d to %s: agent replied with seq %d''
                   [utoa (unat i), tgURL t, utoa (unat seq)] None), st2)
               else check_rounds expired v t timeout is st2))"

definition checkConnect ::
    "'a result \<Rightarrow> bool \<Rightarrow> verifier \<Rightarrow> target \<Rightarrow> string \<Rightarrow> ping_stream \<Rightarrow> (go_error option \<times> ping_stream) option" where
  "checkConnect svc expired v t timeout st =
     (case svc of
        Inl e \<Rightarrow> Some (Some e, st)
      | Inr c \<Rightarrow>
          map_option (\<lambda>(r, st'). (r, snd (stream_CloseRequest st')))
            (check_rounds expired v t timeout [1, 2] st))"

fun ws_rounds :: "target \<Rightarrow> char list \<Rightarrow> ws \<Rightarrow> (go_error option \<times> ws) option" where
  "ws_rounds t [] w = Some (ws_Close StatusNormalClosure '''' w)"
| "ws_rounds t (i # is) w =
     (case ws_Write MessageBinary [i] w of
        (Some err, w1) \<Rightarrow>
          Some (Some (Errorf ''websocket probe to %s: send %d: %w'' [tgName t, utoa (of_char i)] (Some err)), w1)
      | (None, w1) \<Rightarrow>
          (case ws_Read w1 of
             None \<Rightarrow> None
           | Some (Inl err, w2) \<Rightarrow>
               Some (Some (Errorf ''websocket probe to %s: receive %d: %w'' [tgName t, utoa (of_char i)] (Some err)), w2)
           | Some (Inr (ty, b), w2) \<Rightarrow>
               if b \<noteq> [i] then Some (Some (errors_new ''websocket probe returned the wrong payload''), w2)
               else ws_rounds t is w2))"

definition checkWS :: "url_parser \<Rightarrow> ws_net \<Rightarrow> verifier \<Rightarrow> target \<Rightarrow> (go_error option \<times> ws option) option" where
  "checkWS parse net v t =
     (case dialWS parse net v t PingPath [] of
        Inl e \<Rightarrow> Some (Some e, None)
      | Inr w \<Rightarrow>
          map_option (\<lambda>(r, w'). (r, Some (snd (ws_CloseNow w')))) (ws_rounds t [CHR 0x01, CHR 0x02] w))"

definition client_Check ::
    "url_parser \<Rightarrow> 'c x509 \<Rightarrow> ws_net \<Rightarrow> known_agents option \<Rightarrow> on_trust \<Rightarrow> verifier \<Rightarrow> target \<Rightarrow> bool \<Rightarrow> string
     \<Rightarrow> ping_stream \<Rightarrow> go_error option option" where
  "client_Check parse x net known onTrust v t expired timeout st =
     (case tgTransport t of
        TransportWS \<Rightarrow> map_option fst (checkWS parse net v t)
      | TransportConnect \<Rightarrow>
          map_option fst (checkConnect (newService parse x t known onTrust) expired v t timeout st))"

subsection \<open>Sessions\<close>

interpretation client_session: splicing sock_ops sock_pending sock_ends "\<lambda>t. True" sockOut sock_open sockFin
  "conn_ops conn_finish" "conn_pending (stream_script client_payload)" "conn_ends (stream_script client_payload)"
  client.conn_inv "\<lambda>s. sent_data req_GetData (snd s)" "conn_writable request_send stream_accepts"
  "\<lambda>s. stream_ended (snd s)"
  by unfold_locales

interpretation client_ws_session: splicing sock_ops sock_pending sock_ends "\<lambda>t. True" sockOut sock_open sockFin
  "conn_ops conn_finish" "conn_pending ws_script" "conn_ends ws_script" ws_client.conn_inv
  "\<lambda>s. ws_sent (snd s)" "conn_writable ws_send ws_accepts" "\<lambda>s. ws_half_closed (snd s)"
  by unfold_locales

lemma client_fresh:
  "sendErrs st = [] \<Longrightarrow> \<not> stream_ended st \<Longrightarrow> sock_open l \<Longrightarrow> \<not> sockFin l \<Longrightarrow>
   client_session.fresh l (clientConn t, st)"
  by (simp add: client_session.fresh_def client.conn_inv_def conn_over_def conn_writable_def stream_accepts_def)

lemma clientConn_pending:
  "conn_pending (stream_script client_payload) (clientConn t, st) = chunks_of (stream_script client_payload st)"
  "conn_ends (stream_script client_payload) (clientConn t, st) = end_of (stream_script client_payload st)"
  by (simp_all add: conn_pending_def conn_ends_def)

subsection \<open>Properties\<close>

text \<open>
  A forwarded local connection over Connect. In every interleaving of its two copies, each side
  has at any time received a prefix of what the other sent, and its end of input only behind all of
  it. If both sides end their streams, the session cannot get stuck before it returns, its runs are
  bounded, and when it returns everything has been delivered both ways, the tunnel is half-closed,
  and the local connection is half-closed exactly when the tunnel ended in good order. Both are closed then.
\<close>

theorem local_session_Connect:
  assumes "sendErrs st = []" and "\<not> stream_ended st" and "sock_open l"
    and "sent_data req_GetData st = []" and "sockOut l = []"
    and "sock_ends l = Some e1" and "end_of (stream_script client_payload st) = Some e2"
    and "(local_step (conn_ops conn_finish))\<^sup>*\<^sup>* (session_start l (clientConn t, st)) s"
  shows "(\<exists>more. sock_pending l = sent_data req_GetData (snd (far s)) @ more
        \<and> (stream_ended (snd (far s)) \<longrightarrow> more = []))
    \<and> (\<exists>more. chunks_of (stream_script client_payload st) = sockOut (near s) @ more
        \<and> (sockFin (near s) \<longrightarrow> more = []))
    \<and> (\<exists>s'. (local_step (conn_ops conn_finish))\<^sup>*\<^sup>* s s' \<and> splice_returns s')
    \<and> (\<exists>bound. \<forall>n s'. (local_step (conn_ops conn_finish) ^^ n) s s' \<longrightarrow> n \<le> bound)
    \<and> (splice_returns s \<longrightarrow>
        sent_data req_GetData (snd (far s)) = sock_pending l \<and> stream_ended (snd (far s))
        \<and> sockOut (near s) = chunks_of (stream_script client_payload st)
        \<and> sockFin (near s) = ended_well (copy_result e2)
        \<and> (\<exists>s'. serve_local_end conn_Close s = Some s' \<and> closed (fst (far s')) \<and> sockClosed (near s')
             \<and> sockOut (near s') = sockOut (near s)))"
proof -
  have "\<not> sockFin l" using assms(3) by (simp add: sock_open_def)
  note fresh = client_fresh [OF assms(1-3) this, of t]
  have inv: "client_session.session_inv (\<lambda>r. True) ended_well l (clientConn t, st) s"
    using client_session.session_inv_reach [OF fresh] assms(8) by (simp add: local_step_def)
  have ends: "sock_ends l \<noteq> None" "conn_ends (stream_script client_payload) (clientConn t, st) \<noteq> None"
    using assms(6,7) by (simp_all add: clientConn_pending)
  note pre = client_session.session_prefixes [OF inv]
  note done_ = client_session.session_completes [OF inv ends]
  have bound: "\<exists>bound. \<forall>n s'. (local_step (conn_ops conn_finish) ^^ n) s s' \<longrightarrow> n \<le> bound"
    using client_session.session_run_bound [OF inv] unfolding local_step_def by (meson le_add1 le_trans)
  have final: "sent_data req_GetData (snd (far s)) = sock_pending l \<and> stream_ended (snd (far s))
        \<and> sockOut (near s) = chunks_of (stream_script client_payload st)
        \<and> sockFin (near s) = ended_well (copy_result e2)" if "splice_returns s"
    using client_session.session_final [OF inv] that assms(4,5,7)
    by (auto simp: splice_returns_def clientConn_pending)
  show ?thesis
    using pre done_ bound final assms(4,5) conn_Close_closed [of "far s"]
    by (simp add: local_step_def splice_returns_def clientConn_pending serve_local_end_def sock_Close_def)
qed

definition demo_client_stream :: client_stream where
  "demo_client_stream = \<lparr>inbox = [Inr (RespData ''ok''), Inl EOF], outbox = [Msg (ReqOpen ''db'')], sendErrs = []\<rparr>"

definition demo_local :: sock where
  "demo_local = \<lparr>sockIn = [''hi''], sockEnd = Some EOF, sockOut = [], sockErrs = [], sockFin = False, sockClosed = False\<rparr>"

lemma local_session_Connect_witness:
  "\<exists>s'. (local_step (conn_ops conn_finish))\<^sup>*\<^sup>*
      (session_start demo_local (clientConn demo_target, demo_client_stream)) s' \<and> splice_returns s'"
proof -
  have "end_of (stream_script client_payload demo_client_stream) = Some EOF"
    by (simp add: demo_client_stream_def stream_script_def map_result_def client_payload_def normalize_def)
  from local_session_Connect [OF _ _ _ _ _ _ this rtranclp.rtrancl_refl, of demo_local EOF demo_target] show ?thesis
    by (simp add: demo_client_stream_def demo_local_def stream_ended_def sock_open_def sent_data_def sock_ends_def)
qed

text \<open>
  C27: \<^verbatim>\<open>Proxy\<close> returns only when all the tunnel delivered is on standard output. It returns without
  an error exactly when the tunnel ended with end of file; any other end is the error it reports. The
  tunnel is closed in either case.
\<close>

theorem proxy_delivers:
  assumes "sendErrs st = []" and "\<not> stream_ended st" and "sock_open stdio" and "sockOut stdio = []"
    and "(proxy_step (conn_ops conn_finish))\<^sup>*\<^sup>* (session_start stdio (clientConn t, st)) s"
    and "proxy_return conn_Close t s = Some (r, c)"
  shows "sockOut (near s) = chunks_of (stream_script client_payload st)
    \<and> (\<exists>e. end_of (stream_script client_payload st) = Some e
        \<and> r = (if e = EOF then None else Some (Errorf ''tunnel to %s closed: %w'' [tgName t] (Some e))))
    \<and> closed (fst c)"
proof -
  have "\<not> sockFin stdio" using assms(3) by (simp add: sock_open_def)
  note fresh = client_fresh [OF assms(1-3) this, of t]
  have inv: "client_session.session_inv (\<lambda>r. True) (\<lambda>r. False) stdio (clientConn t, st) s"
    using client_session.session_inv_reach [OF fresh] assms(5) by (simp add: proxy_step_def)
  obtain q where q: "downPump s = Copied q"
    using assms(6) by (auto simp: proxy_return_def split: pump.splits)
  obtain e where e: "end_of (stream_script client_payload st) = Some e" "q = copy_result e"
    using client_session.session_down_copied [OF inv q] by (auto simp: clientConn_pending)
  have "e = EOF \<or> \<not> errors_is e EOF"
  proof -
    have "normalize err = EOF \<or> \<not> errors_is (normalize err) EOF" for err by (simp add: normalize_def)
    moreover have "end_of sc = Some e \<Longrightarrow> \<exists>err. e = normalize err" for sc
      by (induction sc rule: end_of.induct) auto
    ultimately show ?thesis using e(1) by metis
  qed
  moreover have "closed (fst c)" using assms(6) q conn_Close_closed [of "far s"] by (auto simp: proxy_return_def)
  ultimately show ?thesis using client_session.session_down_copied [OF inv q] assms(4,6) q e
    by (auto simp: clientConn_pending proxy_return_def copy_result_def split: if_splits)
qed

lemma proxy_delivers_witness:
  "\<exists>s. (proxy_step (conn_ops conn_finish))\<^sup>*\<^sup>*
        (session_start demo_local (clientConn demo_target, \<lparr>inbox = [Inl EOF], outbox = [], sendErrs = []\<rparr>)) s
      \<and> (\<exists>c. proxy_return conn_Close demo_target s = Some (None, c) \<and> closed (fst c)) \<and> sockOut (near s) = []"
proof -
  let ?st = "\<lparr>inbox = [Inl EOF], outbox = [], sendErrs = []\<rparr> :: client_stream"
  let ?s0 = "session_start demo_local (clientConn demo_target, ?st)"
  let ?x = "((clientConn demo_target)\<lparr>readErr := Some EOF\<rparr>, \<lparr>inbox = [], outbox = [], sendErrs = []\<rparr> :: client_stream)"
  have "pump_step (conn_ops conn_finish) sock_ops (\<lambda>r. False) (Reading, (clientConn demo_target, ?st), demo_local)
      = Some (Copied None, ?x, demo_local)"
    apply (simp add: pump_step_def conn_ops_def conn_Read_def)
    apply (subst read_loop.simps)
    apply (simp add: stream_defs)
    apply (simp add: map_result_def normalize_def after_read_def copy_next_def copy_result_def)
    done
  then have "splice_step sock_ops (conn_ops conn_finish) (\<lambda>r. True) (\<lambda>r. False) ?s0
      (?s0\<lparr>downPump := Copied None, far := ?x, near := demo_local\<rparr>)"
    by (intro splice_step.down) (simp add: session_start_def)
  then have step: "(proxy_step (conn_ops conn_finish))\<^sup>*\<^sup>* ?s0
      (?s0\<lparr>downPump := Copied None, far := ?x, near := demo_local\<rparr>)"
    by (auto simp: proxy_step_def)
  have ret: "proxy_return conn_Close demo_target (?s0\<lparr>downPump := Copied None, far := ?x, near := demo_local\<rparr>)
      = Some (None, snd (conn_Close ?x))"
    by (simp add: proxy_return_def)
  from proxy_delivers [OF _ _ _ _ step ret]
  have "sockOut (near (?s0\<lparr>downPump := Copied None, far := ?x, near := demo_local\<rparr>)) = [] \<and> closed (fst (snd (conn_Close ?x)))"
    by (simp add: stream_defs demo_local_def sock_open_def map_result_def)
  with step ret show ?thesis by blast
qed

text \<open>
  C23: opening a tunnel over Connect gives a connection only when the first message of the agent is
  \<open>Opened\<close>; exactly the one message \<open>Open\<close> with the endpoint has then been sent, and nothing of the
  payload consumed. When the handshake was refused, that refusal is the error, on either transport,
  whatever error the transport reported.
\<close>

theorem open_acknowledged:
  assumes "openConnect svc v t endpoint st = Some (r, st')"
  shows "(case r of
      Inr c \<Rightarrow> c = clientConn t \<and> inbox st = Inr RespOpened # inbox st'
        \<and> outbox st' = outbox st @ [Msg (ReqOpen endpoint)]
    | Inl e \<Rightarrow> \<not> isl svc \<longrightarrow> v \<noteq> None \<longrightarrow>
        e = the v \<or> e = errors_new ''agent did not acknowledge the open request'')
    \<and> (v \<noteq> None \<longrightarrow> wsURL parse (tgURL t) path qry = Inr u \<longrightarrow> isl (ws_dial net u (bearer_header (tgToken t)))
        \<longrightarrow> dialWS parse net v t path qry = Inl (the v))"
proof -
  have opened: "resp_GetOpened m \<noteq> None \<longleftrightarrow> m = RespOpened" for m by (cases m) auto
  have "dialWS parse net v t path qry = Inl (the v)"
    if "v \<noteq> None" "wsURL parse (tgURL t) path qry = Inr u" "isl (ws_dial net u (bearer_header (tgToken t)))"
    using that by (auto simp: dialWS_def isl_def)
  moreover have "case r of
      Inr c \<Rightarrow> c = clientConn t \<and> inbox st = Inr RespOpened # inbox st'
        \<and> outbox st' = outbox st @ [Msg (ReqOpen endpoint)]
    | Inl e \<Rightarrow> \<not> isl svc \<longrightarrow> v \<noteq> None \<longrightarrow>
        e = the v \<or> e = errors_new ''agent did not acknowledge the open request''"
  proof -
    have err: "v \<noteq> None \<Longrightarrow> open_error v t endpoint e = the v" for e by (auto simp: open_error_def enrich_def)
    obtain se st1 where s: "stream_Send (ReqOpen endpoint) st = (se, st1)" by (metis surj_pair)
    have s1: "se = None \<Longrightarrow> inbox st1 = inbox st \<and> outbox st1 = outbox st @ [Msg (ReqOpen endpoint)]"
      using s by (auto simp: stream_Send_def stream_emit_def split: list.splits option.splits)
    consider (svc) "isl svc" | (send) "\<not> isl svc" "se \<noteq> None" | (go) c where "svc = Inr c" "se = None"
      by (cases svc) auto
    then show ?thesis
    proof cases
      case svc
      with assms show ?thesis by (auto simp: openConnect_def isl_def)
    next
      case send
      with assms s err show ?thesis by (cases svc) (auto simp: openConnect_def)
    next
      case go
      with assms s have o: "(case stream_Receive st1 of
            None \<Rightarrow> None
          | Some (Inl err, st2) \<Rightarrow> Some (Inl (open_error v t endpoint err), st2)
          | Some (Inr resp, st2) \<Rightarrow>
              if resp_GetOpened resp = None then
                Some (Inl (errors_new ''agent did not acknowledge the open request''), st2)
              else Some (Inr (clientConn t), st2)) = Some (r, st')"
        by (simp add: openConnect_def)
      then obtain x xs where x: "inbox st1 = x # xs" "stream_Receive st1 = Some (x, st1\<lparr>inbox := xs\<rparr>)"
        by (cases "inbox st1") (simp_all add: stream_Receive_def)
      with o s1 [OF go(2)] opened err show ?thesis
        by (cases x) (auto split: if_splits)
    qed
  qed
  ultimately show ?thesis by blast
qed

lemma open_acknowledged_witness:
  "openConnect (Inr ()) (Some (OsErr ''pin'')) demo_target ''db'' \<lparr>inbox = [Inl EOF], outbox = [], sendErrs = []\<rparr>
     = Some (Inl (OsErr ''pin''), \<lparr>inbox = [], outbox = [Msg (ReqOpen ''db'')], sendErrs = []\<rparr>)"
proof -
  obtain r st' where o: "openConnect (Inr ()) (Some (OsErr ''pin'')) demo_target ''db''
      \<lparr>inbox = [Inl EOF], outbox = [], sendErrs = []\<rparr> = Some (r, st')"
    by (simp add: openConnect_def stream_Send_def stream_emit_def stream_Receive_def)
  with open_acknowledged [OF this] show ?thesis
    by (simp add: openConnect_def stream_Send_def stream_emit_def stream_Receive_def open_error_def enrich_def)
qed

text \<open>
  A probe over Connect that succeeds has made two full round trips on an open stream: it received
  the answer to the first ping before it sent the second. It succeeds exactly when the agent's
  messages begin with the two numbers; a path that holds the first answer back until the deadline is
  reported as half-duplex, with the advice, after one ping.
\<close>

theorem check_is_duplex:
  assumes "sendErrs st = []" and "outbox st = []"
  shows "(checkConnect (Inr c) expired v t timeout st = Some (None, st') \<longleftrightarrow>
      (\<exists>ms. inbox st = Inr 1 # Inr 2 # ms
        \<and> st' = \<lparr>inbox = ms, outbox = [Msg 1, Msg 2, CloseReq], sendErrs = []\<rparr>))
    \<and> (\<forall>err ms. inbox st = Inl err # ms \<longrightarrow> errors_is err DeadlineExceeded \<or> expired \<longrightarrow>
        checkConnect (Inr c) expired v t timeout st =
          Some (Some (Errorf duplex_advice [tgURL t, timeout, ''1'', tgName t] None),
            \<lparr>inbox = ms, outbox = [Msg 1, CloseReq], sendErrs = []\<rparr>))"
proof -
  obtain i where st: "st = \<lparr>inbox = i, outbox = [], sendErrs = []\<rparr>" using assms by (cases st) auto
  have "char_of (code CHR ''1'') = CHR ''1''" by (rule char_of_code)
  then have one: "utoa (Suc 0) = ''1''" by (simp add: utoa.simps digit_char_def)
  have emit: "stream_emit m \<lparr>inbox = a, outbox = b, sendErrs = []\<rparr> = (None, \<lparr>inbox = a, outbox = b @ [m], sendErrs = []\<rparr>)"
    for m a and b :: "64 word sent_event list" by (simp add: stream_emit_def)
  note sim = checkConnect_def stream_Send_def emit stream_Receive_def stream_CloseRequest_def
  have "checkConnect (Inr c) expired v t timeout st = Some (None, st') \<longleftrightarrow>
      (\<exists>ms. inbox st = Inr 1 # Inr 2 # ms
        \<and> st' = \<lparr>inbox = ms, outbox = [Msg 1, Msg 2, CloseReq], sendErrs = []\<rparr>)"
  proof (cases i)
    case (Cons x xs)
    show ?thesis
    proof (cases xs)
      case (Cons y ys)
      with \<open>i = x # xs\<close> show ?thesis
        by (cases x; cases y) (auto simp: sim st)
    qed (use \<open>i = x # xs\<close> in \<open>cases x; auto simp: sim st\<close>)
  qed (simp add: sim st)
  moreover have "checkConnect (Inr c) expired v t timeout st =
          Some (Some (Errorf duplex_advice [tgURL t, timeout, ''1'', tgName t] None),
            \<lparr>inbox = ms, outbox = [Msg 1, CloseReq], sendErrs = []\<rparr>)"
    if "inbox st = Inl err # ms" "errors_is err DeadlineExceeded \<or> expired" for err ms
    using that by (simp add: sim st one)
  ultimately show ?thesis by blast
qed

lemma check_is_duplex_witness:
  "checkConnect (Inr ()) False None demo_target ''10s'' \<lparr>inbox = [Inl DeadlineExceeded], outbox = [], sendErrs = []\<rparr>
     = Some (Some (Errorf duplex_advice [tgURL demo_target, ''10s'', ''1'', tgName demo_target] None),
         \<lparr>inbox = [], outbox = [Msg 1, CloseReq], sendErrs = []\<rparr>)"
  using check_is_duplex [of "\<lparr>inbox = [Inl DeadlineExceeded], outbox = [], sendErrs = []\<rparr>" "()" False None demo_target "''10s''"]
  by simp

end
