(* ===== verification/Service.thy ===== *)
theory Service
  imports Wsconn "HOL-Library.Word"
begin

text \<open>
  \<^verbatim>\<open>internal/agent/service.go\<close>: the handlers of the tunnel service. A handler either returns, or goes
  on running: in the SSH server, which has been handed the connection, or in the session that copies
  between the connection and a dialled socket. What it has come to is a value of \<open>handled\<close>; the
  running session is a state of \<open>splice_step\<close>, and the handler returns from it when its downstream
  copy is done.

  Dialling is a parameter: the outcome for an address. The state of the embedded SSH server is the
  type parameter \<open>'h\<close>.
\<close>

definition ShellEndpoint :: string where "ShellEndpoint = ''shell''"

record 'h service =
  ssh :: 'h
  endpoints :: "(string \<times> string) list"

definition copy_map :: "(string \<times> 'v) list \<Rightarrow> (string \<times> 'v) list \<Rightarrow> (string \<times> 'v) list" where
  "copy_map src dst = fold (\<lambda>(k, v). AList.update k v) src dst"

definition NewService :: "'h option \<Rightarrow> (string \<times> string) list \<Rightarrow> 'h service result" where
  "NewService sshServer eps =
     (case sshServer of
        None \<Rightarrow> Inl (errors_new ''an ssh server is required'')
      | Some h \<Rightarrow>
          if map_of eps ShellEndpoint \<noteq> None then
            Inl (Errorf ''endpoint %q is reserved for the embedded ssh server'' [ShellEndpoint] None)
          else Inr \<lparr>ssh = h, endpoints = copy_map eps []\<rparr>)"

definition Endpoints :: "'h service \<Rightarrow> (string \<times> string) list" where
  "Endpoints s = copy_map (endpoints s) [(ShellEndpoint, ''embedded ssh server (in-process)'')]"

definition Resolve :: "'h service \<Rightarrow> string \<Rightarrow> string result" where
  "Resolve s name =
     (if name = ShellEndpoint then Inr ''''
      else case map_of (endpoints s) name of
        None \<Rightarrow> Inl (Errorf ''endpoint %q is not in the allowlist'' [name] None)
      | Some addr \<Rightarrow> Inr addr)"

subsection \<open>Handle\<close>

datatype 'c handled =
    Returned "go_error option" 'c "sock option"
  | InShell 'c
  | Splicing "('c, sock) session"

type_synonym 'c ack = "('c \<Rightarrow> go_error option \<times> 'c) option"

definition run_ack :: "'c ack \<Rightarrow> 'c \<Rightarrow> go_error option \<times> 'c" where
  "run_ack ack c = (case ack of None \<Rightarrow> (None, c) | Some f \<Rightarrow> f c)"

definition handleShell :: "'c ack \<Rightarrow> 'c \<Rightarrow> 'c handled" where
  "handleShell ack c =
     (case run_ack ack c of
        (Some err, c') \<Rightarrow> Returned (Some err) c' None
      | (None, c') \<Rightarrow> InShell c')"

definition handleTCP :: "(string \<Rightarrow> sock result) \<Rightarrow> 'c ack \<Rightarrow> string \<Rightarrow> string \<Rightarrow> 'c \<Rightarrow> 'c handled" where
  "handleTCP dial ack name addr c =
     (case dial addr of
        Inl err \<Rightarrow>
          Returned (Some (ConnectErr CodeUnavailable
            (Errorf ''dial endpoint %q at %s: %w'' [name, addr] (Some err)))) c None
      | Inr tcp \<Rightarrow>
          (case run_ack ack c of
             (Some err, c') \<Rightarrow> Returned (Some err) c' (Some (sock_Close tcp))
           | (None, c') \<Rightarrow> Splicing (session_start c' tcp)))"

definition Handle ::
    "'h service \<Rightarrow> (string \<Rightarrow> sock result) \<Rightarrow> string \<Rightarrow> 'c ack \<Rightarrow> 'c \<Rightarrow> 'c handled" where
  "Handle s dial endpoint ack c =
     (case Resolve s endpoint of
        Inl err \<Rightarrow> Returned (Some (ConnectErr CodeNotFound err)) c None
      | Inr addr \<Rightarrow>
          if addr = '''' then handleShell ack c else handleTCP dial ack endpoint addr c)"

text \<open>
  The session of \<^verbatim>\<open>handleTCP\<close>. Upstream (conn to socket) the socket is always half-closed behind
  the copy; downstream the end of the copy is the return of the handler, which closes the socket
  (\<open>handler_return\<close>: the deferred \<^verbatim>\<open>Close\<close>) and ends the response stream (\<open>fin_op\<close> of the conn). The code
  does the first before the second. In the model the end has yet to travel to the client, which may happen
  after the close, so the code's order is among its runs; so are runs in which the upstream copy goes on a little.
\<close>

definition tcp_step :: "'c io_ops \<Rightarrow> ('c, sock) session \<Rightarrow> ('c, sock) session \<Rightarrow> bool" where
  "tcp_step ops = splice_step ops sock_ops (\<lambda>r. True) (\<lambda>r. True)"

definition handler_return :: "('c, sock) session \<Rightarrow> 'c handled option" where
  "handler_return s =
     (if downPump s = HalfClosed then Some (Returned None (near s) (Some (sock_Close (far s)))) else None)"

subsection \<open>Forward and Ping\<close>

definition server_payload :: "forward_request \<Rightarrow> bytes result" where
  "server_payload m =
     (case req_GetOpen m of
        Some n \<Rightarrow> Inl (ConnectErr CodeInvalidArgument
          (errors_new ''received a second `open` on an established stream''))
      | None \<Rightarrow> Inr (req_GetData m))"

type_synonym server_stream = "(forward_request, forward_response) stream"

definition serverConn :: "string \<Rightarrow> server_stream conn" where
  "serverConn peer =
     conn_New \<lparr>Recv = receive_with server_payload, Send = response_send, CloseSend = None,
       CloseAll = None, Local = ''agent'', Remote = peer\<rparr>"

definition sendOpened :: "server_stream \<Rightarrow> go_error option \<times> server_stream" where
  "sendOpened = stream_Send RespOpened"

definition forward_ack :: "(server_stream conn \<times> server_stream) ack" where
  "forward_ack = Some (\<lambda>(c, st). case sendOpened st of (r, st') \<Rightarrow> (r, c, st'))"

definition Forward ::
    "'h service \<Rightarrow> (string \<Rightarrow> sock result) \<Rightarrow> string \<Rightarrow> server_stream
     \<Rightarrow> (server_stream conn \<times> server_stream) handled option" where
  "Forward s dial peer st =
     (case stream_Receive st of
        None \<Rightarrow> None
      | Some (Inl err, st') \<Rightarrow>
          Some (Returned (if errors_is err EOF then None else Some err) (serverConn peer, st') None)
      | Some (Inr first, st') \<Rightarrow>
          (case req_GetOpen first of
             None \<Rightarrow>
               Some (Returned (Some (ConnectErr CodeInvalidArgument
                 (errors_new ''the first message on a Forward stream must be `open`'')))
                 (serverConn peer, st') None)
           | Some endpoint \<Rightarrow> Some (Handle s dial endpoint forward_ack (serverConn peer, st'))))"

partial_function (option) Ping ::
    "(64 word, 64 word) stream \<Rightarrow> (go_error option \<times> (64 word, 64 word) stream) option" where
  "Ping st =
     (case stream_Receive st of
        None \<Rightarrow> None
      | Some (r, st') \<Rightarrow>
          (case r of
             Inl err \<Rightarrow> Some (if errors_is err EOF then None else Some err, st')
           | Inr seq \<Rightarrow>
               (case stream_Send seq st' of
                  (Some err, st'') \<Rightarrow> Some (Some err, st'')
                | (None, st'') \<Rightarrow> Ping st'')))"

subsection \<open>The agent's conn as an end of a session\<close>

text \<open>The return of the handler of a Forward stream ends the response stream.\<close>

definition forward_finish :: "server_stream conn \<times> server_stream \<Rightarrow> server_stream conn \<times> server_stream" where
  "forward_finish s = (fst s, snd (stream_CloseRequest (snd s)))"

interpretation server: duplex_conn "receive_with server_payload" "stream_script server_payload"
  response_send "sent_data resp_GetData" stream_accepts stream_CloseRequest stream_ended
  forward_finish "\<lambda>c. True"
  by unfold_locales (simp_all add: forward_finish_def)

interpretation forward_session: splicing "conn_ops forward_finish" "conn_pending (stream_script server_payload)"
  "conn_ends (stream_script server_payload)" server.conn_inv "\<lambda>s. sent_data resp_GetData (snd s)"
  "conn_writable response_send stream_accepts" "\<lambda>s. stream_ended (snd s)"
  sock_ops sock_pending sock_ends "\<lambda>t. True" sockOut sock_open sockFin
  by unfold_locales

interpretation ws_session: splicing "conn_ops ws_finish" "conn_pending ws_script" "conn_ends ws_script"
  ws_server.conn_inv "\<lambda>s. ws_sent (snd s)" "conn_writable ws_send ws_accepts" "\<lambda>s. ws_close_sent (snd s)"
  sock_ops sock_pending sock_ends "\<lambda>t. True" sockOut sock_open sockFin
  by unfold_locales

interpretation server_to_sock: copying conn_Read "conn_pending (stream_script server_payload)"
  "conn_ends (stream_script server_payload)" "conn_over (receive_with server_payload)" sock_Write sockOut sock_open
  by unfold_locales (use sock.dst.wr_all in \<open>simp add: sock_ops_def\<close>)

subsection \<open>Lemmas\<close>

lemma map_of_copy_map: "map_of (copy_map src dst) = map_of dst ++ map_of (rev src)"
  by (induction src arbitrary: dst) (auto simp: copy_map_def fun_eq_iff map_add_def split: option.splits)

lemma serverConn_start [simp]:
  "recv (serverConn peer) = receive_with server_payload" "send (serverConn peer) = response_send"
  "rest (serverConn peer) = []" "readErr (serverConn peer) = None" "writeErr (serverConn peer) = None"
  by (simp_all add: serverConn_def conn_New_def)

lemma server_fresh:
  "sendErrs st = [] \<Longrightarrow> \<not> stream_ended st \<Longrightarrow> sock_open t \<Longrightarrow> forward_session.fresh (serverConn peer, st) t"
  by (simp add: forward_session.fresh_def server.conn_inv_def conn_over_def conn_writable_def
      stream_accepts_def sock_open_def)

lemma serverConn_pending:
  "conn_pending (stream_script server_payload) (serverConn peer, st)
     = chunks_of (map (map_result server_payload) (inbox st))"
  by (simp add: conn_pending_def stream_script_def)

text \<open>What a handler has come to, by its cases.\<close>

lemma Handle_cases:
  obtains (missing) err where "Resolve s ep = Inl err"
      "Handle s dial ep ack c = Returned (Some (ConnectErr CodeNotFound err)) c None"
  | (refused) addr err where "map_of (endpoints s) ep = Some addr" "dial addr = Inl err"
      "Handle s dial ep ack c = Returned (Some (ConnectErr CodeUnavailable
         (Errorf ''dial endpoint %q at %s: %w'' [ep, addr] (Some err)))) c None"
  | (unacked) err c' t where "run_ack ack c = (Some err, c')"
      "Handle s dial ep ack c = Returned (Some err) c' t"
  | (shell) c' where "Resolve s ep = Inr ''''" "run_ack ack c = (None, c')"
      "Handle s dial ep ack c = InShell c'"
  | (tcp) addr t c' where "map_of (endpoints s) ep = Some addr" "dial addr = Inr t"
      "run_ack ack c = (None, c')" "Handle s dial ep ack c = Splicing (session_start c' t)"
  by (cases "Resolve s ep"; cases "fst (run_ack ack c)"; cases "run_ack ack c")
    (fastforce simp: Handle_def handleShell_def handleTCP_def Resolve_def split: if_splits option.splits sum.splits)+

subsection \<open>Properties\<close>

text \<open>
  C12: an endpoint that is not on the allowlist is refused with the code NotFound before anything
  happens: nothing is dialled or acknowledged and the connection is untouched. For any endpoint, the
  only addresses whose dialling can influence the handler are those on the allowlist.
\<close>

theorem Handle_allowlist:
  assumes "name \<noteq> ShellEndpoint" and "name \<notin> fst ` set (endpoints s)"
    and "\<And>addr. addr \<in> snd ` set (endpoints s) \<Longrightarrow> dial addr = dial' addr"
  shows "(\<exists>err. Handle s dial name ack c = Returned (Some (ConnectErr CodeNotFound err)) c None)
    \<and> Handle s dial ep ack c = Handle s dial' ep ack c"
proof
  have "map_of (endpoints s) name = None" using assms(2) by (simp add: map_of_eq_None_iff)
  with assms(1) show "\<exists>err. Handle s dial name ack c = Returned (Some (ConnectErr CodeNotFound err)) c None"
    by (simp add: Handle_def Resolve_def)
  have "dial addr = dial' addr" if "map_of (endpoints s) ep = Some addr" for addr
    using map_of_SomeD [OF that] assms(3) by force
  then show "Handle s dial ep ack c = Handle s dial' ep ack c"
    by (auto simp: Handle_def Resolve_def handleTCP_def split: option.splits)
qed

definition demo_sock :: sock where
  "demo_sock = \<lparr>sockIn = [''hi''], sockEnd = Some EOF, sockOut = '''', sockErrs = [], sockFin = False,
     sockClosed = False\<rparr>"

definition demo_service :: "unit service" where
  "demo_service = \<lparr>ssh = (), endpoints = [(''db'', ''127.0.0.1:5432'')]\<rparr>"

definition demo_stream :: server_stream where
  "demo_stream = \<lparr>inbox = [Inr (ReqOpen ''db''), Inr (ReqData ''ab''), Inl EOF], outbox = [], sendErrs = []\<rparr>"

lemma Handle_allowlist_witness:
  "(\<exists>err. Handle demo_service (\<lambda>a. Inr demo_sock) ''x'' None () = Returned (Some (ConnectErr CodeNotFound err)) () None)
   \<and> Handle demo_service (\<lambda>a. Inr demo_sock) ''db'' None ()
     = Handle demo_service (\<lambda>a. if a = ''127.0.0.1:5432'' then Inr demo_sock else Inl EOF) ''db'' None ()"
  by (rule Handle_allowlist) (auto simp: demo_service_def ShellEndpoint_def)

text \<open>
  C24: the acknowledgement of a Forward stream is sent exactly when the endpoint is open. A handler
  that returns an error has sent nothing; one that runs has sent the one message \<open>Opened\<close> and no
  payload, has consumed the one message \<open>Open\<close>, and, for a TCP endpoint, is connected to the address
  the allowlist gives for the name that was asked for.
\<close>

theorem Forward_acknowledges:
  assumes "outbox st = []" and "Forward s dial peer st = Some h"
  shows "case h of
      Returned r c t \<Rightarrow> outbox (snd c) = []
    | InShell c \<Rightarrow> outbox (snd c) = [Msg RespOpened]
        \<and> (\<exists>ep. inbox st = Inr (ReqOpen ep) # inbox (snd c) \<and> Resolve s ep = Inr '''')
    | Splicing ss \<Rightarrow> outbox (snd (near ss)) = [Msg RespOpened]
        \<and> (\<exists>ep addr. inbox st = Inr (ReqOpen ep) # inbox (snd (near ss))
             \<and> (ep, addr) \<in> set (endpoints s) \<and> dial addr = Inr (far ss))"
proof -
  from assms(2) obtain r st' where rcv: "inbox st = r # inbox st'" "outbox st' = []" "sendErrs st' = sendErrs st"
      and f: "Forward s dial peer st = (case r of
          Inl err \<Rightarrow> Some (Returned (if errors_is err EOF then None else Some err) (serverConn peer, st') None)
        | Inr first \<Rightarrow> (case req_GetOpen first of
             None \<Rightarrow> Some (Returned (Some (ConnectErr CodeInvalidArgument
                 (errors_new ''the first message on a Forward stream must be `open`'')))
                 (serverConn peer, st') None)
           | Some ep \<Rightarrow> Some (Handle s dial ep forward_ack (serverConn peer, st'))))"
  proof -
    from assms(2) obtain r rs where i: "inbox st = r # rs"
      by (cases "inbox st") (auto simp: Forward_def stream_Receive_def)
    show thesis
      by (rule that [of r "st\<lparr>inbox := rs\<rparr>"]) (simp_all add: i assms(1) Forward_def stream_Receive_def)
  qed
  show ?thesis
  proof (cases "\<exists>ep. r = Inr (ReqOpen ep)")
    case False
    with f assms(2) rcv show ?thesis
      by (cases r; cases "projr r") auto
  next
    case True
    then obtain ep where r: "r = Inr (ReqOpen ep)" by blast
    with f assms(2) have h: "h = Handle s dial ep forward_ack (serverConn peer, st')" by simp
    have ack: "outbox (snd c') = (if r' = None then [Msg RespOpened] else []) \<and> inbox (snd c') = inbox st'"
      if "run_ack forward_ack (serverConn peer, st') = (r', c')" for r' c'
      using that rcv(2) by (auto simp: run_ack_def forward_ack_def sendOpened_def stream_Send_def stream_emit_def
          split: list.splits option.splits)
    show ?thesis
    proof (cases rule: Handle_cases [of s ep dial forward_ack "(serverConn peer, st')"])
      case (tcp addr t c')
      with h ack [OF tcp(3)] rcv(1) r map_of_SomeD [OF tcp(1)] show ?thesis
        by (auto simp: session_start_def)
    next
      case (shell c')
      with h ack [OF shell(2)] rcv(1) r show ?thesis by auto
    next
      case (unacked err c' t)
      with h ack [OF unacked(1)] show ?thesis by simp
    qed (use h rcv(2) in simp_all)
  qed
qed

lemma Forward_acknowledges_witness:
  "\<exists>ss. Forward demo_service (\<lambda>a. Inr demo_sock) ''p'' demo_stream = Some (Splicing ss)
     \<and> outbox (snd (near ss)) = [Msg RespOpened]"
proof -
  have "\<exists>ss. Forward demo_service (\<lambda>a. Inr demo_sock) ''p'' demo_stream = Some (Splicing ss)"
    by (simp add: Forward_def stream_Receive_def demo_stream_def Handle_def Resolve_def demo_service_def
        ShellEndpoint_def handleTCP_def run_ack_def forward_ack_def sendOpened_def stream_Send_def stream_emit_def)
  with Forward_acknowledges [of demo_stream demo_service "\<lambda>a. Inr demo_sock" "''p''"] show ?thesis
    by (auto simp: demo_stream_def)
qed

text \<open>
  A running TCP session over Connect, in whatever order its two copies are scheduled, has
  written to the socket a prefix of the payload the client sent and to the client a prefix of what
  the socket sent. The socket sees the end of input only behind all of the payload, and the client's
  stream ends only behind all of the socket's output.
\<close>

theorem forward_session_safe:
  fixes t :: sock
  assumes "sendErrs st = []" and "\<not> stream_ended st" and "sock_open t"
    and "sent_data resp_GetData st = []" and "sockOut t = []"
    and "(tcp_step (conn_ops forward_finish))\<^sup>*\<^sup>* (session_start (serverConn peer, st) t) s"
  shows "(\<exists>more. chunks_of (map (map_result server_payload) (inbox st)) = sockOut (far s) @ more
        \<and> (sockFin (far s) \<longrightarrow> more = []))
    \<and> (\<exists>more. sock_pending t = sent_data resp_GetData (snd (near s)) @ more
        \<and> (stream_ended (snd (near s)) \<longrightarrow> more = []))"
proof -
  have inv: "forward_session.session_inv (\<lambda>r. True) (\<lambda>r. True) (serverConn peer, st) t s"
    using forward_session.session_inv_reach [OF server_fresh [OF assms(1-3)]] assms(6)
    by (simp add: tcp_step_def)
  note u = conjunct1 [OF inv [unfolded forward_session.session_inv_def]]
  note d = conjunct2 [OF inv [unfolded forward_session.session_inv_def]]
  from forward_session.up.flow_written [OF u] forward_session.up.flow_finned [OF u]
    forward_session.down.flow_written [OF d] forward_session.down.flow_finned [OF d] assms(4,5)
  show ?thesis by (auto simp: serverConn_pending)
qed


lemma forward_session_safe_witness:
  "let st = demo_stream\<lparr>inbox := tl (inbox demo_stream)\<rparr>; s = session_start (serverConn ''p'', st) demo_sock in
   (\<exists>more. chunks_of (map (map_result server_payload) (inbox st)) = sockOut (far s) @ more
        \<and> (sockFin (far s) \<longrightarrow> more = []))
    \<and> (\<exists>more. sock_pending demo_sock = sent_data resp_GetData (snd (near s)) @ more
        \<and> (stream_ended (snd (near s)) \<longrightarrow> more = []))"
  unfolding Let_def
  by (rule forward_session_safe [OF _ _ _ _ _ rtranclp.rtrancl_refl])
    (simp_all add: demo_stream_def demo_sock_def stream_ended_def sock_open_def sent_data_def)

text \<open>
  A second \<open>Open\<close> on an established stream is an error. Copying the stream to a connection
  delivers the payload in front of it, and nothing behind it, and then fails with InvalidArgument.
\<close>

theorem server_second_open:
  assumes "inbox st = map (\<lambda>b. Inr (ReqData b)) bs @ Inr (ReqOpen x) # later" and "sock_open t"
  shows "\<exists>s' t'. io_copy conn_Read sock_Write (serverConn peer, st) t
      = Some (Some (ConnectErr CodeInvalidArgument
          (errors_new ''received a second `open` on an established stream'')), s', t')
    \<and> sockOut t' = sockOut t @ concat bs"
proof -
  let ?e = "ConnectErr CodeInvalidArgument (errors_new ''received a second `open` on an established stream'')"
  have script: "stream_script server_payload st
      = map Inr bs @ Inl ?e # map (map_result server_payload) later"
    using assms(1) by (simp add: stream_script_def map_result_def server_payload_def comp_def)
  then have "conn_pending (stream_script server_payload) (serverConn peer, st) = concat bs"
    "conn_ends (stream_script server_payload) (serverConn peer, st) = Some ?e"
    by (simp_all add: conn_pending_def conn_ends_def normalize_def)
  with server_to_sock.copy_all [of "(serverConn peer, st)" ?e t] assms(2) show ?thesis
    by (auto simp: conn_over_def)
qed

lemma server_second_open_witness:
  "\<exists>s' t'. io_copy conn_Read sock_Write (serverConn ''p'',
        \<lparr>inbox = [Inr (ReqData ''ab''), Inr (ReqOpen ''x''), Inr (ReqData ''c'')], outbox = [], sendErrs = []\<rparr>)
        demo_sock
      = Some (Some (ConnectErr CodeInvalidArgument
          (errors_new ''received a second `open` on an established stream'')), s', t')
    \<and> sockOut t' = ''ab''"
  using server_second_open [of "\<lparr>inbox = [Inr (ReqData ''ab''), Inr (ReqOpen ''x''), Inr (ReqData ''c'')],
      outbox = [], sendErrs = []\<rparr>" "[''ab'']" "''x''" "[Inr (ReqData ''c'')]" demo_sock "''p''"]
  by (simp add: demo_sock_def sock_open_def)

text \<open>
  Ping answers each request with its own sequence number, in order, and returns without an
  error when the client ends its side. An error of the stream is returned after the answers in
  front of it.
\<close>

theorem Ping_echoes:
  assumes "inbox st = map Inr seqs @ [Inl err]" and "sendErrs st = []"
  shows "Ping st = Some (if errors_is err EOF then None else Some err,
    st\<lparr>inbox := [], outbox := outbox st @ map Msg seqs\<rparr>)"
  using assms
proof (induction seqs arbitrary: st)
  case Nil
  then show ?case by (subst Ping.simps) (simp add: stream_Receive_def)
next
  case (Cons q seqs)
  then have "Ping st = Ping (st\<lparr>inbox := map Inr seqs @ [Inl err], outbox := outbox st @ [Msg q]\<rparr>)"
    by (subst Ping.simps) (simp add: stream_Receive_def stream_Send_def stream_emit_def)
  with Cons show ?case by simp
qed

lemma Ping_echoes_witness:
  "Ping \<lparr>inbox = [Inr 1, Inr 2, Inl EOF], outbox = [], sendErrs = []\<rparr>
    = Some (None, \<lparr>inbox = [], outbox = [Msg 1, Msg 2], sendErrs = []\<rparr>)"
  using Ping_echoes [of "\<lparr>inbox = [Inr 1, Inr 2, Inl EOF], outbox = [], sendErrs = []\<rparr>" "[1, 2]" EOF] by simp


end
