(* ===== verification/Http.thy ===== *)
theory Http
  imports Service Rpc
begin

text \<open>
  The agent's HTTP side: \<^verbatim>\<open>Handler\<close> and its middleware in \<^verbatim>\<open>internal/agent/http.go\<close>, the
  WebSocket handlers of \<^verbatim>\<open>internal/agent/ws.go\<close>, and the dispatch of the generated
  \<^verbatim>\<open>NewTunnelServiceHandler\<close>.

  A handler maps a request to what serves it: an error reply, or one of the doors. The routing of
  \<^verbatim>\<open>http.ServeMux\<close> is written out for the patterns registered here. The h2c wrapper is a parameter:
  what it makes of a request before it calls the handler it wraps.
\<close>

record request =
  protoMajor :: nat
  proto :: string
  urlPath :: string
  query :: "(string \<times> string) list"
  authorization :: string
  reqRemote :: string

datatype reply =
    HttpError nat go_error
  | Redirect string
  | NotFoundPage
  | ForwardDoor
  | PingDoor
  | WsDoor
  | WsPingDoor

type_synonym handler = "request \<Rightarrow> reply"

definition is_door :: "reply \<Rightarrow> bool" where
  "is_door r \<longleftrightarrow> r \<in> {ForwardDoor, PingDoor, WsDoor, WsPingDoor}"

lemma is_door_simps [simp]:
  "is_door ForwardDoor" "is_door PingDoor" "is_door WsDoor" "is_door WsPingDoor"
  "\<not> is_door (HttpError n e)" "\<not> is_door (Redirect p)" "\<not> is_door NotFoundPage"
  by (simp_all add: is_door_def)

subsection \<open>Routing\<close>

text \<open>The generated handler of the service.\<close>

definition tunnel_service_handler :: handler where
  "tunnel_service_handler r =
     (if urlPath r = forward_procedure then ForwardDoor
      else if urlPath r = ping_procedure then PingDoor
      else NotFoundPage)"

definition NewTunnelServiceHandler :: "string \<times> handler" where
  [simp]: "NewTunnelServiceHandler = (service_path, tunnel_service_handler)"

text \<open>
  The mux redirects a path that is not clean, and one that lacks only the final slash of a
  registered subtree; it then takes the exact pattern, or the subtree the path is in.
\<close>

definition mux_clean :: "string \<Rightarrow> string" where
  "mux_clean p =
     (if p = '''' then ''/''
      else let q = (if hd p = CHR ''/'' then p else CHR ''/'' # p); np = path_clean q
           in if last q = CHR ''/'' \<and> np \<noteq> ''/'' then np @ ''/'' else np)"

definition mux :: handler where
  "mux r =
     (let (path, h) = NewTunnelServiceHandler in
      if mux_clean (urlPath r) \<noteq> urlPath r then Redirect (mux_clean (urlPath r))
      else if urlPath r = Path then WsDoor
      else if urlPath r = PingPath then WsPingDoor
      else if has_prefix (urlPath r) path then h r
      else if urlPath r @ ''/'' = path then Redirect path
      else NotFoundPage)"

subsection \<open>Middleware\<close>

definition bearer_prefix :: string where "bearer_prefix = ''Bearer ''"

definition requireToken :: "string \<Rightarrow> handler \<Rightarrow> handler" where
  "requireToken token next r =
     (if token = '''' then next r
      else if trim_prefix (authorization r) bearer_prefix \<noteq> token then
        HttpError 401 (errors_new ''unauthorized'')
      else next r)"

definition requireHTTP2 :: "handler \<Rightarrow> handler" where
  "requireHTTP2 next r =
     (if has_prefix (urlPath r) Path then next r
      else if protoMajor r < 2 then
        HttpError 505 (Errorf (''san_tunnels requires HTTP/2, but this request arrived as %s. '' @
          ''Something in front of the agent is downgrading the connection, '' @
          ''which makes full-duplex streams impossible.'') [proto r] None)
      else next r)"

record handler_options =
  hoToken :: string
  hoH2C :: bool

definition Handler :: "(request \<Rightarrow> request) \<Rightarrow> handler_options \<Rightarrow> handler" where
  "Handler h2c o' =
     (let handler = requireHTTP2 (requireToken (hoToken o') mux)
      in if hoH2C o' then (\<lambda>r. handler (h2c r)) else handler)"

subsection \<open>The WebSocket door\<close>

datatype ws_served =
    WsRefused nat go_error
  | WsNotUpgraded
  | WsServed "(ws conn \<times> ws) handled"

text \<open>\<^verbatim>\<open>Query().Get\<close> of the endpoint parameter, with its default.\<close>

definition ws_endpoint :: "request \<Rightarrow> string" where
  "ws_endpoint r =
     (case map_of (query r) EndpointParam of
        None \<Rightarrow> ShellEndpoint
      | Some ep \<Rightarrow> if ep = '''' then ShellEndpoint else ep)"

definition wsHandler ::
    "'h service \<Rightarrow> (string \<Rightarrow> sock result) \<Rightarrow> (request \<Rightarrow> ws result) \<Rightarrow> request \<Rightarrow> ws_served" where
  "wsHandler s dial accept r =
     (let endpoint = ws_endpoint r in
      case Resolve s endpoint of
        Inl err \<Rightarrow> WsRefused 404 err
      | Inr addr \<Rightarrow>
          (case accept r of
             Inl err \<Rightarrow> WsNotUpgraded
           | Inr w \<Rightarrow> WsServed (Handle s dial endpoint None (wsconn_NewServer (reqRemote r) w))))"

text \<open>How the door leaves the socket once \<^verbatim>\<open>Handle\<close> has returned.\<close>

definition ws_leave :: "go_error option \<Rightarrow> ws \<Rightarrow> ws" where
  "ws_leave err w =
     (let w' = (case err of
          Some e \<Rightarrow> snd (ws_Close StatusInternalError ''tunnel failed'' w)
        | None \<Rightarrow> snd (ws_Close StatusNormalClosure '''' w))
      in snd (ws_CloseNow w'))"

definition isOrderlyClose :: "go_error \<Rightarrow> bool" where
  "isOrderlyClose err =
     (case close_status err of
        Some st \<Rightarrow> st = StatusNormalClosure \<or> st = StatusGoingAway \<or> errors_is err ErrBodyNotAllowed
      | None \<Rightarrow> errors_is err ErrBodyNotAllowed)"

partial_function (option) ws_ping_loop :: "ws \<Rightarrow> ws option" where
  "ws_ping_loop w =
     (case ws_Read w of
        None \<Rightarrow> None
      | Some (r, w') \<Rightarrow>
          (case r of
             Inl err \<Rightarrow>
               Some (if isOrderlyClose err then snd (ws_Close StatusNormalClosure '''' w') else w')
           | Inr (typ, b) \<Rightarrow>
               (case ws_Write typ b w' of
                  (Some err, w'') \<Rightarrow> Some w''
                | (None, w'') \<Rightarrow> ws_ping_loop w'')))"

text \<open>The probe: not upgraded, or the socket it leaves behind (\<open>None\<close>: it goes on).\<close>

definition wsPingHandler :: "(request \<Rightarrow> ws result) \<Rightarrow> request \<Rightarrow> ws result option" where
  "wsPingHandler accept r =
     (case accept r of
        Inl err \<Rightarrow> Some (Inl err)
      | Inr w \<Rightarrow>
          map_option (\<lambda>w'. Inr (snd (ws_CloseNow w'))) (ws_ping_loop (w\<lparr>readLimit := Some ReadLimit\<rparr>)))"

subsection \<open>Properties\<close>

text \<open>
  C11: no door opens without the bearer token, when one is set; and only the WebSocket doors open to a
  request that did not arrive over HTTP/2. This holds behind the h2c wrapper too, whatever it makes
  of the request.
\<close>

theorem Handler_guards:
  assumes "is_door (Handler h2c opts r)" and "r' = (if hoH2C opts then h2c r else r)"
  shows "(hoToken opts = '''' \<or> authorization r' = bearer_prefix @ hoToken opts
        \<or> authorization r' = hoToken opts)
    \<and> (protoMajor r' < 2 \<longrightarrow> Handler h2c opts r \<in> {WsDoor, WsPingDoor})"
proof -
  have h: "Handler h2c opts r = requireHTTP2 (requireToken (hoToken opts) mux) r'"
    using assms(2) by (simp add: Handler_def)
  have door: "\<not> is_door (HttpError n e)" for n e by simp
  have tok: "hoToken opts = '''' \<or> trim_prefix (authorization r') bearer_prefix = hoToken opts"
    using assms(1) h by (auto simp: requireHTTP2_def requireToken_def split: if_splits)
  moreover have "mux r' \<in> {WsDoor, WsPingDoor}" if "has_prefix (urlPath r') Path" "is_door (mux r')"
  proof -
    have "\<not> has_prefix (urlPath r') service_path"
      using that(1) by (auto simp: has_prefix_iff Path_def service_path_def)
    with that(2) show ?thesis by (auto simp: mux_def split: if_splits)
  qed
  ultimately show ?thesis
    using assms(1) h
    by (auto simp: requireHTTP2_def requireToken_def trim_prefix_def has_prefix_iff split: if_splits)
qed

definition demo_request :: request where
  "demo_request = \<lparr>protoMajor = 1, proto = ''HTTP/1.1'', urlPath = Path, query = [], authorization = ''Bearer t'',
     reqRemote = ''r''\<rparr>"

lemma Handler_guards_witness:
  "authorization demo_request = bearer_prefix @ ''t''
   \<and> Handler (\<lambda>r. r) \<lparr>hoToken = ''t'', hoH2C = False\<rparr> demo_request \<in> {WsDoor, WsPingDoor}"
proof -
  have "is_door (Handler (\<lambda>r. r) \<lparr>hoToken = ''t'', hoH2C = False\<rparr> demo_request)" by code_simp
  from Handler_guards [OF this refl] show ?thesis by (simp add: demo_request_def)
qed

text \<open>
  The doors are there: with the right token, or none configured, the procedures of the service
  are served over HTTP/2, the tunnel upgrade and its probe over any version, and a request for the
  service over HTTP/1 is refused with status 505 rather than left hanging, whatever its token.
\<close>

theorem Handler_serves:
  assumes "hoToken opts = '''' \<or> authorization r = bearer_prefix @ hoToken opts" and "\<not> hoH2C opts"
  shows "Handler h2c opts (r\<lparr>urlPath := Path\<rparr>) = WsDoor
    \<and> Handler h2c opts (r\<lparr>urlPath := PingPath\<rparr>) = WsPingDoor
    \<and> (if 2 \<le> protoMajor r
        then Handler h2c opts (r\<lparr>urlPath := forward_procedure\<rparr>) = ForwardDoor
          \<and> Handler h2c opts (r\<lparr>urlPath := ping_procedure\<rparr>) = PingDoor
        else \<exists>e. Handler h2c opts (r\<lparr>urlPath := forward_procedure\<rparr>) = HttpError 505 e)"
proof -
  have clean: "mux_clean Path = Path" "mux_clean PingPath = PingPath"
    "mux_clean forward_procedure = forward_procedure" "mux_clean ping_procedure = ping_procedure"
    by code_simp+
  have paths: "PingPath \<noteq> Path" "forward_procedure \<noteq> Path" "forward_procedure \<noteq> PingPath"
    "ping_procedure \<noteq> Path" "ping_procedure \<noteq> PingPath" "ping_procedure \<noteq> forward_procedure"
    "has_prefix forward_procedure service_path" "has_prefix ping_procedure service_path"
    "has_prefix Path Path" "has_prefix PingPath Path"
    "\<not> has_prefix forward_procedure Path" "\<not> has_prefix ping_procedure Path"
    by code_simp+
  have tok: "requireToken (hoToken opts) mux (r\<lparr>urlPath := p\<rparr>) = mux (r\<lparr>urlPath := p\<rparr>)" for p
    using assms(1) by (auto simp: requireToken_def)
  show ?thesis
    using assms(2) by (simp add: Handler_def requireHTTP2_def tok mux_def clean paths tunnel_service_handler_def)
qed

lemma Handler_serves_witness:
  "\<exists>e. Handler (\<lambda>r. r) \<lparr>hoToken = ''t'', hoH2C = False\<rparr> (demo_request\<lparr>urlPath := forward_procedure\<rparr>) = HttpError 505 e"
  using Handler_serves [of "\<lparr>hoToken = ''t'', hoH2C = False\<rparr>" demo_request "\<lambda>r. r"]
  by (simp add: demo_request_def bearer_prefix_def)

text \<open>
  The WebSocket door refuses an endpoint that is not on the allowlist with status 404 and without
  an upgrade, whatever the library would have made of it; and where it upgrades, it serves the
  endpoint that was asked for, \<open>shell\<close> when none was.
\<close>

theorem wsHandler_resolves_first:
  "wsHandler s dial accept r =
     (if ws_endpoint r = ShellEndpoint \<or> ws_endpoint r \<in> fst ` set (endpoints s) then
        (if isl (accept r) then WsNotUpgraded
         else WsServed (Handle s dial (ws_endpoint r) None (wsconn_NewServer (reqRemote r) (projr (accept r)))))
      else WsRefused 404 (Errorf ''endpoint %q is not in the allowlist'' [ws_endpoint r] None))"
proof -
  have "ws_endpoint r \<in> fst ` set (endpoints s) \<longleftrightarrow> map_of (endpoints s) (ws_endpoint r) \<noteq> None"
    by (simp add: map_of_eq_None_iff)
  then show ?thesis
    by (cases "map_of (endpoints s) (ws_endpoint r)") (simp_all add: wsHandler_def Resolve_def Let_def split: sum.splits)
qed

text \<open>
  The WebSocket probe sends back every message as it came, in order; after an orderly close of
  the peer it closes the socket in turn.
\<close>

theorem wsPing_echoes:
  assumes "accept r = Inr w" and "wsIn w = map Inr ms @ [Inl err]" and "wsErrs w = []" and "wsOut w = []"
  shows "\<exists>w'. wsPingHandler accept r = Some (Inr w')
    \<and> wsOut w' = map (\<lambda>(ty, b). Frame ty b) ms
        @ (if isOrderlyClose err then [CloseFrame StatusNormalClosure ''''] else []) @ [CloseNow]"
proof -
  have "\<exists>w'. ws_ping_loop w = Some w' \<and> wsErrs w' = [] \<and> wsOut w' = wsOut w @ map (\<lambda>(ty, b). Frame ty b) ms
        @ (if isOrderlyClose err then [CloseFrame StatusNormalClosure ''''] else [])"
    if "wsIn w = map Inr ms @ [Inl err]" "wsErrs w = []" for w
    using that
  proof (induction ms arbitrary: w)
    case Nil
    then show ?case
      by (subst ws_ping_loop.simps) (simp add: ws_Read_def ws_Close_def ws_emit_def)
  next
    case (Cons m ms)
    obtain ty b where m: "m = (ty, b)" by (cases m)
    with Cons.prems have "ws_ping_loop w
        = ws_ping_loop (w\<lparr>wsIn := map Inr ms @ [Inl err], wsOut := wsOut w @ [Frame ty b]\<rparr>)"
      by (subst ws_ping_loop.simps) (simp add: ws_Read_def ws_Write_def ws_emit_def)
    with Cons.IH [of "w\<lparr>wsIn := map Inr ms @ [Inl err], wsOut := wsOut w @ [Frame ty b]\<rparr>"] Cons.prems(2) m
    show ?case by auto
  qed
  from this [of "w\<lparr>readLimit := Some ReadLimit\<rparr>"] assms show ?thesis
    by (auto simp: wsPingHandler_def ws_CloseNow_def ws_emit_def)
qed

definition demo_ws :: ws where
  "demo_ws = \<lparr>wsIn = [Inr (MessageBinary, ''1''), Inl (CloseErr 1000)], wsOut = [], wsErrs = [],
     readLimit = None, onceDone = False, cancelled = False, keepalive = None\<rparr>"

lemma wsPing_echoes_witness:
  "\<exists>w'. wsPingHandler (\<lambda>r. Inr demo_ws) demo_request = Some (Inr w')
     \<and> wsOut w' = [Frame MessageBinary ''1'', CloseFrame StatusNormalClosure '''', CloseNow]"
proof -
  have "isOrderlyClose (CloseErr 1000)" by (simp add: isOrderlyClose_def StatusNormalClosure_def)
  with wsPing_echoes [of "\<lambda>r. Inr demo_ws" demo_request demo_ws "[(MessageBinary, ''1'')]" "CloseErr 1000"]
  show ?thesis by (simp add: demo_ws_def)
qed

end
