(* ===== verification/Tunnel.thy ===== *)
theory Tunnel
  imports Connect Http
begin

text \<open>
  Both ends of a tunnel put together: what a client writes through its conn, what the transport
  delivers of it, and what the agent's session makes of that. The lemmas say what a client's writes
  leave in the log of either transport, and what state the agent's handler reaches from it.
\<close>

subsection \<open>What the client sends\<close>

definition data_requests :: "bytes list \<Rightarrow> forward_request list" where
  "data_requests bs = map ReqData (filter (\<lambda>b. b \<noteq> []) bs)"

lemma stream_write_msgs:
  assumes "writeErr c = None" and "send c = request_send" and "sendErrs st = []"
  shows "write_seq conn_Write bs (c, st) = (None, c, st\<lparr>outbox := outbox st @ map Msg (data_requests bs)\<rparr>)"
  using assms
proof (induction bs arbitrary: st)
  case (Cons b bs)
  then show ?case
    by (cases "b = []") (simp_all add: conn_Write_def data_requests_def request_send_def stream_Send_def stream_emit_def)
qed (simp add: data_requests_def)

lemma client_sends:
  assumes "sendErrs st = []" and "write_seq conn_Write bs (clientConn t, st) = (e1, c1, st1)"
    and "conn_CloseWrite (c1, st1) = (e2, c2, st2)"
  shows "e1 = None \<and> e2 = None \<and> outbox st2 = outbox st @ map Msg (data_requests bs) @ [CloseReq]"
  using assms stream_write_msgs [of "clientConn t" st bs]
  by (auto simp: conn_CloseWrite_def stream_CloseRequest_def stream_emit_def)

lemma server_script:
  "map (map_result server_payload) (deliver (map Msg (data_requests bs) @ [CloseReq]))
     = map Inr (filter (\<lambda>b. b \<noteq> []) bs) @ [Inl EOF]"
  by (simp only: deliver_append_msgs)
    (simp add: data_requests_def comp_def map_result_def server_payload_def)

subsection \<open>What the agent makes of it\<close>

lemma Handle_dials:
  assumes "map_of (endpoints svc) ep = Some addr" and "ep \<noteq> ShellEndpoint" and "addr \<noteq> []" and "dial addr = Inr tcp"
  shows "Handle svc dial ep ack c =
    (case run_ack ack c of
       (Some err, c') \<Rightarrow> Returned (Some err) c' (Some (sock_Close tcp))
     | (None, c') \<Rightarrow> Splicing (session_start c' tcp))"
  using assms by (simp add: Handle_def Resolve_def handleTCP_def)

lemma Forward_starts:
  assumes "map_of (endpoints svc) ep = Some addr" and "ep \<noteq> ShellEndpoint" and "addr \<noteq> []" and "dial addr = Inr tcp"
  shows "Forward svc dial peer \<lparr>inbox = Inr (ReqOpen ep) # ms, outbox = [], sendErrs = []\<rparr>
    = Some (Splicing (session_start (serverConn peer, \<lparr>inbox = ms, outbox = [Msg RespOpened], sendErrs = []\<rparr>) tcp))"
  by (simp add: Forward_def stream_Receive_def Handle_dials [where dial = dial and addr = addr, OF assms] run_ack_def forward_ack_def
      sendOpened_def stream_Send_def stream_emit_def)

lemma forward_upstream:
  assumes "sock_open tcp" and "sockOut tcp = []"
    and "(tcp_step (conn_ops forward_finish))\<^sup>*\<^sup>*
      (session_start (serverConn peer, \<lparr>inbox = ms, outbox = [Msg RespOpened], sendErrs = []\<rparr>) tcp) s"
  shows "\<exists>more. chunks_of (map (map_result server_payload) ms) = sockOut (far s) @ more
    \<and> (sockFin (far s) \<longrightarrow> more = [])"
proof -
  let ?st = "\<lparr>inbox = ms, outbox = [Msg RespOpened], sendErrs = []\<rparr>"
  have fresh: "forward_session.fresh (serverConn peer, ?st) tcp"
    using assms(1) by (intro server_fresh) (simp_all add: stream_ended_def)
  have inv: "forward_session.session_inv (\<lambda>r. True) (\<lambda>r. True) (serverConn peer, ?st) tcp s"
    using forward_session.session_inv_reach [OF fresh] assms(3) by (simp add: tcp_step_def)
  note u = conjunct1 [OF inv [unfolded forward_session.session_inv_def]]
  from forward_session.up.flow_written [OF u] forward_session.up.flow_finned [OF u] assms(2)
  show ?thesis by (auto simp: serverConn_pending)
qed

text \<open>The WebSocket conn of the agent.\<close>

interpretation ws_to_sock: copying conn_Read "conn_pending ws_script" "conn_ends ws_script" "conn_over ws_recv"
  sock_Write sockOut sock_open
  by unfold_locales (use sock.dst.wr_all in \<open>simp add: sock_ops_def\<close>)

lemma ws_server_start:
  "wsconn_NewServer peer w = (c, w') \<Longrightarrow>
   recv c = ws_recv \<and> send c = ws_send \<and> rest c = [] \<and> readErr c = None \<and> writeErr c = None
   \<and> wsIn w' = wsIn w \<and> wsOut w' = wsOut w \<and> wsErrs w' = wsErrs w \<and> onceDone w' = onceDone w"
  by (auto simp: wsconn_NewServer_def conn_New_def)

lemma ws_upstream:
  assumes "wsconn_NewServer peer w = (c, w')" and "wsErrs w = []" and "wsOut w = []" and "\<not> onceDone w"
    and "sock_open tcp" and "sockOut tcp = []"
    and "(tcp_step (conn_ops ws_finish))\<^sup>*\<^sup>* (session_start (c, w') tcp) s"
  shows "\<exists>more. chunks_of (ws_script w) = sockOut (far s) @ more \<and> (sockFin (far s) \<longrightarrow> more = [])"
proof -
  note c = ws_server_start [OF assms(1)]
  have fresh: "ws_session.fresh (c, w') tcp"
    unfolding ws_session.fresh_def using assms c
    by (simp add: ws_server.conn_inv_def conn_over_def conn_writable_def ws_accepts_def
        ws_close_sent_def sock_open_def)
  have inv: "ws_session.session_inv (\<lambda>r. True) (\<lambda>r. True) (c, w') tcp s"
    using ws_session.session_inv_reach [OF fresh] assms(7) by (simp add: tcp_step_def)
  note u = conjunct1 [OF inv [unfolded ws_session.session_inv_def]]
  have "conn_pending ws_script (c, w') = chunks_of (ws_script w)"
    using c by (simp add: conn_pending_def ws_script_def)
  with ws_session.up.flow_written [OF u] ws_session.up.flow_finned [OF u] assms(6)
  show ?thesis by auto
qed

lemma ws_client_sends:
  assumes "wsconn_New l r w = (c, w0)" and "wsErrs w = []" and "wsOut w = []"
    and "write_seq conn_Write bs (c, w0) = (e1, c1, w1)" and "conn_CloseWrite (c1, w1) = (e2, c2, w2)"
  shows "e1 = None \<and> e2 = None
    \<and> wsOut w2 = map (Frame MessageBinary) (filter (\<lambda>b. b \<noteq> []) bs) @ [Frame MessageText closeWrite]"
proof -
  note c = wsconn_New_start [OF assms(1)]
  from c assms(2-4) have "e1 = None" "c1 = c" "w1 = w0\<lparr>wsOut := map (Frame MessageBinary) (filter (\<lambda>b. b \<noteq> []) bs)\<rparr>"
    using ws_write_frames [of c w0 bs] by auto
  with c assms(2,5) show ?thesis
    by (auto simp: conn_CloseWrite_def ws_closeSend_def ws_Write_def ws_emit_def)
qed

lemma ws_server_script:
  assumes "\<And>b. b \<in> set bs \<Longrightarrow> length b \<le> lim" and "12 \<le> lim"
  shows "map ws_chunk (ws_deliver lim (map (Frame MessageBinary) (filter (\<lambda>b. b \<noteq> []) bs) @ [Frame MessageText closeWrite]))
    = map Inr (filter (\<lambda>b. b \<noteq> []) bs) @ [Inl EOF]"
proof -
  have "length closeWrite \<le> lim" using assms(2) by (simp add: closeWrite_def)
  moreover have "\<forall>b \<in> set (filter (\<lambda>b. b \<noteq> []) bs). length b \<le> lim" using assms(1) by simp
  ultimately show ?thesis by (simp add: ws_deliver_frames comp_def)
qed

subsection \<open>Properties\<close>

text \<open>
  A tunnel over Connect, end to end. What a client writes and then half-closes reaches the agent,
  which dials the endpoint, acknowledges, and splices: in every interleaving the target has received a
  prefix of what was written, and its end of input only behind all of it; the agent's upstream copy
  on its own delivers all of it and ends without an error.
\<close>

theorem tunnel_delivers_Connect:
  assumes "map_of (endpoints svc) ep = Some addr" and "ep \<noteq> ShellEndpoint" and "addr \<noteq> []"
    and "dial addr = Inr tcp" and "sock_open tcp" and "sockOut tcp = []"
    and "sendErrs st = []" and "outbox st = [Msg (ReqOpen ep)]"
    and "write_seq conn_Write bs (clientConn t, st) = (e1, c1, st1)" and "conn_CloseWrite (c1, st1) = (e2, c2, st2)"
  shows "e1 = None \<and> e2 = None
    \<and> (\<exists>s0. Forward svc dial peer \<lparr>inbox = deliver (outbox st2), outbox = [], sendErrs = []\<rparr> = Some (Splicing s0)
        \<and> outbox (snd (near s0)) = [Msg RespOpened]
        \<and> (\<forall>s. (tcp_step (conn_ops forward_finish))\<^sup>*\<^sup>* s0 s \<longrightarrow>
            (\<exists>more. concat bs = sockOut (far s) @ more \<and> (sockFin (far s) \<longrightarrow> more = [])))
        \<and> (\<exists>a b. io_copy conn_Read sock_Write (near s0) (far s0) = Some (None, a, b) \<and> sockOut b = concat bs))"
proof -
  note sent = client_sends [OF assms(7,9,10)]
  let ?ms = "deliver (map Msg (data_requests bs) @ [CloseReq])"
  let ?st = "\<lparr>inbox = ?ms, outbox = [Msg RespOpened], sendErrs = []\<rparr>"
  have inbox: "deliver (outbox st2) = Inr (ReqOpen ep) # ?ms" using sent assms(8) by simp
  have "\<exists>a b. io_copy conn_Read sock_Write (serverConn peer, ?st) tcp = Some (None, a, b) \<and> sockOut b = concat bs"
    using server_to_sock.copy_all [of "(serverConn peer, ?st)" EOF tcp] assms(5,6) server_script [of bs]
    by (auto simp: conn_over_def conn_ends_def conn_pending_def stream_script_def normalize_def)
  moreover have "\<exists>more. concat bs = sockOut (far s) @ more \<and> (sockFin (far s) \<longrightarrow> more = [])"
    if "(tcp_step (conn_ops forward_finish))\<^sup>*\<^sup>* (session_start (serverConn peer, ?st) tcp) s" for s
    using forward_upstream [OF assms(5,6) that] server_script [of bs] by simp
  ultimately show ?thesis
    using sent Forward_starts [where dial = dial and addr = addr, OF assms(1-4)] inbox by (simp add: session_start_def)
qed

definition tcp_service :: "unit service" where
  "tcp_service = \<lparr>ssh = (), endpoints = [(''db'', ''db:5432'')]\<rparr>"

lemma tunnel_delivers_Connect_witness:
  "\<exists>e1 c1 st1 e2 c2 st2 s0.
     write_seq conn_Write [''ab'', [], ''c''] (clientConn demo_target, \<lparr>inbox = [], outbox = [Msg (ReqOpen ''db'')], sendErrs = []\<rparr>)
       = (e1, c1, st1) \<and> conn_CloseWrite (c1, st1) = (e2, c2, st2)
     \<and> Forward tcp_service (\<lambda>a. Inr demo_sock) ''p'' \<lparr>inbox = deliver (outbox st2), outbox = [], sendErrs = []\<rparr> = Some (Splicing s0)
     \<and> (\<exists>a b. io_copy conn_Read sock_Write (near s0) (far s0) = Some (None, a, b) \<and> sockOut b = ''abc'')"
proof -
  let ?st = "\<lparr>inbox = [], outbox = [Msg (ReqOpen ''db'')], sendErrs = []\<rparr> :: client_stream"
  obtain e1 c1 st1 where w: "write_seq conn_Write [''ab'', [], ''c''] (clientConn demo_target, ?st) = (e1, c1, st1)"
    by (metis surj_pair)
  obtain e2 c2 st2 where c: "conn_CloseWrite (c1, st1) = (e2, c2, st2)" by (metis surj_pair)
  from tunnel_delivers_Connect [OF _ _ _ _ _ _ _ _ w c, of tcp_service "''db''" "''db:5432''" "\<lambda>a. Inr demo_sock" demo_sock "''p''"]
  have "\<exists>s0. Forward tcp_service (\<lambda>a. Inr demo_sock) ''p'' \<lparr>inbox = deliver (outbox st2), outbox = [], sendErrs = []\<rparr> = Some (Splicing s0)
     \<and> (\<exists>a b. io_copy conn_Read sock_Write (near s0) (far s0) = Some (None, a, b) \<and> sockOut b = ''abc'')"
    by (auto simp: tcp_service_def ShellEndpoint_def demo_sock_def sock_open_def)
  with w c show ?thesis by blast
qed

text \<open>
  The same over a WebSocket, which has no half-close of its own: the control message that stands
  for it reaches the target as the end of its input, behind all that was written, and the messages
  are within the read limit. The copy of a buffer is never larger than that.
\<close>

theorem tunnel_delivers_WS:
  assumes "map_of (endpoints svc) (ws_endpoint req) = Some addr" and "ws_endpoint req \<noteq> ShellEndpoint" and "addr \<noteq> []"
    and "dial addr = Inr tcp" and "sock_open tcp" and "sockOut tcp = []"
    and "wsconn_New l r w = (c, w0)" and "wsErrs w = []" and "wsOut w = []"
    and "\<And>b. b \<in> set bs \<Longrightarrow> length b \<le> copy_buffer"
    and "write_seq conn_Write bs (c, w0) = (e1, c1, w1)" and "conn_CloseWrite (c1, w1) = (e2, c2, w2)"
    and "accept req = Inr v" and "wsIn v = ws_deliver ReadLimit (wsOut w2)" and "wsErrs v = []" and "wsOut v = []"
    and "\<not> onceDone v"
  shows "e1 = None \<and> e2 = None
    \<and> (\<exists>s0. wsHandler svc dial accept req = WsServed (Splicing s0)
        \<and> (\<forall>s. (tcp_step (conn_ops ws_finish))\<^sup>*\<^sup>* s0 s \<longrightarrow>
            (\<exists>more. concat bs = sockOut (far s) @ more \<and> (sockFin (far s) \<longrightarrow> more = [])))
        \<and> (\<exists>a b. io_copy conn_Read sock_Write (near s0) (far s0) = Some (None, a, b) \<and> sockOut b = concat bs))"
proof -
  note sent = ws_client_sends [OF assms(7,8,9,11,12)]
  have lim: "\<And>b. b \<in> set bs \<Longrightarrow> length b \<le> ReadLimit" "12 \<le> ReadLimit"
    using assms(10) by (force simp: copy_buffer_def ReadLimit_def)+
  have script: "ws_script v = map Inr (filter (\<lambda>b. b \<noteq> []) bs) @ [Inl EOF]"
    using ws_server_script [OF lim] sent by (simp add: ws_script_def assms(14))
  obtain cs vs where cv: "wsconn_NewServer (reqRemote req) v = (cs, vs)" by (metis surj_pair)
  note k = ws_server_start [OF cv]
  have served: "wsHandler svc dial accept req = WsServed (Splicing (session_start (cs, vs) tcp))"
    using assms(1-3) by (simp add: wsHandler_def Let_def Resolve_def assms(13) cv run_ack_def
        Handle_dials [where dial = dial and addr = addr, OF assms(1-4)])
  have "\<exists>a b. io_copy conn_Read sock_Write (cs, vs) tcp = Some (None, a, b) \<and> sockOut b = concat bs"
    using ws_to_sock.copy_all [of "(cs, vs)" EOF tcp] assms(5,6) script k
    by (auto simp: conn_over_def conn_ends_def conn_pending_def ws_script_def normalize_def)
  moreover have "\<exists>more. concat bs = sockOut (far s) @ more \<and> (sockFin (far s) \<longrightarrow> more = [])"
    if "(tcp_step (conn_ops ws_finish))\<^sup>*\<^sup>* (session_start (cs, vs) tcp) s" for s
    using ws_upstream [OF cv assms(15-17,5,6) that] script by simp
  ultimately show ?thesis using sent served by (simp add: session_start_def)
qed

lemma tunnel_delivers_WS_witness:
  "\<exists>c w0 e1 c1 w1 e2 c2 w2 s0. wsconn_New ''client'' ''box'' (demo_ws\<lparr>wsIn := []\<rparr>) = (c, w0)
     \<and> write_seq conn_Write [''ab'', ''c''] (c, w0) = (e1, c1, w1) \<and> conn_CloseWrite (c1, w1) = (e2, c2, w2)
     \<and> wsHandler tcp_service (\<lambda>a. Inr demo_sock) (\<lambda>r. Inr (demo_ws\<lparr>wsIn := ws_deliver ReadLimit (wsOut w2)\<rparr>))
         (demo_request\<lparr>query := [(EndpointParam, ''db'')]\<rparr>) = WsServed (Splicing s0)
     \<and> (\<exists>a b. io_copy conn_Read sock_Write (near s0) (far s0) = Some (None, a, b) \<and> sockOut b = ''abc'')"
proof -
  let ?w = "demo_ws\<lparr>wsIn := []\<rparr>" and ?req = "demo_request\<lparr>query := [(EndpointParam, ''db'')]\<rparr>"
  obtain c w0 where n: "wsconn_New ''client'' ''box'' ?w = (c, w0)" by (metis surj_pair)
  obtain e1 c1 w1 where w: "write_seq conn_Write [''ab'', ''c''] (c, w0) = (e1, c1, w1)" by (metis surj_pair)
  obtain e2 c2 w2 where cl: "conn_CloseWrite (c1, w1) = (e2, c2, w2)" by (metis surj_pair)
  let ?v = "demo_ws\<lparr>wsIn := ws_deliver ReadLimit (wsOut w2)\<rparr>"
  have ep: "ws_endpoint ?req = ''db''" by (simp add: ws_endpoint_def)
  have small: "\<And>b. b \<in> set [''ab'', ''c''] \<Longrightarrow> length b \<le> copy_buffer" by (auto simp: copy_buffer_def)
  from tunnel_delivers_WS [OF _ _ _ _ _ _ n _ _ small w cl, of tcp_service ?req "''db:5432''" "\<lambda>a. Inr demo_sock" demo_sock
      "\<lambda>r. Inr ?v" ?v]
  have "\<exists>s0. wsHandler tcp_service (\<lambda>a. Inr demo_sock) (\<lambda>r. Inr ?v) ?req = WsServed (Splicing s0)
     \<and> (\<exists>a b. io_copy conn_Read sock_Write (near s0) (far s0) = Some (None, a, b) \<and> sockOut b = ''abc'')"
    by (auto simp: ep tcp_service_def ShellEndpoint_def demo_sock_def sock_open_def demo_ws_def)
  with n w cl show ?thesis by blast
qed

end
