(* ===== verification/Lane.thy ===== *)
theory Lane
  imports Transport
begin

text \<open>
  One direction of a tunnel from end to end: the sending host copies a source into its end of a stream, the
  network carries the messages that were logged there to the other host, in order, and that host copies
  what arrives into its destination. The hosts and the network take their steps in any order.
\<close>

subsection \<open>Messages on the way\<close>

text \<open>
  The payload of a stretch of the log, whether it closes the direction, and a measure of it. Only the last
  event of a log may close; what is still to be carried are events that can be.
\<close>

definition ev_data :: "('ev \<Rightarrow> bytes) \<Rightarrow> 'ev list \<Rightarrow> bytes" where
  "ev_data payload evs = concat (map payload evs)"

definition ev_end :: "('ev \<Rightarrow> bool) \<Rightarrow> 'ev list \<Rightarrow> go_error option" where
  "ev_end closes evs = (if list_ex closes evs then Some EOF else None)"

definition ev_left :: "('ev \<Rightarrow> bytes) \<Rightarrow> 'ev list \<Rightarrow> nat" where
  "ev_left payload evs = length evs + 2 * length (ev_data payload evs)"

lemma ev_simps [simp]:
  "ev_data payload [] = []" "ev_data payload (evs @ evs') = ev_data payload evs @ ev_data payload evs'"
  "ev_data payload [ev] = payload ev" "ev_left payload (evs @ evs') = ev_left payload evs + ev_left payload evs'"
  "ev_left payload [] = 0" "ev_left payload [ev] = 1 + 2 * length (payload ev)"
  by (simp_all add: ev_data_def ev_left_def)

definition good_log :: "('ev \<Rightarrow> bool) \<Rightarrow> ('ev \<Rightarrow> bool) \<Rightarrow> nat \<Rightarrow> 'ev list \<Rightarrow> bool" where
  "good_log carries closes n evs \<longleftrightarrow> n \<le> length evs \<and> \<not> list_ex closes (butlast evs)
     \<and> list_all (\<lambda>ev. carries ev \<or> closes ev) (drop n evs)"

lemma good_log_open:
  assumes "good_log carries closes n evs" and "n < length evs"
  shows "ev_end closes (take n evs) = None"
proof -
  have "take n evs = take n (butlast evs)" using assms(2) by (simp add: take_butlast)
  then have "set (take n evs) \<subseteq> set (butlast evs)" using set_take_subset by metis
  with assms(1) show ?thesis by (auto simp: good_log_def ev_end_def list_ex_iff)
qed

lemma good_log_next:
  assumes "good_log carries closes n evs" and "n < length evs"
  shows "good_log carries closes (Suc n) evs" "take (Suc n) evs = take n evs @ [evs ! n]"
    "drop n evs = evs ! n # drop (Suc n) evs" "carries (evs ! n) \<or> closes (evs ! n)"
  using assms by (auto simp: good_log_def take_Suc_conv_app_nth Cons_nth_drop_Suc [symmetric])

lemma good_log_snoc:
  assumes "good_log carries closes n evs" and "\<not> list_ex closes evs" and "carries ev \<or> closes ev"
  shows "good_log carries closes n (evs @ [ev])"
  using assms by (auto simp: good_log_def)

subsection \<open>What a direction promises\<close>

text \<open>
  A direction as its two outer ends see it: of \<open>all\<close> that is sent, more and more arrives, and the end
  arrives once, behind all of it.
\<close>

inductive pipe_step :: "bytes \<Rightarrow> bytes \<times> bool \<Rightarrow> bytes \<times> bool \<Rightarrow> bool" for all where
  pass: "all = got @ c @ behind \<Longrightarrow> pipe_step all (got, False) (got @ c, False)"
| shut: "pipe_step all (all, False) (all, True)"

lemma pipe_reach:
  assumes "(pipe_step all)\<^sup>*\<^sup>* ([], False) (got, fin)"
  shows "\<exists>more. all = got @ more \<and> (fin \<longrightarrow> more = [])"
  using assms by (induction "(got, fin)" arbitrary: got fin rule: rtranclp_induct) (auto elim!: pipe_step.cases)

subsection \<open>The lane\<close>

locale lane =
  first: flow A pendingA endsA invA contentA openA finnedA B pendingB endsB invB contentB openB finnedB
  + second: flow C pendingC endsC invC contentC openC finnedC D pendingD endsD invD contentD openD finnedD
  for A :: "'a io_ops" and pendingA endsA invA contentA openA finnedA
  and B :: "'b io_ops" and pendingB endsB invB contentB openB finnedB
  and C :: "'c io_ops" and pendingC endsC invC contentC openC finnedC
  and D :: "'d io_ops" and pendingD endsD invD contentD openD finnedD +
  fixes log :: "'b \<Rightarrow> 'ev list" and payload :: "'ev \<Rightarrow> bytes" and carries closes :: "'ev \<Rightarrow> bool"
    and feed :: "'ev \<Rightarrow> 'c \<Rightarrow> 'c"
  assumes content_log: "contentB b = ev_data payload (log b)"
    and finned_log: "finnedB b \<longleftrightarrow> list_ex closes (log b)"
    and carries_open: "carries ev \<Longrightarrow> \<not> closes ev"
    and closes_empty: "closes ev \<Longrightarrow> payload ev = []"
    and write_log: "invB b \<Longrightarrow> openB b \<Longrightarrow> length x \<le> copy_buffer \<Longrightarrow> write_op B x b = (w, b') \<Longrightarrow>
      log b' = log b \<or> (\<exists>ev. carries ev \<and> payload ev = x \<and> log b' = log b @ [ev])"
    and fin_log: "invB b \<Longrightarrow> openB b \<Longrightarrow> \<exists>ev. closes ev \<and> log (fin_op B b) = log b @ [ev]"
    and read_log: "invB b \<Longrightarrow> read_op B n b = Some (r, b') \<Longrightarrow> log b' = log b"
    and feed_data: "invC c \<Longrightarrow> endsC c = None \<Longrightarrow> carries ev \<Longrightarrow>
      pendingC (feed ev c) = pendingC c @ payload ev \<and> endsC (feed ev c) = None \<and> invC (feed ev c)"
    and feed_end: "invC c \<Longrightarrow> endsC c = None \<Longrightarrow> closes ev \<Longrightarrow>
      pendingC (feed ev c) = pendingC c \<and> endsC (feed ev c) = Some EOF \<and> invC (feed ev c)"
begin

text \<open>The sending host, and the receiving host given the log and how much of it has been carried.\<close>

definition source_inv :: "bytes \<Rightarrow> go_error option \<Rightarrow> pump \<times> 'a \<times> 'b \<Rightarrow> bool" where
  "source_inv all e0 x \<longleftrightarrow> first.flow_inv (\<lambda>r. True) all e0 x"

definition sink_inv :: "(go_error option \<Rightarrow> bool) \<Rightarrow> 'ev list \<Rightarrow> nat \<Rightarrow> pump \<times> 'c \<times> 'd \<Rightarrow> bool" where
  "sink_inv fins evs n x \<longleftrightarrow>
     good_log carries closes n evs
     \<and> second.flow_inv fins (ev_data payload (take n evs)) (ev_end closes (take n evs)) x"

definition source_left :: "pump \<times> 'a \<times> 'b \<Rightarrow> nat \<Rightarrow> nat" where
  "source_left x n = first.flow_weight x + ev_left payload (drop n (log (snd (snd x))))"

lemma source_step:
  assumes "source_inv all e0 (p, a, b)" and "good_log carries closes n (log b)"
    and "pump_step A B (\<lambda>r. True) (p, a, b) = Some (p', a', b')"
  shows "source_inv all e0 (p', a', b') \<and> good_log carries closes n (log b') \<and> take n (log b') = take n (log b)
    \<and> source_left (p', a', b') n < source_left (p, a, b) n"
proof -
  have inv: "first.flow_inv (\<lambda>r. True) all e0 (p, a, b)" using assms(1) by (simp add: source_inv_def)
  have n: "n \<le> length (log b)" using assms(2) by (simp add: good_log_def)
  have "good_log carries closes n (log b') \<and> take n (log b') = take n (log b)
    \<and> first.flow_weight (p', a', b') + ev_left payload (drop n (log b'))
      < first.flow_weight (p, a, b) + ev_left payload (drop n (log b))"
    using first.flow_pays [OF inv assms(3)]
  proof (elim disjE exE conjE)
    fix c assume w: "write_op B c b = ((length c, None), b')" "openB b" "invB b" "\<not> finnedB b"
      "length c \<le> copy_buffer" "first.flow_weight (p', a', b') + 2 * length c + 1 < first.flow_weight (p, a, b)"
    from write_log [OF w(3,2,5,1)] show ?thesis
    proof (elim disjE exE conjE)
      fix ev assume ev: "carries ev" "payload ev = c" "log b' = log b @ [ev]"
      with good_log_snoc [OF assms(2), of ev] w n finned_log show ?thesis by simp
    qed (use w assms(2) in simp)
  next
    assume f: "openB b" "invB b" "\<not> finnedB b" "b' = fin_op B b"
      "first.flow_weight (p', a', b') + 1 < first.flow_weight (p, a, b)"
    from fin_log [OF f(2,1)] obtain ev where ev: "closes ev" "log b' = log b @ [ev]" using f(4) by blast
    with good_log_snoc [OF assms(2), of ev] closes_empty [OF ev(1)] f n finned_log show ?thesis by simp
  qed (use assms(2) in simp)
  with first.flow_step [OF inv assms(3)] show ?thesis by (simp add: source_inv_def source_left_def)
qed

text \<open>The sending host is undisturbed by the copy the other way, and by what arrives for it.\<close>

lemma source_frame:
  assumes "source_inv all e0 (p, a, b)" and "pump_step B A fins (q, b, a) = Some (q', b', a')"
  shows "source_inv all e0 (p, a', b') \<and> log b' = log b \<and> source_left (p, a', b') n = source_left (p, a, b) n"
proof -
  have inv: "first.flow_inv (\<lambda>r. True) all e0 (p, a, b)" using assms(1) by (simp add: source_inv_def)
  then have "invB b" by (simp add: first.flow_inv_def)
  with assms(2) have "log b' = log b"
    by (cases q) (auto simp: pump_step_def dest: read_log split: option.splits prod.splits)
  moreover have "first.flow_inv (\<lambda>r. True) all e0 (p, a', b')" "first.flow_weight (p, a', b') = first.flow_weight (p, a, b)"
    using first.flow_frame [OF inv assms(2)] first.flow_weight_frame [of p a' b' a b] by blast+
  ultimately show ?thesis by (simp add: source_inv_def source_left_def)
qed

lemma source_turn:
  assumes "source_inv all e0 (p, a, b)" and "invB b'" and "openB b' = openB b" and "log b' = log b"
  shows "source_inv all e0 (p, a, b') \<and> source_left (p, a, b') n = source_left (p, a, b) n"
  using assms first.flow_turn [of "\<lambda>r. True" all e0 p a b b']
  by (simp add: source_inv_def source_left_def content_log finned_log first.flow_weight_def)

text \<open>The source may come to its end, and may be closed when the copy from it is over.\<close>

lemma source_ends:
  assumes "source_inv all None (p, a, b)" and "invA a'" and "pendingA a' = pendingA a" and "endsA a' = e1"
  shows "source_inv all e1 (p, a', b) \<and> source_left (p, a', b) n = source_left (p, a, b) n"
  using assms first.flow_feed [of "\<lambda>r. True" all p a b a' "[]" e1]
  by (simp add: source_inv_def source_left_def first.flow_weight_def)

lemma source_shut:
  assumes "source_inv all e0 (HalfClosed, a, b)" and "invA a'" and "pendingA a' = []" and "endsA a' = Some e"
  shows "source_inv all (Some e) (HalfClosed, a', b) \<and> source_left (HalfClosed, a', b) n = source_left (HalfClosed, a, b) n"
  using assms by (auto simp: source_inv_def source_left_def first.flow_weight_def first.flow_inv_def)

text \<open>The receiving host.\<close>

lemma sink_log:
  "sink_inv fins evs n x \<Longrightarrow> good_log carries closes n evs' \<Longrightarrow> take n evs' = take n evs \<Longrightarrow> sink_inv fins evs' n x"
  by (simp add: sink_inv_def)

lemma sink_step:
  assumes "sink_inv fins evs n x" and "pump_step C D fins x = Some y"
  shows "sink_inv fins evs n y \<and> second.flow_left y < second.flow_left x"
  using assms second.flow_step by (simp add: sink_inv_def) blast

lemma sink_frame:
  assumes "sink_inv fins evs n (p, c, d)" and "pump_step D C fins' (q, d, c) = Some (q', d', c')"
  shows "sink_inv fins evs n (p, c', d') \<and> second.flow_left (p, c', d') = second.flow_left (p, c, d)"
  using assms second.flow_frame by (simp add: sink_inv_def) blast

lemma sink_turn:
  assumes "sink_inv fins evs n (p, c, d)" and "invD d'" and "contentD d' = contentD d"
    and "openD d' = openD d" and "finnedD d' = finnedD d"
  shows "sink_inv fins evs n (p, c, d') \<and> second.flow_left (p, c, d') = second.flow_left (p, c, d)"
  using assms second.flow_turn [of fins "ev_data payload (take n evs)" "ev_end closes (take n evs)" p c d d']
  by (simp add: sink_inv_def second.flow_left_def)

lemma sink_carry:
  assumes "sink_inv fins evs n (p, c, d)" and "n < length evs"
  shows "sink_inv fins evs (Suc n) (p, feed (evs ! n) c, d)
    \<and> second.flow_left (p, feed (evs ! n) c, d) + ev_left payload (drop (Suc n) evs)
      < second.flow_left (p, c, d) + ev_left payload (drop n evs)"
proof -
  have g: "good_log carries closes n evs" using assms(1) by (simp add: sink_inv_def)
  note nx = good_log_next [OF g assms(2)] and op = good_log_open [OF g assms(2)]
  from assms(1) op have inv: "second.flow_inv fins (ev_data payload (take n evs)) None (p, c, d)"
    by (simp add: sink_inv_def)
  then have c: "invC c" "endsC c = None" by (simp_all add: second.flow_inv_def)
  have none: "\<not> list_ex closes (take n evs)" using op by (simp add: ev_end_def split: if_splits)
  have drop: "ev_left payload (drop n evs) = ev_left payload [evs ! n] + ev_left payload (drop (Suc n) evs)"
    using nx(3) ev_simps(4) [of payload "[evs ! n]" "drop (Suc n) evs"] by (metis append_Cons append_Nil)
  from nx(4) show ?thesis
  proof
    assume ev: "carries (evs ! n)"
    note f = feed_data [OF c ev]
    from second.flow_feed [OF inv _ conjunct1 [OF f]] f
    have "second.flow_inv fins (ev_data payload (take n evs) @ payload (evs ! n)) None (p, feed (evs ! n) c, d)" by blast
    with nx(1,2) carries_open [OF ev] none second.flow_left_feed [OF conjunct1 [OF f], of p d] drop show ?thesis
      by (simp add: sink_inv_def ev_end_def)
  next
    assume ev: "closes (evs ! n)"
    note f = feed_end [OF c ev]
    from second.flow_feed [OF inv, of "feed (evs ! n) c" "[]" "Some EOF"] f
    have "second.flow_inv fins (ev_data payload (take n evs)) (Some EOF) (p, feed (evs ! n) c, d)" by simp
    moreover have "second.flow_left (p, feed (evs ! n) c, d) = second.flow_left (p, c, d)"
      using second.flow_left_feed [of "feed (evs ! n) c" c "[]"] f by simp
    ultimately show ?thesis using nx(1,2) ev closes_empty [OF ev] drop by (simp add: sink_inv_def ev_end_def)
  qed
qed

text \<open>What has arrived, and when everything has.\<close>

lemma lane_prefix:
  assumes "source_inv all e0 (p, a, b)" and "sink_inv fins (log b) n (q, c, d)"
  shows "\<exists>more. all = contentD d @ more \<and> (finnedD d \<longrightarrow> more = [])"
proof -
  from assms have f: "first.flow_inv (\<lambda>r. True) all e0 (p, a, b)"
    and s: "second.flow_inv fins (ev_data payload (take n (log b))) (ev_end closes (take n (log b))) (q, c, d)"
    and g: "good_log carries closes n (log b)"
    by (simp_all add: source_inv_def sink_inv_def)
  have split: "ev_data payload (log b) = ev_data payload (take n (log b)) @ ev_data payload (drop n (log b))"
    by (metis append_take_drop_id ev_simps(2))
  from first.flow_written [OF f] obtain m1 where m1: "all = ev_data payload (log b) @ m1" by (auto simp: content_log)
  from second.flow_written [OF s] obtain m2 where m2: "ev_data payload (take n (log b)) = contentD d @ m2" by auto
  have "all = contentD d" if "finnedD d"
  proof -
    from second.flow_finned [OF s that] have c: "contentD d = ev_data payload (take n (log b))"
      and "ev_end closes (take n (log b)) \<noteq> None" by auto
    with good_log_open [OF g] g have "n = length (log b)" by (fastforce simp: good_log_def)
    moreover have "list_ex closes (log b)"
      using \<open>ev_end closes (take n (log b)) \<noteq> None\<close> \<open>n = length (log b)\<close> by (simp add: ev_end_def split: if_splits)
    ultimately show ?thesis using first.flow_finned [OF f] c by (simp add: finned_log content_log)
  qed
  with m1 m2 split show ?thesis by auto
qed

lemma lane_refines:
  assumes "source_inv all e0 (p, a, b)" and "sink_inv fins (log b) n (q, c, d)"
    and "pump_step C D fins (q, c, d) = Some (q', c', d')"
  shows "(pipe_step all)\<^sup>=\<^sup>= (contentD d, finnedD d) (contentD d', finnedD d')"
proof -
  from assms(2) have s: "second.flow_inv fins (ev_data payload (take n (log b))) (ev_end closes (take n (log b))) (q, c, d)"
    by (simp add: sink_inv_def)
  have "sink_inv fins (log b) n (q', c', d')" using sink_step [OF assms(2,3)] by simp
  from lane_prefix [OF assms(1) this] obtain more where more: "all = contentD d' @ more" "finnedD d' \<Longrightarrow> more = []" by blast
  from second.flow_moves [OF s assms(3)] show ?thesis
  proof (elim disjE exE conjE)
    fix x assume "contentD d' = contentD d @ x" "\<not> finnedD d" "\<not> finnedD d'"
    with more pipe_step.pass [of all "contentD d" x more] show ?thesis by simp
  next
    assume "contentD d' = contentD d" "\<not> finnedD d" "finnedD d'"
    with more pipe_step.shut [of all] show ?thesis by simp
  qed simp
qed

lemma lane_progress:
  assumes "source_inv all e0 (p, a, b)" and "sink_inv fins (log b) n (q, c, d)" and "e0 \<noteq> None"
  obtains (source) y where "pump_step A B (\<lambda>r. True) (p, a, b) = Some y"
    | (carry) "n < length (log b)"
    | (sink) y where "pump_step C D fins (q, c, d) = Some y"
    | (through) "contentD d = all" and "finnedD d = fins None" and "p = HalfClosed" and "q = HalfClosed"
proof (cases "p = HalfClosed \<and> n = length (log b)")
  case True
  from assms(1) True have f: "first.flow_inv (\<lambda>r. True) all e0 (HalfClosed, a, b)" by (simp add: source_inv_def)
  from first.flow_closed [OF f] have l: "ev_data payload (log b) = all" "list_ex closes (log b)"
    by (auto simp: content_log finned_log)
  from assms(2) True l have s: "second.flow_inv fins all (Some EOF) (q, c, d)"
    by (simp add: sink_inv_def ev_end_def)
  show thesis
  proof (cases "q = HalfClosed")
    case True
    with s have "second.flow_inv fins all (Some EOF) (HalfClosed, c, d)" by simp
    from second.flow_closed [OF this] True \<open>p = HalfClosed \<and> n = length (log b)\<close> show thesis
      by (intro through) (auto simp: copy_result_def)
  next
    case False
    with second.flow_progress [OF s] sink show thesis by blast
  qed
next
  case False
  have "n \<le> length (log b)" using assms(2) by (simp add: sink_inv_def good_log_def)
  with False carry first.flow_progress [of "\<lambda>r. True" all e0 p a b] assms(1,3) source show thesis
    by (cases "n = length (log b)") (auto simp: source_inv_def)
qed

end

end
