(* ===== verification/Network.thy ===== *)
theory Network
  imports Lane Connect Service
begin

text \<open>
  A whole tunnel, over any transport: the session on the client's host, the session of the agent's
  handler, and the network between them, which carries what is logged at either end to the other, in
  order. The three act in any order. Both directions are instances of \<open>lane\<close>; from its laws follow, in the
  locale \<open>tunnel_link\<close>, the invariant of a run, the bound on its length, what it delivers, and that it
  refines two independent pipes. \<open>Tunnels\<close> interprets it on the two transports of the program.
\<close>

subsection \<open>The two hosts and the network\<close>

text \<open>
  A transport: the connection at either end, what has been sent from it, and what the arrival of one of
  these events does to the connection at the other end.
\<close>

record ('c, 'a, 'm, 'n) link =
  client_ops :: "'c io_ops"
  agent_ops :: "'a io_ops"
  up_events :: "'c \<Rightarrow> 'm list"
  down_events :: "'a \<Rightarrow> 'n list"
  up_arrives :: "'m \<Rightarrow> 'a \<Rightarrow> 'a"
  down_arrives :: "'n \<Rightarrow> 'c \<Rightarrow> 'c"

text \<open>
  The state of a tunnel: the session on the client's host, the session of the agent's handler, how many
  of the events logged at either end have been carried to the other, and whether the handler has
  returned. A tunnel starts when both ends have opened it, with what they exchanged to do so carried.
\<close>

record ('c, 'a) network =
  localSide :: "(sock, 'c) session"
  agentSide :: "('a, sock) session"
  upTaken :: nat
  downTaken :: nat
  handlerDone :: bool

definition net_start :: "nat \<Rightarrow> sock \<Rightarrow> 'c \<Rightarrow> ('a, sock) session \<Rightarrow> ('c, 'a) network" where
  "net_start taken l tunnel a =
     \<lparr>localSide = session_start l tunnel, agentSide = a, upTaken = taken, downTaken = taken, handlerDone = False\<rparr>"

abbreviation up_log :: "('c, 'a, 'm, 'n) link \<Rightarrow> ('c, 'a) network \<Rightarrow> 'm list" where
  "up_log L s \<equiv> up_events L (far (localSide s))"

abbreviation down_log :: "('c, 'a, 'm, 'n) link \<Rightarrow> ('c, 'a) network \<Rightarrow> 'n list" where
  "down_log L s \<equiv> down_events L (near (agentSide s))"

text \<open>
  Either host takes a step of its session; the network carries the next event, upstream as long as the
  handler runs; the handler returns; a target that has not ended its output ends it once its input has
  ended.
\<close>

inductive net_step :: "('c, 'a, 'm, 'n) link \<Rightarrow> ('c, 'a) network \<Rightarrow> ('c, 'a) network \<Rightarrow> bool" for L where
  client: "local_step (client_ops L) (localSide s) l \<Longrightarrow> net_step L s (s\<lparr>localSide := l\<rparr>)"
| agent: "tcp_step (agent_ops L) (agentSide s) a \<Longrightarrow> net_step L s (s\<lparr>agentSide := a\<rparr>)"
| carry_up: "\<not> handlerDone s \<Longrightarrow> upTaken s < length (up_log L s) \<Longrightarrow>
    net_step L s (s\<lparr>agentSide := (agentSide s)\<lparr>near := up_arrives L (up_log L s ! upTaken s) (near (agentSide s))\<rparr>,
      upTaken := Suc (upTaken s)\<rparr>)"
| carry_down: "downTaken s < length (down_log L s) \<Longrightarrow>
    net_step L s (s\<lparr>localSide := (localSide s)\<lparr>far := down_arrives L (down_log L s ! downTaken s) (far (localSide s))\<rparr>,
      downTaken := Suc (downTaken s)\<rparr>)"
| returns: "\<not> handlerDone s \<Longrightarrow> handler_return (agentSide s) = Some (Returned r c (Some t)) \<Longrightarrow>
    net_step L s (s\<lparr>agentSide := (agentSide s)\<lparr>near := c, far := t\<rparr>, handlerDone := True\<rparr>)"
| target_ends: "\<not> handlerDone s \<Longrightarrow> sockFin (far (agentSide s)) \<Longrightarrow> sockEnd (far (agentSide s)) = None \<Longrightarrow>
    net_step L s (s\<lparr>agentSide := (agentSide s)\<lparr>far := (far (agentSide s))\<lparr>sockEnd := Some EOF\<rparr>\<rparr>\<rparr>)"

text \<open>The steps of either session, by direction.\<close>

lemma net_step_cases [consumes 1, case_names client_up client_down agent_up agent_down carry_up carry_down returns target_ends]:
  assumes "net_step L s s'"
  obtains
    p l c where "pump_step sock_ops (client_ops L) (\<lambda>r. True) (upPump (localSide s), near (localSide s), far (localSide s)) = Some (p, l, c)"
      and "s' = s\<lparr>localSide := (localSide s)\<lparr>upPump := p, near := l, far := c\<rparr>\<rparr>"
  | p l c where "pump_step (client_ops L) sock_ops ended_well (downPump (localSide s), far (localSide s), near (localSide s)) = Some (p, c, l)"
      and "s' = s\<lparr>localSide := (localSide s)\<lparr>downPump := p, far := c, near := l\<rparr>\<rparr>"
  | p c t where "pump_step (agent_ops L) sock_ops (\<lambda>r. True) (upPump (agentSide s), near (agentSide s), far (agentSide s)) = Some (p, c, t)"
      and "s' = s\<lparr>agentSide := (agentSide s)\<lparr>upPump := p, near := c, far := t\<rparr>\<rparr>"
  | p c t where "pump_step sock_ops (agent_ops L) (\<lambda>r. True) (downPump (agentSide s), far (agentSide s), near (agentSide s)) = Some (p, t, c)"
      and "s' = s\<lparr>agentSide := (agentSide s)\<lparr>downPump := p, far := t, near := c\<rparr>\<rparr>"
  | "\<not> handlerDone s" and "upTaken s < length (up_log L s)"
      and "s' = s\<lparr>agentSide := (agentSide s)\<lparr>near := up_arrives L (up_log L s ! upTaken s) (near (agentSide s))\<rparr>, upTaken := Suc (upTaken s)\<rparr>"
  | "downTaken s < length (down_log L s)"
      and "s' = s\<lparr>localSide := (localSide s)\<lparr>far := down_arrives L (down_log L s ! downTaken s) (far (localSide s))\<rparr>, downTaken := Suc (downTaken s)\<rparr>"
  | "\<not> handlerDone s" and "downPump (agentSide s) = HalfClosed"
      and "s' = s\<lparr>agentSide := (agentSide s)\<lparr>far := sock_Close (far (agentSide s))\<rparr>, handlerDone := True\<rparr>"
  | "\<not> handlerDone s" and "sockFin (far (agentSide s))" and "sockEnd (far (agentSide s)) = None"
      and "s' = s\<lparr>agentSide := (agentSide s)\<lparr>far := (far (agentSide s))\<lparr>sockEnd := Some EOF\<rparr>\<rparr>\<rparr>"
  using assms
proof cases
  case (client l)
  from client(2) [unfolded local_step_def] show ?thesis
    by (cases rule: splice_stepE) (use client(1) that(1,2) in blast)+
next
  case (agent a)
  from agent(2) [unfolded tcp_step_def] show ?thesis
    by (cases rule: splice_stepE) (use agent(1) that(3,4) in blast)+
next
  case (returns r c t)
  then have "downPump (agentSide s) = HalfClosed" "c = near (agentSide s)" "t = sock_Close (far (agentSide s))"
    by (simp_all add: handler_return_def split: if_splits)
  with returns show ?thesis by (intro that(7)) simp_all
qed (use that(5,6,8) in blast)+

text \<open>The steps of a socket keep what it still has to give, and a closed one does nothing.\<close>

lemma sock_keeps:
  "sock_Read n t = Some (r, t') \<Longrightarrow> sockEnd t' = sockEnd t \<and> sockClosed t' = sockClosed t
    \<and> sockOut t' = sockOut t \<and> sockFin t' = sockFin t"
  "sock_Write b t = (w, t') \<Longrightarrow> sockEnd t' = sockEnd t \<and> sockClosed t' = sockClosed t \<and> sockFin t' = sockFin t"
  by (auto simp: sock_Read_def sock_Write_def split: if_splits list.splits option.splits)

lemma pump_sock_keeps:
  "pump_step sock_ops B fins (p, t, b) = Some (p', t', b') \<Longrightarrow> sockEnd t' = sockEnd t \<and> sockClosed t' = sockClosed t
    \<and> sockOut t' = sockOut t \<and> sockFin t' = sockFin t"
  "pump_step A sock_ops fins (p, a, t) = Some (p', a', t') \<Longrightarrow> sockEnd t' = sockEnd t \<and> sockClosed t' = sockClosed t
    \<and> (sockFin t \<longrightarrow> sockFin t')"
  by (cases p; auto simp: pump_step_def sock_ops_def sock_CloseWrite_def dest: sock_keeps(1,2) split: option.splits prod.splits if_splits)+

fun cut_rank :: "pump \<Rightarrow> nat" where
  "cut_rank Reading = 3"
| "cut_rank (Writing b er) = 2"
| "cut_rank (Copied r) = 1"
| "cut_rank HalfClosed = 0"


text \<open>
  A target that ends its output only after its input has ended leaves the handler running until then.
\<close>

definition patient :: "('c, 'a) network \<Rightarrow> bool" where
  "patient s \<longleftrightarrow> sockEnd (far (agentSide s)) = None \<or> sockFin (far (agentSide s))"

lemma patient_step:
  assumes "net_step L s s'" and "patient s"
  shows "patient s'"
  using assms(1)
proof (cases rule: net_step_cases)
  case (agent_up p c t)
  from assms(2) pump_sock_keeps(2) [OF this(1)] show ?thesis
    by (auto simp: agent_up(2) patient_def)
next
  case (agent_down p c t)
  from assms(2) pump_sock_keeps(1) [OF this(1)] show ?thesis
    by (auto simp: agent_down(2) patient_def)
qed (use assms(2) in \<open>auto simp: patient_def sock_Close_def\<close>)

lemma patient_run: "(net_step L)\<^sup>*\<^sup>* s s' \<Longrightarrow> patient s \<Longrightarrow> patient s'"
  by (induction rule: rtranclp_induct) (auto intro: patient_step)

definition delivered :: "bytes \<Rightarrow> bytes \<Rightarrow> ('c, 'a) network \<Rightarrow> bool" where
  "delivered up down s \<longleftrightarrow>
     sockOut (far (agentSide s)) = up \<and> sockFin (far (agentSide s)) \<and> sockOut (near (localSide s)) = down
     \<and> sockFin (near (localSide s)) \<and> handlerDone s \<and> splice_returns (localSide s)"

subsection \<open>The abstract tunnel\<close>

text \<open>Two independent directions, and what of them the two outer ends see.\<close>

inductive tunnel_spec ::
    "bytes \<Rightarrow> bytes \<Rightarrow> (bytes \<times> bool) \<times> (bytes \<times> bool) \<Rightarrow> (bytes \<times> bool) \<times> (bytes \<times> bool) \<Rightarrow> bool" for up down where
  upward: "pipe_step up u u' \<Longrightarrow> tunnel_spec up down (u, d) (u', d)"
| downward: "pipe_step down d d' \<Longrightarrow> tunnel_spec up down (u, d) (u, d')"

definition seen :: "('c, 'a) network \<Rightarrow> (bytes \<times> bool) \<times> (bytes \<times> bool)" where
  "seen s = ((sockOut (far (agentSide s)), sockFin (far (agentSide s))),
             (sockOut (near (localSide s)), sockFin (near (localSide s))))"

lemma spec_reach:
  assumes "(tunnel_spec up down)\<^sup>*\<^sup>* (([], False), ([], False)) (u, d)"
  shows "(pipe_step up)\<^sup>*\<^sup>* ([], False) u \<and> (pipe_step down)\<^sup>*\<^sup>* ([], False) d"
  using assms
  by (induction "(u, d)" arbitrary: u d rule: rtranclp_induct) (auto elim!: tunnel_spec.cases intro: rtranclp.rtrancl_into_rtrancl)

subsection \<open>The locale\<close>

locale tunnel_link =
  up: lane sock_ops sock_pending sock_ends "\<lambda>t. True" sockOut sock_open sockFin
    CO pendC endsC invC contC openC finC AO pendA endsA invA contA openA finA
    sock_ops sock_pending sock_ends "\<lambda>t. True" sockOut sock_open sockFin
    upLog upPayload upCarries upCloses upFeed
  + down: lane sock_ops sock_pending sock_ends "\<lambda>t. True" sockOut sock_open sockFin
    AO pendA endsA invA contA openA finA CO pendC endsC invC contC openC finC
    sock_ops sock_pending sock_ends "\<lambda>t. True" sockOut sock_open sockFin
    downLog downPayload downCarries downCloses downFeed
  for CO :: "'c io_ops" and pendC endsC invC contC openC finC
  and AO :: "'a io_ops" and pendA endsA invA contA openA finA
  and upLog :: "'c \<Rightarrow> 'm list" and upPayload upCarries upCloses upFeed
  and downLog :: "'a \<Rightarrow> 'n list" and downPayload downCarries downCloses downFeed +
  fixes L :: "('c, 'a, 'm, 'n) link"
  assumes link: "L = \<lparr>client_ops = CO, agent_ops = AO, up_events = upLog, down_events = downLog,
      up_arrives = upFeed, down_arrives = downFeed\<rparr>"
    and up_turn: "openA (upFeed m a) = openA a" "downLog (upFeed m a) = downLog a"
    and down_turn: "openC (downFeed d c) = openC c" "upLog (downFeed d c) = upLog c"
begin

lemma link_simps [simp]:
  "client_ops L = CO" "agent_ops L = AO" "up_events L = upLog" "down_events L = downLog"
  "up_arrives L = upFeed" "down_arrives L = downFeed"
  by (simp_all add: link)

lemmas link_cases [consumes 1, case_names client_up client_down agent_up agent_down carry_up carry_down returns target_ends]
  = net_step_cases [of L, unfolded link_simps]

lemma pump_cut:
  assumes "pump_step AO sock_ops fins (p, a, t) = Some (p', a', t')" and "sockClosed t" and "invA a"
  shows "sockOut t' = sockOut t \<and> sockFin t' = sockFin t \<and> cut_rank p' < cut_rank p"
proof (cases p)
  case Reading
  then obtain b er where r: "read_op AO copy_buffer a = Some ((b, er), a')" and p: "p' = after_read b er" "t' = t"
    using assms(1) by (auto simp: pump_step_def split: option.splits)
  have "0 < copy_buffer" by (simp add: copy_buffer_def)
  with up.second.s.src.rd_cases [OF assms(3) _ r] have "er = None \<and> b \<noteq> [] \<or> er \<noteq> None \<and> b = []" by metis
  with p Reading show ?thesis by (auto simp: after_read_def copy_next_def)
qed (use assms in \<open>auto simp: pump_step_def sock_ops_def sock_Write_def sock_CloseWrite_def after_write_def split: if_splits\<close>)

text \<open>
  Each direction is a lane whose sending and receiving host are in order. Once the handler has returned,
  the upstream lane is cut: the target keeps what it has, and nothing more reaches it.
\<close>

definition up_source where "up_source s = (upPump (localSide s), near (localSide s), far (localSide s))"
definition up_sink where "up_sink s = (upPump (agentSide s), near (agentSide s), far (agentSide s))"
definition down_source where "down_source s = (downPump (agentSide s), far (agentSide s), near (agentSide s))"
definition down_sink where "down_sink s = (downPump (localSide s), far (localSide s), near (localSide s))"

lemmas ends_defs = up_source_def up_sink_def down_source_def down_sink_def

definition cut_off :: "bytes \<Rightarrow> ('c, 'a) network \<Rightarrow> bool" where
  "cut_off all s \<longleftrightarrow> sockClosed (far (agentSide s)) \<and> sockEnd (far (agentSide s)) \<noteq> None
     \<and> downPump (agentSide s) = HalfClosed
     \<and> (\<exists>more. all = sockOut (far (agentSide s)) @ more \<and> (sockFin (far (agentSide s)) \<longrightarrow> more = []))"

definition net_inv :: "bytes \<Rightarrow> go_error option \<Rightarrow> bytes \<Rightarrow> ('c, 'a) network \<Rightarrow> bool" where
  "net_inv up e0 down s \<longleftrightarrow>
     up.source_inv up e0 (up_source s) \<and> good_log upCarries upCloses (upTaken s) (up_log L s)
     \<and> down.source_inv down (sock_ends (far (agentSide s))) (down_source s)
     \<and> down.sink_inv ended_well (down_log L s) (downTaken s) (down_sink s)
     \<and> (if handlerDone s then cut_off up s
        else up.sink_inv (\<lambda>r. True) (up_log L s) (upTaken s) (up_sink s) \<and> \<not> sockClosed (far (agentSide s)))"

definition net_left :: "('c, 'a) network \<Rightarrow> nat" where
  "net_left s = up.source_left (up_source s) (upTaken s)
     + (if handlerDone s then cut_rank (upPump (agentSide s))
        else up.second.flow_left (up_sink s) + 5)
     + down.source_left (down_source s) (downTaken s) + down.second.flow_left (down_sink s)
     + (if sockEnd (far (agentSide s)) = None then 1 else 0)"

lemma net_inv_parts:
  assumes "net_inv up e0 down s"
  shows "up.source_inv up e0 (upPump (localSide s), near (localSide s), far (localSide s))"
    and "good_log upCarries upCloses (upTaken s) (upLog (far (localSide s)))"
    and "down.source_inv down (sock_ends (far (agentSide s))) (downPump (agentSide s), far (agentSide s), near (agentSide s))"
    and "down.sink_inv ended_well (downLog (near (agentSide s))) (downTaken s)
      (downPump (localSide s), far (localSide s), near (localSide s))"
    and "\<not> handlerDone s \<Longrightarrow> up.sink_inv (\<lambda>r. True) (upLog (far (localSide s))) (upTaken s)
      (upPump (agentSide s), near (agentSide s), far (agentSide s))"
    and "\<not> handlerDone s \<Longrightarrow> \<not> sockClosed (far (agentSide s))"
    and "handlerDone s \<Longrightarrow> cut_off up s"
    and "invA (near (agentSide s))"
  using assms by (simp_all add: net_inv_def ends_defs down.source_inv_def down.first.flow_inv_def split: if_splits)

lemma net_client_up:
  assumes "net_inv up e0 down s" and "pump_step sock_ops CO (\<lambda>r. True) (upPump (localSide s), near (localSide s), far (localSide s)) = Some (p, l, c)"
    and "s' = s\<lparr>localSide := (localSide s)\<lparr>upPump := p, near := l, far := c\<rparr>\<rparr>"
  shows "net_inv up e0 down s' \<and> net_left s' < net_left s"
proof -
  let ?l = "localSide s" and ?a = "agentSide s"
  note parts = net_inv_parts [OF assms(1)]
  note us = parts(1) and g = parts(2) and ds = parts(3) and dk = parts(4) and uk = parts(5) and sc = parts(6) and cut = parts(7)
  note a = up.source_step [OF us g assms(2)]
  note b = down.sink_frame [OF dk assms(2)]
  show ?thesis
    using a b uk cut sc ds up.sink_log [of "\<lambda>r. True" "upLog (far ?l)" "upTaken s" _ "upLog c"]
    by (simp add: assms(3) net_inv_def net_left_def ends_defs cut_off_def)
qed

lemma net_client_down:
  assumes "net_inv up e0 down s" and "pump_step CO sock_ops ended_well (downPump (localSide s), far (localSide s), near (localSide s)) = Some (p, c, l)"
    and "s' = s\<lparr>localSide := (localSide s)\<lparr>downPump := p, far := c, near := l\<rparr>\<rparr>"
  shows "net_inv up e0 down s' \<and> net_left s' < net_left s"
proof -
  let ?l = "localSide s" and ?a = "agentSide s"
  note parts = net_inv_parts [OF assms(1)]
  note us = parts(1) and g = parts(2) and ds = parts(3) and dk = parts(4) and uk = parts(5) and sc = parts(6) and cut = parts(7)
  note a = down.sink_step [OF dk assms(2)]
  note b = up.source_frame [OF us assms(2)]
  show ?thesis
    using a b uk cut sc ds g by (simp add: assms(3) net_inv_def net_left_def ends_defs cut_off_def)
qed

lemma net_agent_up:
  assumes "net_inv up e0 down s" and "pump_step AO sock_ops (\<lambda>r. True) (upPump (agentSide s), near (agentSide s), far (agentSide s)) = Some (p, c, t)"
    and "s' = s\<lparr>agentSide := (agentSide s)\<lparr>upPump := p, near := c, far := t\<rparr>\<rparr>"
  shows "net_inv up e0 down s' \<and> net_left s' < net_left s"
proof -
  let ?l = "localSide s" and ?a = "agentSide s"
  note parts = net_inv_parts [OF assms(1)]
  note us = parts(1) and g = parts(2) and ds = parts(3) and dk = parts(4) and uk = parts(5) and sc = parts(6) and cut = parts(7) and inv = parts(8)
  note a = down.source_frame [OF ds assms(2)]
  have k: "sockEnd t = sockEnd (far ?a) \<and> sockClosed t = sockClosed (far ?a)"
    using pump_sock_keeps(2) [OF assms(2)] by blast
  then have e: "sock_ends t = sock_ends (far ?a)" by (simp add: sock_ends_def)
  show ?thesis
  proof (cases "handlerDone s")
    case True
    with pump_cut [OF assms(2) _ inv] cut True k
    show ?thesis using a e us g dk True
      by (simp add: assms(3) net_inv_def net_left_def ends_defs cut_off_def)
  next
    case False
    from up.sink_step [OF uk [OF False] assms(2)] show ?thesis using a e k us g dk False sc
      by (simp add: assms(3) net_inv_def net_left_def ends_defs)
  qed
qed

lemma net_agent_down:
  assumes "net_inv up e0 down s" and "pump_step sock_ops AO (\<lambda>r. True) (downPump (agentSide s), far (agentSide s), near (agentSide s)) = Some (p, t, c)"
    and "s' = s\<lparr>agentSide := (agentSide s)\<lparr>downPump := p, far := t, near := c\<rparr>\<rparr>"
  shows "net_inv up e0 down s' \<and> net_left s' < net_left s"
proof -
  let ?l = "localSide s" and ?a = "agentSide s"
  note parts = net_inv_parts [OF assms(1)]
  note us = parts(1) and g = parts(2) and ds = parts(3) and dk = parts(4) and uk = parts(5) and sc = parts(6) and cut = parts(7)
  from assms(2) have open_: "\<not> handlerDone s" using cut by (auto simp: cut_off_def pump_step_def)
  have k: "sockEnd t = sockEnd (far ?a) \<and> sockClosed t = sockClosed (far ?a)"
    using pump_sock_keeps(1) [OF assms(2)] by blast
  then have e: "sock_ends t = sock_ends (far ?a)" by (simp add: sock_ends_def)
  from dk have "good_log downCarries downCloses (downTaken s) (downLog (near ?a))" by (simp add: down.sink_inv_def)
  note a = down.source_step [OF ds this assms(2)]
  note b = up.sink_frame [OF uk [OF open_] assms(2)]
  show ?thesis
    using a b e k us g sc down.sink_log [OF dk, of "downLog c"] open_
    by (simp add: assms(3) net_inv_def net_left_def ends_defs)
qed

lemma net_carry_up:
  assumes "net_inv up e0 down s" and "\<not> handlerDone s" and "upTaken s < length (upLog (far (localSide s)))"
    and "s' = s\<lparr>agentSide := (agentSide s)\<lparr>near := upFeed (upLog (far (localSide s)) ! upTaken s) (near (agentSide s))\<rparr>,
      upTaken := Suc (upTaken s)\<rparr>"
  shows "net_inv up e0 down s' \<and> net_left s' < net_left s"
proof -
  let ?l = "localSide s" and ?a = "agentSide s"
  note parts = net_inv_parts [OF assms(1)]
  note us = parts(1) and ds = parts(3) and dk = parts(4) and uk = parts(5) and sc = parts(6)
  let ?b = "upFeed (upLog (far ?l) ! upTaken s) (near ?a)"
  from assms have n: "upTaken s < length (upLog (far ?l))" by simp
  note a = up.sink_carry [OF uk [OF assms(2)] n]
  from a have "invA ?b" by (simp add: up.sink_inv_def up.second.flow_inv_def)
  then have b: "down.source_inv down (sock_ends (far ?a)) (downPump ?a, far ?a, ?b)
      \<and> down.source_left (downPump ?a, far ?a, ?b) (downTaken s)
        = down.source_left (downPump ?a, far ?a, near ?a) (downTaken s)"
    by (intro down.source_turn [OF ds]) (simp_all add: up_turn down_turn)
  from a have "good_log upCarries upCloses (Suc (upTaken s)) (upLog (far ?l))"
    by (simp add: up.sink_inv_def)
  with a b us dk sc assms(2) show ?thesis
    by (simp add: assms(4) net_inv_def net_left_def up.source_left_def ends_defs up_turn)
qed

lemma net_carry_down:
  assumes "net_inv up e0 down s" and "downTaken s < length (downLog (near (agentSide s)))"
    and "s' = s\<lparr>localSide := (localSide s)\<lparr>far := downFeed (downLog (near (agentSide s)) ! downTaken s) (far (localSide s))\<rparr>,
      downTaken := Suc (downTaken s)\<rparr>"
  shows "net_inv up e0 down s' \<and> net_left s' < net_left s"
proof -
  let ?l = "localSide s" and ?a = "agentSide s"
  note parts = net_inv_parts [OF assms(1)]
  note us = parts(1) and g = parts(2) and ds = parts(3) and dk = parts(4) and uk = parts(5) and sc = parts(6) and cut = parts(7)
  let ?b = "downFeed (downLog (near ?a) ! downTaken s) (far ?l)"
  from assms have n: "downTaken s < length (downLog (near ?a))" by simp
  note a = down.sink_carry [OF dk n]
  from a have "invC ?b" by (simp add: down.sink_inv_def down.second.flow_inv_def)
  then have b: "up.source_inv up e0 (upPump ?l, near ?l, ?b)
      \<and> up.source_left (upPump ?l, near ?l, ?b) (upTaken s)
        = up.source_left (upPump ?l, near ?l, far ?l) (upTaken s)"
    by (intro up.source_turn [OF us]) (simp_all add: up_turn down_turn)
  with a b g ds uk sc cut show ?thesis
    by (simp add: assms(3) net_inv_def net_left_def down.source_left_def ends_defs cut_off_def down_turn)
qed

lemma net_returns:
  assumes "net_inv up e0 down s" and "\<not> handlerDone s" and "downPump (agentSide s) = HalfClosed"
    and "s' = s\<lparr>agentSide := (agentSide s)\<lparr>far := sock_Close (far (agentSide s))\<rparr>, handlerDone := True\<rparr>"
  shows "net_inv up e0 down s' \<and> net_left s' < net_left s"
proof -
  let ?l = "localSide s" and ?a = "agentSide s"
  note parts = net_inv_parts [OF assms(1)]
  note us = parts(1) and g = parts(2) and ds = parts(3) and dk = parts(4) and uk = parts(5) and sc = parts(6)
  have open_: "\<not> handlerDone s" by (rule assms(2))
  from ds assms(3) have ds': "down.source_inv down (sock_ends (far ?a)) (HalfClosed, far ?a, near ?a)" by simp
  note a = down.source_shut [OF this, of "sock_Close (far ?a)" ErrClosed "downTaken s"]
  note b = up.lane_prefix [OF us uk [OF open_]]
  have e: "sockEnd (far ?a) \<noteq> None"
    using ds' sc [OF open_]
    by (auto simp: down.source_inv_def down.first.flow_inv_def sock_ends_def)
  have c: "cut_rank p \<le> 3" for p by (cases p) auto
  from a b e us g dk assms(2,3) c [of "upPump ?a"] show ?thesis
    by (simp add: assms(4) net_inv_def net_left_def ends_defs cut_off_def sock_Close_def sock_pending_def sock_ends_def)
qed

lemma net_target_ends:
  assumes "net_inv up e0 down s" and "\<not> handlerDone s" and "sockFin (far (agentSide s))" and "sockEnd (far (agentSide s)) = None"
    and "s' = s\<lparr>agentSide := (agentSide s)\<lparr>far := (far (agentSide s))\<lparr>sockEnd := Some EOF\<rparr>\<rparr>\<rparr>"
  shows "net_inv up e0 down s' \<and> net_left s' < net_left s"
proof -
  let ?l = "localSide s" and ?a = "agentSide s"
  note parts = net_inv_parts [OF assms(1)]
  note us = parts(1) and g = parts(2) and ds = parts(3) and dk = parts(4) and uk = parts(5) and sc = parts(6)
  have open_: "\<not> handlerDone s" by (rule assms(2))
  let ?t = "(far ?a)\<lparr>sockEnd := Some EOF\<rparr>"
  note a = up.sink_turn [OF uk [OF open_], of ?t]
  have "sock_ends (far ?a) = None" using assms(4) sc [OF open_] by (simp add: sock_ends_def)
  with ds down.source_ends [of down "downPump ?a" "far ?a" "near ?a" ?t "sock_ends ?t" "downTaken s"]
  have "down.source_inv down (sock_ends ?t) (downPump ?a, ?t, near ?a)
    \<and> down.source_left (downPump ?a, ?t, near ?a) (downTaken s)
      = down.source_left (downPump ?a, far ?a, near ?a) (downTaken s)"
    by (simp add: sock_pending_def)
  with a us g dk open_ sc assms(4) show ?thesis
    by (simp add: assms(5) net_inv_def net_left_def ends_defs sock_open_def)
qed

lemma net_inv_step:
  assumes "net_inv up e0 down s" and "net_step L s s'"
  shows "net_inv up e0 down s' \<and> net_left s' < net_left s"
  using assms(2)
proof (cases rule: link_cases)
  case client_up
  then show ?thesis by (rule net_client_up [OF assms(1)])
next
  case client_down
  then show ?thesis by (rule net_client_down [OF assms(1)])
next
  case agent_up
  then show ?thesis by (rule net_agent_up [OF assms(1)])
next
  case agent_down
  then show ?thesis by (rule net_agent_down [OF assms(1)])
next
  case carry_up
  then show ?thesis by (rule net_carry_up [OF assms(1)])
next
  case carry_down
  then show ?thesis by (rule net_carry_down [OF assms(1)])
next
  case returns
  then show ?thesis by (rule net_returns [OF assms(1)])
next
  case target_ends
  then show ?thesis by (rule net_target_ends [OF assms(1)])
qed

lemma net_run:
  assumes "(net_step L)\<^sup>*\<^sup>* s s'" and "net_inv up e0 down s"
  shows "net_inv up e0 down s'"
  using assms by (induction rule: rtranclp_induct) (use net_inv_step in blast)+

lemma net_bound:
  assumes "net_inv up e0 down s" and "(net_step L ^^ k) s s'"
  shows "k + net_left s' \<le> net_left s"
  using assms(2)
proof (induction k arbitrary: s')
  case (Suc k)
  then obtain m where m: "(net_step L ^^ k) s m" "net_step L m s'" by auto
  have "net_inv up e0 down m" using net_run [OF _ assms(1)] m(1) by (simp add: relpowp_imp_rtranclp)
  from net_inv_step [OF this m(2)] Suc.IH [OF m(1)] show ?case by simp
qed simp

text \<open>Where nothing can act, every party waits.\<close>

lemma net_idle:
  assumes stuck: "\<And>s'. \<not> net_step L s s'"
  shows "pump_step sock_ops CO (\<lambda>r. True) (upPump (localSide s), near (localSide s), far (localSide s)) = None"
    and "pump_step CO sock_ops ended_well (downPump (localSide s), far (localSide s), near (localSide s)) = None"
    and "pump_step AO sock_ops (\<lambda>r. True) (upPump (agentSide s), near (agentSide s), far (agentSide s)) = None"
    and "pump_step sock_ops AO (\<lambda>r. True) (downPump (agentSide s), far (agentSide s), near (agentSide s)) = None"
    and "\<not> downTaken s < length (downLog (near (agentSide s)))"
    and "\<not> (\<not> handlerDone s \<and> upTaken s < length (upLog (far (localSide s))))"
    and "\<not> (\<not> handlerDone s \<and> downPump (agentSide s) = HalfClosed)"
    and "\<not> (\<not> handlerDone s \<and> sockFin (far (agentSide s)) \<and> sockEnd (far (agentSide s)) = None)"
proof -
  have "\<not> splice_step sock_ops CO (\<lambda>r. True) ended_well (localSide s) l" for l
    using stuck net_step.client [of L s l] by (auto simp: local_step_def)
  from splice_idle [OF this]
  show "pump_step sock_ops CO (\<lambda>r. True) (upPump (localSide s), near (localSide s), far (localSide s)) = None"
    "pump_step CO sock_ops ended_well (downPump (localSide s), far (localSide s), near (localSide s)) = None" .
  have "\<not> splice_step AO sock_ops (\<lambda>r. True) (\<lambda>r. True) (agentSide s) a" for a
    using stuck net_step.agent [of L s a] by (auto simp: tcp_step_def)
  from splice_idle [OF this]
  show "pump_step AO sock_ops (\<lambda>r. True) (upPump (agentSide s), near (agentSide s), far (agentSide s)) = None"
    "pump_step sock_ops AO (\<lambda>r. True) (downPump (agentSide s), far (agentSide s), near (agentSide s)) = None" .
  show "\<not> downTaken s < length (downLog (near (agentSide s)))"
    "\<not> (\<not> handlerDone s \<and> upTaken s < length (upLog (far (localSide s))))"
    "\<not> (\<not> handlerDone s \<and> sockFin (far (agentSide s)) \<and> sockEnd (far (agentSide s)) = None)"
    using stuck net_step.carry_down [of s L] net_step.carry_up [of s L] net_step.target_ends [of s L] by auto
  show "\<not> (\<not> handlerDone s \<and> downPump (agentSide s) = HalfClosed)"
    using stuck net_step.returns [of s None "near (agentSide s)" "sock_Close (far (agentSide s))" L]
    by (auto simp: handler_return_def)
qed

lemma net_stuck:
  assumes "net_inv up e0 down s" and "patient s" and "e0 \<noteq> None" and stuck: "\<And>s'. \<not> net_step L s s'"
  shows "delivered up down s"
proof -
  let ?l = "localSide s" and ?a = "agentSide s"
  note parts = net_inv_parts [OF assms(1)] and idle = net_idle [OF stuck]
  have up: "sockOut (far ?a) = up \<and> sockFin (far ?a) \<and> handlerDone s"
  proof (cases "handlerDone s")
    case True
    with parts(7) assms(2) show ?thesis by (auto simp: cut_off_def patient_def)
  next
    case False
    from up.lane_progress [OF parts(1) parts(5) [OF False] assms(3)] have "sockFin (far ?a)"
      by cases (use idle(1,3,6) False in auto)
    with idle(8) False parts(6) have "sock_ends (far ?a) \<noteq> None" by (simp add: sock_ends_def)
    from down.lane_progress [OF parts(3,4) this] have "downPump ?a = HalfClosed"
      by cases (use idle(2,4,5) in auto)
    with idle(7) False show ?thesis by simp
  qed
  have "sock_ends (far ?a) \<noteq> None" using up parts(7) by (simp add: cut_off_def sock_ends_def)
  from down.lane_progress [OF parts(3,4) this]
  have down: "sockOut (near ?l) = down \<and> sockFin (near ?l) \<and> downPump ?l = HalfClosed"
    by cases (use idle(2,4,5) in \<open>auto simp: ended_well_def\<close>)
  have "upPump ?l = HalfClosed"
    using up.first.flow_progress [of "\<lambda>r. True" up e0 "upPump ?l" "near ?l" "far ?l"] parts(1) assms(3) idle(1)
    by (auto simp: up.source_inv_def)
  with up down show ?thesis by (simp add: delivered_def splice_returns_def)
qed

lemma net_completes:
  assumes "net_inv up e0 down s" and "patient s" and "e0 \<noteq> None"
  shows "\<exists>s'. (net_step L)\<^sup>*\<^sup>* s s' \<and> delivered up down s'"
  using assms(1,2)
proof (induction "net_left s" arbitrary: s rule: less_induct)
  case less
  show ?case
  proof (cases "\<exists>s'. net_step L s s'")
    case True
    then obtain s' where s': "net_step L s s'" by blast
    note k = net_inv_step [OF less.prems(1) s']
    from less.hyps [OF conjunct2 [OF k] conjunct1 [OF k] patient_step [OF s' less.prems(2)]] s'
    show ?thesis by (meson converse_rtranclp_into_rtranclp)
  next
    case False
    with net_stuck [OF less.prems assms(3)] show ?thesis by blast
  qed
qed

lemma net_refines_step:
  assumes "net_inv up e0 down s" and "net_step L s s'"
  shows "(tunnel_spec up down)\<^sup>=\<^sup>= (seen s) (seen s')"
proof -
  note parts = net_inv_parts [OF assms(1)]
  from assms(2) show ?thesis
  proof (cases rule: link_cases)
    case (client_up p l c)
    with pump_sock_keeps(1) [OF client_up(1)] show ?thesis by (simp add: seen_def)
  next
    case (client_down p l c)
    with down.lane_refines [OF parts(3,4) client_down(1)] show ?thesis
      by (auto simp: seen_def intro: tunnel_spec.downward)
  next
    case (agent_up p c t)
    show ?thesis
    proof (cases "handlerDone s")
      case True
      with pump_cut [OF agent_up(1) _ parts(8)] parts(7) agent_up(2) show ?thesis by (simp add: seen_def cut_off_def)
    next
      case False
      from up.lane_refines [OF parts(1) parts(5) [OF False] agent_up(1)] agent_up(2) show ?thesis
        by (auto simp: seen_def intro: tunnel_spec.upward)
    qed
  next
    case (agent_down p c t)
    with pump_sock_keeps(1) [OF agent_down(1)] show ?thesis by (simp add: seen_def)
  qed (simp_all add: seen_def sock_Close_def)
qed

lemma net_refines_run:
  assumes "(net_step L)\<^sup>*\<^sup>* s s'" and "net_inv up e0 down s"
  shows "(tunnel_spec up down)\<^sup>*\<^sup>* (seen s) (seen s')"
  using assms(1)
proof (induction rule: rtranclp_induct)
  case (step m s')
  with net_refines_step [OF net_run [OF step(1) assms(2)] step(2)] show ?case by auto
qed simp

lemma net_cut_step:
  assumes "net_inv up e0 down s" and "net_step L s s'" and "handlerDone s"
  shows "handlerDone s' \<and> sockClosed (far (agentSide s')) \<and> upTaken s' = upTaken s
    \<and> sockOut (far (agentSide s')) = sockOut (far (agentSide s)) \<and> sockFin (far (agentSide s')) = sockFin (far (agentSide s))"
proof -
  note cut = net_inv_parts(7) [OF assms(1,3)]
  from assms(2) show ?thesis
  proof (cases rule: link_cases)
    case (agent_up p c t)
    with pump_cut [OF agent_up(1) _ net_inv_parts(8) [OF assms(1)]] pump_sock_keeps(2) [OF agent_up(1)] cut assms(3)
    show ?thesis by (simp add: cut_off_def)
  next
    case (agent_down p c t)
    with cut show ?thesis by (simp add: cut_off_def pump_step_def)
  qed (use cut assms(3) in \<open>simp_all add: cut_off_def\<close>)
qed

text \<open>A tunnel that has just been opened: nothing is on its way, and both programs are fresh.\<close>

lemma link_start:
  assumes "sock_open l" and "sockOut l = []" and "sock_open tcp" and "sockOut tcp = []"
    and C: "invC c" "openC c" "\<not> finC c" "contC c = []" "pendC c = []" "endsC c = None" "length (upLog c) = n"
    and A: "invA ag" "openA ag" "\<not> finA ag" "contA ag = []" "pendA ag = []" "endsA ag = None" "length (downLog ag) = n"
  shows "net_inv (sock_pending l) (sock_ends l) (sock_pending tcp) (net_start n l c (session_start ag tcp))"
proof -
  have t: "\<not> sockFin l" "\<not> sockFin tcp" "\<not> sockClosed tcp" using assms(1,3) by (simp_all add: sock_open_def)
  have "up.first.flow_inv (\<lambda>r. True) (sock_pending l) (sock_ends l) (Reading, l, c)"
    using up.first.flow_inv_start [where a = l and b = c and fins = "\<lambda>r. True"] C by simp
  moreover have "down.second.flow_inv ended_well [] None (Reading, c, l)"
    using down.second.flow_inv_start [where a = c and b = l and fins = ended_well] C assms(1,2) t by simp
  moreover have "down.first.flow_inv (\<lambda>r. True) (sock_pending tcp) (sock_ends tcp) (Reading, tcp, ag)"
    using down.first.flow_inv_start [where a = tcp and b = ag and fins = "\<lambda>r. True"] A by simp
  moreover have "up.second.flow_inv (\<lambda>r. True) [] None (Reading, ag, tcp)"
    using up.second.flow_inv_start [where a = ag and b = tcp and fins = "\<lambda>r. True"] A assms(3,4) t by simp
  moreover have logs: "\<not> list_ex upCloses (upLog c)" "\<not> list_ex downCloses (downLog ag)"
    "ev_data upPayload (upLog c) = []" "ev_data downPayload (downLog ag) = []"
    using C(3,4) A(3,4) by (simp_all add: up.finned_log up.content_log down.finned_log down.content_log)
  moreover have "good_log upCarries upCloses n (upLog c)" "good_log downCarries downCloses n (downLog ag)"
    using logs(1,2) C(7) A(7) by (auto simp: good_log_def list_ex_iff dest: in_set_butlastD)
  ultimately show ?thesis using t C(7) A(7)
    by (simp add: net_inv_def net_start_def ends_defs session_start_def up.source_inv_def up.sink_inv_def
        down.source_inv_def down.sink_inv_def ev_end_def)
qed

text \<open>What holds of the runs from there.\<close>

lemma link_carries:
  assumes "net_inv up e0 down s0" and "patient s0" and "e0 \<noteq> None" and "(net_step L)\<^sup>*\<^sup>* s0 s"
  shows "(\<exists>bound. \<forall>k s'. (net_step L ^^ k) s s' \<longrightarrow> k \<le> bound)
    \<and> ((\<nexists>s'. net_step L s s') \<longrightarrow> delivered up down s)
    \<and> (\<exists>s'. (net_step L)\<^sup>*\<^sup>* s s' \<and> delivered up down s')"
proof -
  note i = net_run [OF assms(4,1)] and w = patient_run [OF assms(4,2)]
  have "\<forall>k s'. (net_step L ^^ k) s s' \<longrightarrow> k \<le> net_left s" using net_bound [OF i] by fastforce
  with net_stuck [OF i w assms(3)] net_completes [OF i w assms(3)] show ?thesis by blast
qed

lemma link_refines:
  assumes "net_inv up e0 down s0" and "seen s0 = (([], False), ([], False))"
    and "(net_step L)\<^sup>*\<^sup>* s0 s" and "net_step L s s'"
  shows "(tunnel_spec up down)\<^sup>*\<^sup>* (([], False), ([], False)) (seen s)
    \<and> (tunnel_spec up down)\<^sup>=\<^sup>= (seen s) (seen s')
    \<and> (\<exists>more. up = sockOut (far (agentSide s)) @ more \<and> (sockFin (far (agentSide s)) \<longrightarrow> more = []))
    \<and> (\<exists>more. down = sockOut (near (localSide s)) @ more \<and> (sockFin (near (localSide s)) \<longrightarrow> more = []))"
proof -
  have r: "(tunnel_spec up down)\<^sup>*\<^sup>* (([], False), ([], False)) (seen s)"
    using net_refines_run [OF assms(3,1)] assms(2) by simp
  note q = spec_reach [OF this [unfolded seen_def]]
  from r net_refines_step [OF net_run [OF assms(3,1)] assms(4)] pipe_reach [OF conjunct1 [OF q]] pipe_reach [OF conjunct2 [OF q]]
  show ?thesis by blast
qed

lemma link_cut:
  assumes "net_inv up e0 down s0" and "(net_step L)\<^sup>*\<^sup>* s0 s" and "handlerDone s" and "(net_step L)\<^sup>*\<^sup>* s s'"
  shows "handlerDone s' \<and> sockClosed (far (agentSide s')) \<and> upTaken s' = upTaken s
    \<and> sockOut (far (agentSide s')) = sockOut (far (agentSide s)) \<and> sockFin (far (agentSide s')) = sockFin (far (agentSide s))"
  using assms(4)
proof (induction rule: rtranclp_induct)
  case base
  with net_run [OF assms(2,1)] assms(3) show ?case by (simp add: net_inv_def cut_off_def)
next
  case (step m s')
  from net_cut_step [OF net_run [OF step(1) net_run [OF assms(2,1)]] step(2)] step(3) show ?case by simp
qed

end

lemma fresh_seen:
  "sock_open l \<Longrightarrow> sockOut l = [] \<Longrightarrow> sock_open (far a) \<Longrightarrow> sockOut (far a) = [] \<Longrightarrow>
   seen (net_start n l c a) = (([], False), ([], False))"
  by (simp add: seen_def net_start_def session_start_def sock_open_def)

end
