(* ===== verification/Tunnels.thy ===== *)
theory Tunnels
  imports Tunnel Network
begin

text \<open>
  The tunnels of the program as links: over a Connect stream and over a WebSocket. Either transport is
  shown to satisfy \<open>lane\<close> in both directions and with that \<open>tunnel_link\<close>; the properties say what a
  tunnel over it does from the moment both ends have opened it.
\<close>

subsection \<open>Connect\<close>

type_synonym client_end = "client_stream conn \<times> client_stream"
type_synonym server_end = "server_stream conn \<times> server_stream"

text \<open>
  The peer of a stream receives the messages that were sent, and end of file where the sending was ended.
\<close>

fun is_close :: "'o sent_event \<Rightarrow> bool" where
  "is_close CloseReq = True"
| "is_close (Msg m) = False"

fun carried :: "'o sent_event \<Rightarrow> 'o result" where
  "carried (Msg m) = Inr m"
| "carried CloseReq = Inl EOF"

fun sent_payload :: "('o \<Rightarrow> bytes) \<Rightarrow> 'o sent_event \<Rightarrow> bytes" where
  "sent_payload d (Msg m) = d m"
| "sent_payload d CloseReq = []"

definition is_data :: "('o \<Rightarrow> bool) \<Rightarrow> 'o sent_event \<Rightarrow> bool" where
  "is_data ok ev \<longleftrightarrow> (\<exists>m. ev = Msg m \<and> ok m)"

definition arrive :: "'i sent_event \<Rightarrow> 'c \<times> ('i, 'o) stream \<Rightarrow> 'c \<times> ('i, 'o) stream" where
  "arrive ev x = (fst x, (snd x)\<lparr>inbox := inbox (snd x) @ [carried ev]\<rparr>)"

definition connect_link :: "(client_end, server_end, forward_request sent_event, forward_response sent_event) link" where
  "connect_link = \<lparr>client_ops = conn_ops conn_finish, agent_ops = conn_ops forward_finish,
     up_events = \<lambda>c. outbox (snd c), down_events = \<lambda>a. outbox (snd a), up_arrives = arrive, down_arrives = arrive\<rparr>"

lemma chunks_of_snoc: "end_of xs = None \<Longrightarrow> chunks_of (xs @ [Inr b]) = chunks_of xs @ b \<and> end_of (xs @ [Inr b]) = None"
  by (induction xs rule: end_of.induct) auto

lemma chunks_of_end:
  "end_of xs = None \<Longrightarrow> chunks_of (xs @ [Inl e]) = chunks_of xs \<and> end_of (xs @ [Inl e]) = Some (normalize e)"
  by (induction xs rule: end_of.induct) auto

lemma arrive_data:
  assumes "conn_ends (stream_script f) c = None" and "f m = Inr b"
  shows "conn_pending (stream_script f) (arrive (Msg m) c) = conn_pending (stream_script f) c @ b
    \<and> conn_ends (stream_script f) (arrive (Msg m) c) = None"
  using assms chunks_of_snoc [of "stream_script f (snd c)" b]
  by (cases c) (auto simp: arrive_def conn_ends_def conn_pending_def stream_script_def map_result_def split: option.splits)

lemma arrive_end:
  assumes "conn_ends (stream_script f) c = None"
  shows "conn_pending (stream_script f) (arrive CloseReq c) = conn_pending (stream_script f) c
    \<and> conn_ends (stream_script f) (arrive CloseReq c) = Some EOF"
  using assms chunks_of_end [of "stream_script f (snd c)" EOF]
  by (cases c) (auto simp: arrive_def conn_ends_def conn_pending_def stream_script_def map_result_def normalize_def
      split: option.splits)

lemma arrive_inv [simp]: "conn_over r (arrive x c) = conn_over r c" "fst (arrive x c) = fst c"
  "outbox (snd (arrive x c)) = outbox (snd c)" "sendErrs (snd (arrive x c)) = sendErrs (snd c)"
  by (simp_all add: arrive_def conn_over_def)

lemma outbox_read:
  assumes "conn_over (receive_with f) c" and "conn_Read n c = Some (r, c')"
  shows "outbox (snd c') = outbox (snd c)"
proof -
  have "outbox e' = outbox e" if "receive_with f e = Some (r, e')" for e r e'
    using that by (auto simp: receive_with_def stream_Receive_def split: list.splits)
  from recv_with.conn_Read_frame [of f outbox "fst c" n "snd c" r "fst c'" "snd c'", OF this] assms
  show ?thesis by (simp add: conn_over_def)
qed

lemma outbox_write:
  assumes "send (fst c) = (\<lambda>b. stream_Send (mk b))" and "writeErr (fst c) = None" and "sendErrs (snd c) = []"
    and "conn_Write x c = (w, c')" and "\<And>b. d (mk b) = b" and "\<And>b. ok (mk b)"
  shows "outbox (snd c') = outbox (snd c)
    \<or> (\<exists>ev. is_data ok ev \<and> sent_payload d ev = x \<and> outbox (snd c') = outbox (snd c) @ [ev])"
  using assms by (cases c) (auto simp: conn_Write_def stream_Send_def stream_emit_def is_data_def split: if_splits)

lemma log_content: "sent_data d s = ev_data (sent_payload d) (outbox s)" "stream_ended s \<longleftrightarrow> list_ex is_close (outbox s)"
proof -
  have "(\<lambda>m. case m of Msg x \<Rightarrow> False | CloseReq \<Rightarrow> True) = (is_close :: 'a sent_event \<Rightarrow> bool)"
    by (rule ext) (simp split: sent_event.split)
  moreover have "(\<lambda>m. case m of Msg x \<Rightarrow> d x | CloseReq \<Rightarrow> []) = sent_payload d"
    by (rule ext) (simp split: sent_event.split)
  ultimately show "sent_data d s = ev_data (sent_payload d) (outbox s)" "stream_ended s \<longleftrightarrow> list_ex is_close (outbox s)"
    by (simp_all add: sent_data_def ev_data_def stream_ended_def)
qed

lemma data_arrives:
  assumes "conn_ends (stream_script f) c = None" and "is_data ok ev" and "\<And>m. ok m \<Longrightarrow> f m = Inr (d m)"
  shows "conn_pending (stream_script f) (arrive ev c) = conn_pending (stream_script f) c @ sent_payload d ev
    \<and> conn_ends (stream_script f) (arrive ev c) = None"
proof -
  from assms(2) obtain m where m: "ev = Msg m" "ok m" by (auto simp: is_data_def)
  from arrive_data [where f = f, OF assms(1) assms(3) [OF m(2)]] m(1) show ?thesis by simp
qed

lemma close_arrives:
  assumes "conn_ends (stream_script f) c = None" and "is_close ev"
  shows "conn_pending (stream_script f) (arrive ev c) = conn_pending (stream_script f) c
    \<and> conn_ends (stream_script f) (arrive ev c) = Some EOF"
  using arrive_end [OF assms(1)] assms(2) by (cases ev) auto

interpretation connect_up: lane sock_ops sock_pending sock_ends "\<lambda>t. True" sockOut sock_open sockFin
  "conn_ops conn_finish" "conn_pending (stream_script client_payload)" "conn_ends (stream_script client_payload)"
  client.conn_inv "\<lambda>s. sent_data req_GetData (snd s)" "conn_writable request_send stream_accepts"
  "\<lambda>s. stream_ended (snd s)"
  "conn_ops forward_finish" "conn_pending (stream_script server_payload)"
  "conn_ends (stream_script server_payload)" server.conn_inv "\<lambda>s. sent_data resp_GetData (snd s)"
  "conn_writable response_send stream_accepts" "\<lambda>s. stream_ended (snd s)"
  sock_ops sock_pending sock_ends "\<lambda>t. True" sockOut sock_open sockFin
  "\<lambda>s. outbox (snd s)" "sent_payload req_GetData" "is_data (\<lambda>m. req_GetOpen m = None)" is_close arrive
proof
  fix b b' :: client_end and x w n r
  { show "sent_data req_GetData (snd b) = ev_data (sent_payload req_GetData) (outbox (snd b))" by (rule log_content) }
  { show "stream_ended (snd b) \<longleftrightarrow> list_ex is_close (outbox (snd b))" by (rule log_content) }
  { assume "client.conn_inv b" "conn_writable request_send stream_accepts b"
      "write_op (conn_ops conn_finish) x b = (w, b')"
    then show "outbox (snd b') = outbox (snd b)
      \<or> (\<exists>ev. is_data (\<lambda>m. req_GetOpen m = None) ev \<and> sent_payload req_GetData ev = x \<and> outbox (snd b') = outbox (snd b) @ [ev])"
      using outbox_write [of b ReqData x w b' req_GetData "\<lambda>m. req_GetOpen m = None"]
      by (simp add: conn_writable_def conn_ops_def stream_accepts_def request_send_def [abs_def]) }
  { assume "client.conn_inv b" "conn_writable request_send stream_accepts b"
    then have "closeSend (fst b) = Some stream_CloseRequest" "sendErrs (snd b) = []"
      by (simp_all add: client.conn_inv_def conn_writable_def stream_accepts_def)
    then show "\<exists>ev. is_close ev \<and> outbox (snd (fin_op (conn_ops conn_finish) b)) = outbox (snd b) @ [ev]"
      by (cases b) (simp add: conn_ops_def conn_finish_def conn_CloseWrite_def stream_CloseRequest_def stream_emit_def) }
  { assume "client.conn_inv b" "read_op (conn_ops conn_finish) n b = Some (r, b')"
    then show "outbox (snd b') = outbox (snd b)"
      using outbox_read [of client_payload b n r b'] by (simp add: client.conn_inv_def conn_ops_def) }
next
  fix ev :: "forward_request sent_event"
  { assume "is_data (\<lambda>m. req_GetOpen m = None) ev" then show "\<not> is_close ev" by (auto simp: is_data_def) }
  { assume "is_close ev" then show "sent_payload req_GetData ev = []" by (cases ev) auto }
  fix c :: server_end
  assume c: "server.conn_inv c" "conn_ends (stream_script server_payload) c = None"
  { assume ev: "is_data (\<lambda>m. req_GetOpen m = None) ev"
    from data_arrives [OF c(2) ev, of req_GetData] c(1)
    show "conn_pending (stream_script server_payload) (arrive ev c)
        = conn_pending (stream_script server_payload) c @ sent_payload req_GetData ev
      \<and> conn_ends (stream_script server_payload) (arrive ev c) = None \<and> server.conn_inv (arrive ev c)"
      by (simp add: server_payload_def server.conn_inv_def) }
  { assume ev: "is_close ev"
    from close_arrives [OF c(2) ev] c(1)
    show "conn_pending (stream_script server_payload) (arrive ev c) = conn_pending (stream_script server_payload) c
      \<and> conn_ends (stream_script server_payload) (arrive ev c) = Some EOF \<and> server.conn_inv (arrive ev c)"
      by (simp add: server.conn_inv_def) }
qed

interpretation connect_down: lane sock_ops sock_pending sock_ends "\<lambda>t. True" sockOut sock_open sockFin
  "conn_ops forward_finish" "conn_pending (stream_script server_payload)"
  "conn_ends (stream_script server_payload)" server.conn_inv "\<lambda>s. sent_data resp_GetData (snd s)"
  "conn_writable response_send stream_accepts" "\<lambda>s. stream_ended (snd s)"
  "conn_ops conn_finish" "conn_pending (stream_script client_payload)" "conn_ends (stream_script client_payload)"
  client.conn_inv "\<lambda>s. sent_data req_GetData (snd s)" "conn_writable request_send stream_accepts"
  "\<lambda>s. stream_ended (snd s)"
  sock_ops sock_pending sock_ends "\<lambda>t. True" sockOut sock_open sockFin
  "\<lambda>s. outbox (snd s)" "sent_payload resp_GetData" "is_data (\<lambda>m. True)" is_close arrive
proof
  fix b b' :: server_end and x w n r
  { show "sent_data resp_GetData (snd b) = ev_data (sent_payload resp_GetData) (outbox (snd b))" by (rule log_content) }
  { show "stream_ended (snd b) \<longleftrightarrow> list_ex is_close (outbox (snd b))" by (rule log_content) }
  { assume "server.conn_inv b" "conn_writable response_send stream_accepts b"
      "write_op (conn_ops forward_finish) x b = (w, b')"
    then show "outbox (snd b') = outbox (snd b)
      \<or> (\<exists>ev. is_data (\<lambda>m. True) ev \<and> sent_payload resp_GetData ev = x \<and> outbox (snd b') = outbox (snd b) @ [ev])"
      using outbox_write [of b RespData x w b' resp_GetData "\<lambda>m. True"]
      by (simp add: conn_writable_def conn_ops_def stream_accepts_def response_send_def [abs_def]) }
  { assume "server.conn_inv b" "conn_writable response_send stream_accepts b"
    then show "\<exists>ev. is_close ev \<and> outbox (snd (fin_op (conn_ops forward_finish) b)) = outbox (snd b) @ [ev]"
      by (cases b) (auto simp: conn_writable_def conn_ops_def forward_finish_def
          stream_accepts_def stream_CloseRequest_def stream_emit_def) }
  { assume "server.conn_inv b" "read_op (conn_ops forward_finish) n b = Some (r, b')"
    then show "outbox (snd b') = outbox (snd b)"
      using outbox_read [of server_payload b n r b'] by (simp add: server.conn_inv_def conn_ops_def) }
next
  fix ev :: "forward_response sent_event"
  { assume "is_data (\<lambda>m. True) ev" then show "\<not> is_close ev" by (auto simp: is_data_def) }
  { assume "is_close ev" then show "sent_payload resp_GetData ev = []" by (cases ev) auto }
  fix c :: client_end
  assume c: "client.conn_inv c" "conn_ends (stream_script client_payload) c = None"
  { assume ev: "is_data (\<lambda>m. True) ev"
    from data_arrives [OF c(2) ev, of resp_GetData] c(1)
    show "conn_pending (stream_script client_payload) (arrive ev c)
        = conn_pending (stream_script client_payload) c @ sent_payload resp_GetData ev
      \<and> conn_ends (stream_script client_payload) (arrive ev c) = None \<and> client.conn_inv (arrive ev c)"
      by (simp add: client_payload_def client.conn_inv_def) }
  { assume ev: "is_close ev"
    from close_arrives [OF c(2) ev] c(1)
    show "conn_pending (stream_script client_payload) (arrive ev c) = conn_pending (stream_script client_payload) c
      \<and> conn_ends (stream_script client_payload) (arrive ev c) = Some EOF \<and> client.conn_inv (arrive ev c)"
      by (simp add: client.conn_inv_def) }
qed

interpretation connect_net: tunnel_link
  "conn_ops conn_finish" "conn_pending (stream_script client_payload)" "conn_ends (stream_script client_payload)"
  client.conn_inv "\<lambda>s. sent_data req_GetData (snd s)" "conn_writable request_send stream_accepts"
  "\<lambda>s. stream_ended (snd s)"
  "conn_ops forward_finish" "conn_pending (stream_script server_payload)"
  "conn_ends (stream_script server_payload)" server.conn_inv "\<lambda>s. sent_data resp_GetData (snd s)"
  "conn_writable response_send stream_accepts" "\<lambda>s. stream_ended (snd s)"
  "\<lambda>s. outbox (snd s)" "sent_payload req_GetData" "is_data (\<lambda>m. req_GetOpen m = None)" is_close arrive
  "\<lambda>s. outbox (snd s)" "sent_payload resp_GetData" "is_data (\<lambda>m. True)" is_close arrive
  connect_link
  by unfold_locales (simp_all add: connect_link_def conn_writable_def stream_accepts_def)

subsection \<open>WebSocket\<close>

type_synonym ws_end = "ws conn \<times> ws"

text \<open>
  The peer of a socket reads the frames that were written, within its read limit, and the close that was
  sent. Upstream ends with the control message, downstream with the close of the socket.
\<close>

definition ws_arrive :: "ws_event \<Rightarrow> ws_end \<Rightarrow> ws_end" where
  "ws_arrive ev x = (fst x, (snd x)\<lparr>wsIn := wsIn (snd x) @ ws_deliver ReadLimit [ev]\<rparr>)"

definition ws_link :: "(ws_end, ws_end, ws_event, ws_event) link" where
  "ws_link = \<lparr>client_ops = conn_ops conn_finish, agent_ops = conn_ops ws_finish,
     up_events = \<lambda>c. wsOut (snd c), down_events = \<lambda>a. wsOut (snd a), up_arrives = ws_arrive, down_arrives = ws_arrive\<rparr>"

definition ws_data :: "ws_event \<Rightarrow> bool" where
  "ws_data ev \<longleftrightarrow> (\<exists>b. ev = Frame MessageBinary b \<and> length b \<le> ReadLimit)"

lemma ws_arrive_inv [simp]: "conn_over r (ws_arrive x c) = conn_over r c" "fst (ws_arrive x c) = fst c"
  "wsOut (snd (ws_arrive x c)) = wsOut (snd c)" "wsErrs (snd (ws_arrive x c)) = wsErrs (snd c)"
  "onceDone (snd (ws_arrive x c)) = onceDone (snd c)"
  by (simp_all add: ws_arrive_def conn_over_def)

lemma ws_data_arrives:
  assumes "conn_ends ws_script c = None" and "ws_data ev"
  shows "conn_pending ws_script (ws_arrive ev c) = conn_pending ws_script c @ frame_payload ev
    \<and> conn_ends ws_script (ws_arrive ev c) = None"
proof -
  from assms(2) obtain b where b: "ev = Frame MessageBinary b" "\<not> ReadLimit < length b" by (auto simp: ws_data_def)
  with assms(1) chunks_of_snoc [of "ws_script (snd c)" b] show ?thesis
    by (cases c) (auto simp: ws_arrive_def conn_ends_def conn_pending_def ws_script_def split: option.splits)
qed

lemma ws_end_arrives:
  assumes "conn_ends ws_script c = None" and "map ws_chunk (ws_deliver ReadLimit [ev]) = [Inl EOF]"
  shows "conn_pending ws_script (ws_arrive ev c) = conn_pending ws_script c
    \<and> conn_ends ws_script (ws_arrive ev c) = Some EOF"
  using assms chunks_of_end [of "ws_script (snd c)" EOF]
  by (cases c) (auto simp: ws_arrive_def conn_ends_def conn_pending_def ws_script_def normalize_def split: option.splits)

lemma ws_closes:
  "map ws_chunk (ws_deliver ReadLimit [Frame MessageText closeWrite]) = [Inl EOF]"
  "map ws_chunk (ws_deliver ReadLimit [CloseFrame StatusNormalClosure '''']) = [Inl EOF]"
proof -
  have "\<not> ReadLimit < length closeWrite" by (simp add: ReadLimit_def closeWrite_def)
  then show "map ws_chunk (ws_deliver ReadLimit [Frame MessageText closeWrite]) = [Inl EOF]" by simp
qed simp

lemma wsOut_read:
  assumes "conn_over ws_recv c" and "conn_Read n c = Some (r, c')"
  shows "wsOut (snd c') = wsOut (snd c)"
proof -
  have "wsOut e' = wsOut e" if "ws_recv e = Some (r, e')" for e r e'
    using that by (auto simp: ws_recv_def ws_Read_def split: list.splits)
  from ws_client.conn_Read_frame [of wsOut "fst c" n "snd c" r "fst c'" "snd c'", OF this] assms
  show ?thesis by (simp add: conn_over_def)
qed

lemma wsOut_write:
  assumes "conn_writable ws_send ws_accepts c" and "conn_Write x c = (w, c')" and "length x \<le> copy_buffer"
  shows "wsOut (snd c') = wsOut (snd c) \<or> (\<exists>ev. ws_data ev \<and> frame_payload ev = x \<and> wsOut (snd c') = wsOut (snd c) @ [ev])"
proof -
  have "length x \<le> ReadLimit" using assms(3) by (simp add: copy_buffer_def ReadLimit_def)
  with assms(1,2) show ?thesis
    by (cases c) (auto simp: conn_writable_def ws_accepts_def conn_Write_def ws_send_def ws_Write_def ws_emit_def
        ws_data_def split: if_splits)
qed

lemma ws_log_content: "ws_sent w = ev_data frame_payload (wsOut w)"
  by (simp add: ws_sent_def ev_data_def)

interpretation ws_up: lane sock_ops sock_pending sock_ends "\<lambda>t. True" sockOut sock_open sockFin
  "conn_ops conn_finish" "conn_pending ws_script" "conn_ends ws_script" ws_client.conn_inv
  "\<lambda>s. ws_sent (snd s)" "conn_writable ws_send ws_accepts" "\<lambda>s. ws_half_closed (snd s)"
  "conn_ops ws_finish" "conn_pending ws_script" "conn_ends ws_script" ws_server.conn_inv
  "\<lambda>s. ws_sent (snd s)" "conn_writable ws_send ws_accepts" "\<lambda>s. ws_close_sent (snd s)"
  sock_ops sock_pending sock_ends "\<lambda>t. True" sockOut sock_open sockFin
  "\<lambda>s. wsOut (snd s)" frame_payload ws_data "\<lambda>ev. ev = Frame MessageText closeWrite" ws_arrive
proof
  fix b b' :: ws_end and x w n r
  { show "ws_sent (snd b) = ev_data frame_payload (wsOut (snd b))" by (rule ws_log_content) }
  { show "ws_half_closed (snd b) \<longleftrightarrow> list_ex (\<lambda>ev. ev = Frame MessageText closeWrite) (wsOut (snd b))"
      by (simp add: ws_half_closed_def) }
  { assume "conn_writable ws_send ws_accepts b" "length x \<le> copy_buffer" "write_op (conn_ops conn_finish) x b = (w, b')"
    then show "wsOut (snd b') = wsOut (snd b)
      \<or> (\<exists>ev. ws_data ev \<and> frame_payload ev = x \<and> wsOut (snd b') = wsOut (snd b) @ [ev])"
      using wsOut_write [of b x w b'] by (simp add: conn_ops_def) }
  { assume "ws_client.conn_inv b" "conn_writable ws_send ws_accepts b"
    then have "closeSend (fst b) = Some ws_closeSend" "wsErrs (snd b) = []" "\<not> onceDone (snd b)"
      by (simp_all add: ws_client.conn_inv_def conn_writable_def ws_accepts_def)
    then show "\<exists>ev. ev = Frame MessageText closeWrite \<and> wsOut (snd (fin_op (conn_ops conn_finish) b)) = wsOut (snd b) @ [ev]"
      by (cases b) (simp add: conn_ops_def conn_finish_def conn_CloseWrite_def ws_closeSend_def ws_Write_def ws_emit_def) }
  { assume "ws_client.conn_inv b" "read_op (conn_ops conn_finish) n b = Some (r, b')"
    then show "wsOut (snd b') = wsOut (snd b)"
      using wsOut_read [of b n r b'] by (simp add: ws_client.conn_inv_def conn_ops_def) }
next
  fix ev
  { assume "ws_data ev" then show "ev \<noteq> Frame MessageText closeWrite" by (auto simp: ws_data_def) }
  { assume "ev = Frame MessageText closeWrite" then show "frame_payload ev = []" by simp }
  fix c
  assume c: "ws_server.conn_inv c" "conn_ends ws_script c = None"
  { assume ev: "ws_data ev"
    from ws_data_arrives [OF c(2) ev] c(1)
    show "conn_pending ws_script (ws_arrive ev c) = conn_pending ws_script c @ frame_payload ev
      \<and> conn_ends ws_script (ws_arrive ev c) = None \<and> ws_server.conn_inv (ws_arrive ev c)"
      by (simp add: ws_server.conn_inv_def) }
  { assume ev: "ev = Frame MessageText closeWrite"
    from ws_end_arrives [OF c(2) ws_closes(1)] c(1)
    show "conn_pending ws_script (ws_arrive ev c) = conn_pending ws_script c
      \<and> conn_ends ws_script (ws_arrive ev c) = Some EOF \<and> ws_server.conn_inv (ws_arrive ev c)"
      unfolding ev by (simp add: ws_server.conn_inv_def) }
qed

interpretation ws_down: lane sock_ops sock_pending sock_ends "\<lambda>t. True" sockOut sock_open sockFin
  "conn_ops ws_finish" "conn_pending ws_script" "conn_ends ws_script" ws_server.conn_inv
  "\<lambda>s. ws_sent (snd s)" "conn_writable ws_send ws_accepts" "\<lambda>s. ws_close_sent (snd s)"
  "conn_ops conn_finish" "conn_pending ws_script" "conn_ends ws_script" ws_client.conn_inv
  "\<lambda>s. ws_sent (snd s)" "conn_writable ws_send ws_accepts" "\<lambda>s. ws_half_closed (snd s)"
  sock_ops sock_pending sock_ends "\<lambda>t. True" sockOut sock_open sockFin
  "\<lambda>s. wsOut (snd s)" frame_payload ws_data "\<lambda>ev. ev = CloseFrame StatusNormalClosure ''''" ws_arrive
proof
  fix b b' :: ws_end and x w n r
  { show "ws_sent (snd b) = ev_data frame_payload (wsOut (snd b))" by (rule ws_log_content) }
  { show "ws_close_sent (snd b) \<longleftrightarrow> list_ex (\<lambda>ev. ev = CloseFrame StatusNormalClosure '''') (wsOut (snd b))"
      by (simp add: ws_close_sent_def) }
  { assume "conn_writable ws_send ws_accepts b" "length x \<le> copy_buffer" "write_op (conn_ops ws_finish) x b = (w, b')"
    then show "wsOut (snd b') = wsOut (snd b)
      \<or> (\<exists>ev. ws_data ev \<and> frame_payload ev = x \<and> wsOut (snd b') = wsOut (snd b) @ [ev])"
      using wsOut_write [of b x w b'] by (simp add: conn_ops_def) }
  { assume "conn_writable ws_send ws_accepts b"
    then have "wsErrs (snd b) = []" by (simp add: conn_writable_def ws_accepts_def)
    then show "\<exists>ev. ev = CloseFrame StatusNormalClosure '''' \<and> wsOut (snd (fin_op (conn_ops ws_finish) b)) = wsOut (snd b) @ [ev]"
      by (simp add: conn_ops_def ws_finish_def ws_Close_def ws_emit_def) }
  { assume "ws_server.conn_inv b" "read_op (conn_ops ws_finish) n b = Some (r, b')"
    then show "wsOut (snd b') = wsOut (snd b)"
      using wsOut_read [of b n r b'] by (simp add: ws_server.conn_inv_def conn_ops_def) }
next
  fix ev
  { assume "ws_data ev" then show "ev \<noteq> CloseFrame StatusNormalClosure ''''" by (auto simp: ws_data_def) }
  { assume "ev = CloseFrame StatusNormalClosure ''''" then show "frame_payload ev = []" by simp }
  fix c
  assume c: "ws_client.conn_inv c" "conn_ends ws_script c = None"
  { assume ev: "ws_data ev"
    from ws_data_arrives [OF c(2) ev] c(1)
    show "conn_pending ws_script (ws_arrive ev c) = conn_pending ws_script c @ frame_payload ev
      \<and> conn_ends ws_script (ws_arrive ev c) = None \<and> ws_client.conn_inv (ws_arrive ev c)"
      by (simp add: ws_client.conn_inv_def) }
  { assume ev: "ev = CloseFrame StatusNormalClosure ''''"
    from ws_end_arrives [OF c(2) ws_closes(2)] c(1)
    show "conn_pending ws_script (ws_arrive ev c) = conn_pending ws_script c
      \<and> conn_ends ws_script (ws_arrive ev c) = Some EOF \<and> ws_client.conn_inv (ws_arrive ev c)"
      unfolding ev by (simp add: ws_client.conn_inv_def) }
qed

interpretation ws_net: tunnel_link
  "conn_ops conn_finish" "conn_pending ws_script" "conn_ends ws_script" ws_client.conn_inv
  "\<lambda>s. ws_sent (snd s)" "conn_writable ws_send ws_accepts" "\<lambda>s. ws_half_closed (snd s)"
  "conn_ops ws_finish" "conn_pending ws_script" "conn_ends ws_script" ws_server.conn_inv
  "\<lambda>s. ws_sent (snd s)" "conn_writable ws_send ws_accepts" "\<lambda>s. ws_close_sent (snd s)"
  "\<lambda>s. wsOut (snd s)" frame_payload ws_data "\<lambda>ev. ev = Frame MessageText closeWrite" ws_arrive
  "\<lambda>s. wsOut (snd s)" frame_payload ws_data "\<lambda>ev. ev = CloseFrame StatusNormalClosure ''''" ws_arrive
  ws_link
  by unfold_locales (simp_all add: ws_link_def conn_writable_def ws_accepts_def)

subsection \<open>Opening\<close>

abbreviation opened_by_agent :: client_stream where
  "opened_by_agent \<equiv> \<lparr>inbox = [Inr RespOpened], outbox = [], sendErrs = []\<rparr>"

abbreviation opened_by_client :: "string \<Rightarrow> server_stream" where
  "opened_by_client ep \<equiv> \<lparr>inbox = [Inr (ReqOpen ep)], outbox = [], sendErrs = []\<rparr>"

lemma client_opened:
  assumes "openConnect svc v t ep opened_by_agent = Some (Inr c, st)"
  shows "c = clientConn t \<and> st = \<lparr>inbox = [], outbox = [Msg (ReqOpen ep)], sendErrs = []\<rparr>"
  using assms by (auto simp: openConnect_def stream_Send_def stream_emit_def stream_Receive_def split: sum.splits)

lemma handled_splices:
  assumes "Handle sv dial ep ack c = Splicing a"
  shows "\<exists>c' tcp. run_ack ack c = (None, c') \<and> a = session_start c' tcp"
  using assms by (auto simp: Handle_def handleShell_def handleTCP_def split: sum.splits if_splits prod.splits option.splits)

lemma agent_opened:
  assumes "Forward sv dial peer (opened_by_client ep) = Some (Splicing a)"
  shows "\<exists>tcp. a = session_start (serverConn peer, \<lparr>inbox = [], outbox = [Msg RespOpened], sendErrs = []\<rparr>) tcp"
proof -
  from assms have "Handle sv dial ep forward_ack (serverConn peer, \<lparr>inbox = [], outbox = [], sendErrs = []\<rparr>) = Splicing a"
    by (simp add: Forward_def stream_Receive_def)
  from handled_splices [OF this] show ?thesis
    by (simp add: run_ack_def forward_ack_def sendOpened_def stream_Send_def stream_emit_def)
qed

lemma connect_start:
  assumes "openConnect svc v t ep opened_by_agent = Some (Inr c, st)"
    and "Forward sv dial peer (opened_by_client ep) = Some (Splicing a)"
    and "sock_open l" and "sockOut l = []" and "sock_open (far a)" and "sockOut (far a) = []"
  shows "connect_net.net_inv (concat (sockIn l)) (sock_ends l) (concat (sockIn (far a))) (net_start 1 l (c, st) a)"
proof -
  obtain tcp where a: "a = session_start (serverConn peer, \<lparr>inbox = [], outbox = [Msg RespOpened], sendErrs = []\<rparr>) tcp"
    using agent_opened [OF assms(2)] by blast
  let ?st = "\<lparr>inbox = [], outbox = [Msg (ReqOpen ep)], sendErrs = []\<rparr> :: client_stream"
    and ?sv = "\<lparr>inbox = [], outbox = [Msg RespOpened], sendErrs = []\<rparr> :: server_stream"
  have t: "sock_open tcp" "sockOut tcp = []" using assms(5,6) by (simp_all add: a session_start_def)
  have "connect_net.net_inv (sock_pending l) (sock_ends l) (sock_pending tcp)
      (net_start 1 l (clientConn t, ?st) (session_start (serverConn peer, ?sv) tcp))"
    by (rule connect_net.link_start [OF assms(3,4) t])
      (simp_all add: client.conn_inv_def server.conn_inv_def conn_over_def conn_writable_def stream_accepts_def
        stream_ended_def sent_data_def conn_pending_def conn_ends_def stream_script_def)
  then show ?thesis using client_opened [OF assms(1)] a assms(3) t
    by (simp add: sock_pending_def sock_open_def session_start_def)
qed

definition fresh_ws :: "ws \<Rightarrow> bool" where
  "fresh_ws w \<longleftrightarrow> wsIn w = [] \<and> wsOut w = [] \<and> wsErrs w = [] \<and> \<not> onceDone w"

lemma ws_start:
  assumes "openWS parse net v t ep = Inr (c, w)" and "fresh_ws w"
    and "wsHandler sv dial accept req = WsServed (Splicing a)" and "accept req = Inr u" and "fresh_ws u"
    and "sock_open l" and "sockOut l = []" and "sock_open (far a)" and "sockOut (far a) = []"
  shows "ws_net.net_inv (concat (sockIn l)) (sock_ends l) (concat (sockIn (far a))) (net_start 0 l (c, w) a)"
proof -
  obtain w0 where c: "wsconn_New ''client'' (tgName t) w0 = (c, w)"
    using assms(1) by (auto simp: openWS_def split: sum.splits)
  obtain ca u' where ca: "wsconn_NewServer (reqRemote req) u = (ca, u')" by (metis surj_pair)
  have "Handle sv dial (ws_endpoint req) None (ca, u') = Splicing a"
    using assms(3,4) ca by (simp add: wsHandler_def Let_def split: sum.splits)
  from handled_splices [OF this] obtain tcp where a: "a = session_start (ca, u') tcp" by (auto simp: run_ack_def)
  note k = ws_server_start [OF ca]
  have t: "sock_open tcp" "sockOut tcp = []" using assms(8,9) by (simp_all add: a session_start_def)
  have "ws_net.net_inv (sock_pending l) (sock_ends l) (sock_pending tcp)
      (net_start 0 l (c, w) (session_start (ca, u') tcp))"
    using c assms(2,5) k
    by (intro ws_net.link_start [OF assms(6,7) t])
      (auto simp: ws_client.conn_inv_def ws_server.conn_inv_def conn_over_def conn_writable_def ws_accepts_def
        fresh_ws_def ws_half_closed_def ws_close_sent_def ws_sent_def conn_pending_def conn_ends_def ws_script_def
        wsconn_New_def conn_New_def)
  then show ?thesis using a assms(6) t by (simp add: sock_pending_def sock_open_def session_start_def)
qed

subsection \<open>Properties\<close>

text \<open>
  C1: an open tunnel over Connect carries both directions to their ends. Let the target end its output
  only after its input has ended, and the local program end its own. Whatever the order in which the hosts
  and the network act, a run is bounded; where it cannot go on, the target has received all that the local
  program sent and the end behind it, the local program all that the target sent and the end behind it,
  the handler has returned and so has the client's copy; and every state of a run can reach such a state.
\<close>

theorem tunnel_carries_all:
  assumes "openConnect svc v t ep opened_by_agent = Some (Inr c, st)"
    and "Forward sv dial peer (opened_by_client ep) = Some (Splicing a)"
    and "sock_open l" and "sockOut l = []" and "sock_open (far a)" and "sockOut (far a) = []"
    and "sockEnd l \<noteq> None" and "sockEnd (far a) = None"
    and "(net_step connect_link)\<^sup>*\<^sup>* (net_start 1 l (c, st) a) s"
  shows "(\<exists>bound. \<forall>k s'. (net_step connect_link ^^ k) s s' \<longrightarrow> k \<le> bound)
    \<and> ((\<nexists>s'. net_step connect_link s s') \<longrightarrow> delivered (concat (sockIn l)) (concat (sockIn (far a))) s)
    \<and> (\<exists>s'. (net_step connect_link)\<^sup>*\<^sup>* s s' \<and> delivered (concat (sockIn l)) (concat (sockIn (far a))) s')"
  by (rule connect_net.link_carries [OF connect_start [OF assms(1-6)] _ _ assms(9)])
    (use assms(3,7,8) in \<open>simp_all add: patient_def net_start_def sock_ends_def sock_open_def\<close>)

definition demo_asker :: sock where
  "demo_asker = \<lparr>sockIn = [''hi'', ''!''], sockEnd = Some EOF, sockOut = [], sockErrs = [], sockFin = False, sockClosed = False\<rparr>"

definition demo_answerer :: sock where
  "demo_answerer = \<lparr>sockIn = [''ok''], sockEnd = None, sockOut = [], sockErrs = [], sockFin = False, sockClosed = False\<rparr>"

lemma demo_socks:
  "sock_open demo_asker" "sockOut demo_asker = []" "sockEnd demo_asker \<noteq> None" "concat (sockIn demo_asker) = ''hi!''"
  "sock_open (far (session_start c demo_answerer))" "sockOut (far (session_start c demo_answerer)) = []"
  "sockEnd (far (session_start c demo_answerer)) = None" "concat (sockIn (far (session_start c demo_answerer))) = ''ok''"
  by (simp_all add: demo_asker_def demo_answerer_def session_start_def sock_open_def)

lemma demo_opens:
  "openConnect (Inr ()) None demo_target ''db'' opened_by_agent
     = Some (Inr (clientConn demo_target), \<lparr>inbox = [], outbox = [Msg (ReqOpen ''db'')], sendErrs = []\<rparr>)"
  "Forward tcp_service (\<lambda>addr. Inr tcp) ''p'' (opened_by_client ''db'')
     = Some (Splicing (session_start (serverConn ''p'', \<lparr>inbox = [], outbox = [Msg RespOpened], sendErrs = []\<rparr>) tcp))"
  by (simp_all add: openConnect_def stream_Send_def stream_emit_def stream_Receive_def Forward_starts
      tcp_service_def ShellEndpoint_def)

lemma tunnel_carries_all_witness:
  "\<exists>c st a s'. openConnect (Inr ()) None demo_target ''db'' opened_by_agent = Some (Inr c, st)
     \<and> Forward tcp_service (\<lambda>addr. Inr demo_answerer) ''p'' (opened_by_client ''db'') = Some (Splicing a)
     \<and> (net_step connect_link)\<^sup>*\<^sup>* (net_start 1 demo_asker (c, st) a) s' \<and> delivered ''hi!'' ''ok'' s'"
  using tunnel_carries_all [OF demo_opens(1) demo_opens(2) demo_socks(1,2,5,6,3,7) rtranclp.rtrancl_refl] demo_opens
  unfolding demo_socks by blast


definition idle_ws :: ws where
  "idle_ws = \<lparr>wsIn = [], wsOut = [], wsErrs = [], readLimit = None, onceDone = False, cancelled = False, keepalive = None\<rparr>"

definition demo_net :: ws_net where
  "demo_net = \<lparr>ws_dial = \<lambda>u auth. Inr idle_ws, url_string = uPath\<rparr>"

definition demo_url :: url_parser where
  "demo_url raw = Inr \<lparr>uScheme = ''https'', uHost = ''box:8443'', uHostname = ''box'', uPort = ''8443'', uPath = [], uQuery = []\<rparr>"

lemma demo_upgrades:
  "\<exists>c w. openWS demo_url demo_net None demo_target ''db'' = Inr (c, w) \<and> fresh_ws w"
  "fresh_ws idle_ws"
  by (auto simp: openWS_def dialWS_def wsURL_def demo_url_def demo_net_def idle_ws_def fresh_ws_def wsconn_New_def
      split: prod.split)

lemma demo_accepts:
  "\<exists>c. wsHandler tcp_service (\<lambda>addr. Inr tcp) (\<lambda>r. Inr idle_ws) (demo_request\<lparr>query := [(EndpointParam, ''db'')]\<rparr>)
     = WsServed (Splicing (session_start c tcp))"
  by (rule exI [of _ "wsconn_NewServer (reqRemote demo_request) idle_ws"])
    (simp add: wsHandler_def Let_def ws_endpoint_def Resolve_def tcp_service_def ShellEndpoint_def Handle_def
      handleTCP_def run_ack_def)


text \<open>
  C5: an open tunnel refines two independent pipes. What the two outer ends see of it starts at nothing
  and changes only by steps of the abstract tunnel: more of what was sent arrives, or the end does,
  behind all of it. No step of a host or of the network makes both ends see something, and what is seen
  is a prefix at any time. Nothing is assumed of when either program ends its output.
\<close>

theorem tunnel_refines_pipes:
  assumes "openConnect svc v t ep opened_by_agent = Some (Inr c, st)"
    and "Forward sv dial peer (opened_by_client ep) = Some (Splicing a)"
    and "sock_open l" and "sockOut l = []" and "sock_open (far a)" and "sockOut (far a) = []"
    and "(net_step connect_link)\<^sup>*\<^sup>* (net_start 1 l (c, st) a) s" and "net_step connect_link s s'"
  shows "(tunnel_spec (concat (sockIn l)) (concat (sockIn (far a))))\<^sup>*\<^sup>* (([], False), ([], False)) (seen s)
    \<and> (tunnel_spec (concat (sockIn l)) (concat (sockIn (far a))))\<^sup>=\<^sup>= (seen s) (seen s')
    \<and> (\<exists>more. concat (sockIn l) = sockOut (far (agentSide s)) @ more \<and> (sockFin (far (agentSide s)) \<longrightarrow> more = []))
    \<and> (\<exists>more. concat (sockIn (far a)) = sockOut (near (localSide s)) @ more \<and> (sockFin (near (localSide s)) \<longrightarrow> more = []))"
  by (rule connect_net.link_refines [OF connect_start [OF assms(1-6)] fresh_seen [OF assms(3-6)] assms(7,8)])

lemma demo_first_step:
  "net_step connect_link (net_start n l x (session_start y demo_answerer))
     (net_start n l x (session_start y demo_answerer)\<lparr>agentSide := (session_start y demo_answerer)\<lparr>downPump := Writing ''ok'' None,
        far := demo_answerer\<lparr>sockIn := [[]]\<rparr>\<rparr>\<rparr>)"
  by (rule net_step.agent) (simp add: tcp_step_def splice_step.simps pump_step_def net_start_def session_start_def
      connect_link_def sock_ops_def sock_Read_def demo_answerer_def copy_buffer_def after_read_def)

lemma tunnel_refines_pipes_witness:
  "\<exists>s s'. net_step connect_link s s' \<and> (tunnel_spec ''hi!'' ''ok'')\<^sup>=\<^sup>= (seen s) (seen s')"
  using tunnel_refines_pipes [OF demo_opens(1) demo_opens(2) demo_socks(1,2,5,6) rtranclp.rtrancl_refl demo_first_step]
    demo_first_step
  unfolding demo_socks by blast

text \<open>
  C32: the return of the handler ends both directions. It returns as soon as the target's output has
  ended; from then on nothing more reaches the target, not even the end of its input, whatever of the
  upstream was still on its way.
\<close>

theorem return_cuts_upstream:
  assumes "openConnect svc v t ep opened_by_agent = Some (Inr c, st)"
    and "Forward sv dial peer (opened_by_client ep) = Some (Splicing a)"
    and "sock_open l" and "sockOut l = []" and "sock_open (far a)" and "sockOut (far a) = []"
    and "(net_step connect_link)\<^sup>*\<^sup>* (net_start 1 l (c, st) a) s" and "handlerDone s"
    and "(net_step connect_link)\<^sup>*\<^sup>* s s'"
  shows "handlerDone s' \<and> sockClosed (far (agentSide s')) \<and> upTaken s' = upTaken s
    \<and> sockOut (far (agentSide s')) = sockOut (far (agentSide s)) \<and> sockFin (far (agentSide s')) = sockFin (far (agentSide s))"
  by (rule connect_net.link_cut [OF connect_start [OF assms(1-6)] assms(7-9)])

definition demo_closer :: sock where
  "demo_closer = \<lparr>sockIn = [], sockEnd = Some EOF, sockOut = [], sockErrs = [], sockFin = False, sockClosed = False\<rparr>"

lemma demo_early_return:
  "\<exists>s. (net_step connect_link)\<^sup>*\<^sup>* (net_start n l x (session_start y demo_closer)) s \<and> handlerDone s
     \<and> sockOut (far (agentSide s)) = [] \<and> \<not> sockFin (far (agentSide s))"
proof -
  let ?a0 = "session_start y demo_closer"
  let ?a1 = "?a0\<lparr>downPump := Copied None, far := demo_closer, near := y\<rparr>"
  let ?a2 = "?a1\<lparr>downPump := HalfClosed, far := demo_closer, near := forward_finish y\<rparr>"
  let ?s0 = "net_start n l x ?a0"
  have "net_step connect_link ?s0 (?s0\<lparr>agentSide := ?a1\<rparr>)"
    unfolding net_start_def
    by (rule net_step.agent) (simp add: tcp_step_def splice_step.simps pump_step_def session_start_def
        connect_link_def sock_ops_def sock_Read_def demo_closer_def after_read_def copy_next_def copy_result_def)
  moreover have "net_step connect_link (?s0\<lparr>agentSide := ?a1\<rparr>) (?s0\<lparr>agentSide := ?a1\<rparr>\<lparr>agentSide := ?a2\<rparr>)"
    by (rule net_step.agent) (simp add: tcp_step_def splice_step.simps pump_step_def session_start_def conn_ops_def connect_link_def)
  moreover have "net_step connect_link (?s0\<lparr>agentSide := ?a1\<rparr>\<lparr>agentSide := ?a2\<rparr>)
      (?s0\<lparr>agentSide := ?a1\<rparr>\<lparr>agentSide := ?a2\<rparr>\<lparr>agentSide := ?a2\<lparr>near := forward_finish y, far := sock_Close demo_closer\<rparr>,
        handlerDone := True\<rparr>)" (is "net_step connect_link ?s2 ?s3")
    using net_step.returns [of ?s2 None "forward_finish y" "sock_Close demo_closer" connect_link]
    by (simp add: net_start_def handler_return_def)
  ultimately have "(net_step connect_link)\<^sup>*\<^sup>* ?s0 ?s3" by (meson converse_rtranclp_into_rtranclp rtranclp.rtrancl_refl)
  then show ?thesis by (intro exI [of _ ?s3]) (simp add: sock_Close_def demo_closer_def)
qed

lemma return_cuts_upstream_witness:
  "\<exists>c st a s. openConnect (Inr ()) None demo_target ''db'' opened_by_agent = Some (Inr c, st)
     \<and> Forward tcp_service (\<lambda>addr. Inr demo_closer) ''p'' (opened_by_client ''db'') = Some (Splicing a)
     \<and> (net_step connect_link)\<^sup>*\<^sup>* (net_start 1 demo_asker (c, st) a) s
     \<and> {s'. (net_step connect_link)\<^sup>*\<^sup>* s s'} \<subseteq> {s'. sockOut (far (agentSide s')) = [] \<and> \<not> sockFin (far (agentSide s'))}"
proof -
  let ?c = "(clientConn demo_target, \<lparr>inbox = [], outbox = [Msg (ReqOpen ''db'')], sendErrs = []\<rparr> :: client_stream)"
    and ?y = "(serverConn ''p'', \<lparr>inbox = [], outbox = [Msg RespOpened], sendErrs = []\<rparr> :: server_stream)"
  obtain s where s: "(net_step connect_link)\<^sup>*\<^sup>* (net_start 1 demo_asker ?c (session_start ?y demo_closer)) s" "handlerDone s"
    "sockOut (far (agentSide s)) = []" "\<not> sockFin (far (agentSide s))"
    using demo_early_return by blast
  have "sock_open (far (session_start ?y demo_closer))"
    "sockOut (far (session_start ?y demo_closer)) = []"
    by (simp_all add: demo_closer_def session_start_def sock_open_def)
  note cut = return_cuts_upstream [OF demo_opens(1) demo_opens(2) demo_socks(1,2) this s(1,2)]
  have "{s'. (net_step connect_link)\<^sup>*\<^sup>* s s'} \<subseteq> {s'. sockOut (far (agentSide s')) = [] \<and> \<not> sockFin (far (agentSide s'))}"
    using cut s(3,4) by auto
  with demo_opens s(1) show ?thesis by blast
qed

end
