(* ===== verification/Lossy.thy ===== *)
theory Lossy
  imports Network
begin

text \<open>
  A tunnel whose parts fail: sockets reset and refuse writes, sends fail, the stream breaks at either end,
  at any time. \<open>lossy\<close> adds to \<open>flow\<close> what a write that fails has done, \<open>lossy_lane\<close> and \<open>lossy_link\<close> to
  \<open>lane\<close> and \<open>tunnel_link\<close> what a failure leaves of the ends of a stream. What is left of the promises of
  a tunnel is that each side has a prefix of what the other sent, and nothing behind an end.
\<close>

subsection \<open>One direction on one host\<close>

text \<open>
  What has been taken of \<open>all\<close>: the whole of it as long as the source has not ended, and where \<open>strict\<close>,
  also where it has come to its own end.
\<close>

definition part_of :: "bool \<Rightarrow> go_error option \<Rightarrow> bytes \<Rightarrow> bytes \<Rightarrow> bool" where
  "part_of strict e got all \<longleftrightarrow> (\<exists>more. all = got @ more \<and> (e = None \<or> strict \<and> e = Some EOF \<longrightarrow> more = []))"

definition plain_end :: "bool \<Rightarrow> go_error option \<Rightarrow> bool" where
  "plain_end over r = (case r of None \<Rightarrow> True | Some e \<Rightarrow> if e = EOF then over else \<not> errors_is e EOF)"

lemma part_of_got: "part_of strict e (got @ c) all \<Longrightarrow> \<exists>more. all = got @ more"
  by (auto simp: part_of_def)

text \<open>
  A destination whose writes may fail: what it took is a part of what it was given, and the whole if it says
  so. A \<open>calm\<close> one never fails with an end of file.
\<close>

locale flaky_sink =
  fixes B :: "'b io_ops" and invB :: "'b \<Rightarrow> bool" and contentB :: "'b \<Rightarrow> bytes" and calm :: "'b \<Rightarrow> bool"
  assumes wr_part: "invB b \<Longrightarrow> write_op B x b = (w, b') \<Longrightarrow>
      \<exists>y z. x = y @ z \<and> contentB b' = contentB b @ y \<and> (w = (length x, None) \<longrightarrow> z = [])"
    and wr_calm: "invB b \<Longrightarrow> calm b \<Longrightarrow> write_op B x b = (w, b') \<Longrightarrow>
      calm b' \<and> (\<forall>e. snd w = Some e \<longrightarrow> \<not> errors_is e EOF)"
    and rd_calm: "invB b \<Longrightarrow> calm b \<Longrightarrow> read_op B n b = Some (r, b') \<Longrightarrow> calm b'"
    and fin_calm: "invB b \<Longrightarrow> calm b \<Longrightarrow> calm (fin_op B b)"

locale lossy =
  flow A pendingA endsA invA contentA openA finnedA B pendingB endsB invB contentB openB finnedB
  + flaky_sink B invB contentB calm
  for A :: "'a io_ops" and pendingA endsA invA contentA openA finnedA
  and B :: "'b io_ops" and pendingB endsB invB contentB openB finnedB and calm
begin

definition lossy_inv :: "bool \<Rightarrow> bool \<Rightarrow> bytes \<Rightarrow> pump \<times> 'a \<times> 'b \<Rightarrow> bool" where
  "lossy_inv strict over all x \<longleftrightarrow>
     (case x of (p, a, b) \<Rightarrow>
        invA a \<and> invB b \<and> (strict \<longrightarrow> calm b \<and> plain_end over (endsA a))
        \<and> (p \<noteq> HalfClosed \<longrightarrow> \<not> finnedB b)
        \<and> (case p of
             Reading \<Rightarrow> part_of strict (endsA a) (contentB b @ pendingA a) all
           | Writing c er \<Rightarrow> er = None \<and> length c \<le> copy_buffer
               \<and> part_of strict (endsA a) (contentB b @ c @ pendingA a) all
           | Copied r \<Rightarrow> (\<exists>more. all = contentB b @ more \<and> (strict \<and> ended_well r \<longrightarrow> more = [] \<and> over))
           | HalfClosed \<Rightarrow> (\<exists>more. all = contentB b @ more \<and> (strict \<and> finnedB b \<longrightarrow> more = [] \<and> over))))"

lemma lossy_start:
  "invA a \<Longrightarrow> invB b \<Longrightarrow> \<not> finnedB b \<Longrightarrow> (strict \<Longrightarrow> calm b \<and> plain_end over (endsA a)) \<Longrightarrow>
   lossy_inv strict over (contentB b @ pendingA a) (Reading, a, b)"
  by (simp add: lossy_inv_def part_of_def)

lemma lossy_step:
  assumes "lossy_inv strict over all (p, a, b)" and "pump_step A B fins (p, a, b) = Some (p', a', b')"
    and "\<And>r. strict \<Longrightarrow> fins r \<Longrightarrow> ended_well r"
  shows "lossy_inv strict over all (p', a', b')"
proof (cases p)
  case Reading
  then obtain c er where r: "read_op A copy_buffer a = Some ((c, er), a')" and y: "p' = after_read c er" "b' = b"
    using assms(2) by (auto simp: pump_step_def split: option.splits)
  have i: "invA a" "invB b" using assms(1) by (simp_all add: lossy_inv_def)
  have "0 < copy_buffer" by (simp add: copy_buffer_def)
  with s.src.rd_cases [OF i(1) _ r] have c: "pendingA a = c @ pendingA a'" "endsA a' = endsA a" "invA a'" "length c \<le> copy_buffer"
      and "er = None \<and> c \<noteq> [] \<or> er \<noteq> None \<and> er = endsA a \<and> c = [] \<and> pendingA a = []"
    by metis+
  from this(5) show ?thesis
  proof
    assume "er = None \<and> c \<noteq> []"
    with assms(1) y Reading c show ?thesis by (simp add: lossy_inv_def after_read_def)
  next
    assume "er \<noteq> None \<and> er = endsA a \<and> c = [] \<and> pendingA a = []"
    then obtain e where "er = Some e" "endsA a = Some e" "c = []" "pendingA a = []" by (metis not_None_eq)
    with assms(1) y Reading c show ?thesis
      by (auto simp: lossy_inv_def after_read_def copy_next_def copy_result_def part_of_def plain_end_def ended_well_def
          split: if_splits)
  qed
next
  case (Writing c er)
  have i: "invB b" "er = None" "\<not> finnedB b" using assms(1) Writing by (simp_all add: lossy_inv_def)
  obtain w where w: "write_op B c b = (w, b')" and y: "p' = after_write c None w" "a' = a"
    using assms(2) i(2) Writing by (auto simp: pump_step_def split: prod.splits)
  from wr_part [OF i(1) w] obtain u z where u: "c = u @ z" "contentB b' = contentB b @ u" "w = (length c, None) \<longrightarrow> z = []" by blast
  have k: "invB b'" "\<not> finnedB b'" using d.wr_keeps [OF i(1) w] i(3) by simp_all
  have calm: "strict \<Longrightarrow> calm b'" using wr_calm [OF i(1) _ w] assms(1) by (simp add: lossy_inv_def)
  show ?thesis
  proof (cases "w = (length c, None)")
    case True
    with u have "contentB b' = contentB b @ c" by simp
    moreover have "p' = Reading" using y(1) True by (simp add: after_write_def copy_next_def)
    ultimately show ?thesis using assms(1) Writing y(2) k calm by (simp add: lossy_inv_def)
  next
    case False
    then obtain e where e: "p' = Copied (Some e)" "snd w = Some e \<or> e = errors_new ''short write''"
      using y by (cases w) (auto simp: after_write_def split: if_splits)
    have "\<not> ended_well (Some e)" if strict
      using e(2) wr_calm [OF i(1) _ w] assms(1) that by (auto simp: lossy_inv_def ended_well_def)
    moreover have "\<exists>more. all = contentB b' @ more"
      using assms(1) Writing u(1,2) by (auto simp: lossy_inv_def part_of_def)
    ultimately show ?thesis using assms(1) e(1) y(2) k calm by (auto simp: lossy_inv_def)
  qed
next
  case (Copied r)
  have i: "invB b" using assms(1) by (simp add: lossy_inv_def)
  from d.fin_keeps [OF i] Copied assms fin_calm [OF i] show ?thesis
    by (auto simp: pump_step_def lossy_inv_def)
next
  case HalfClosed
  with assms(2) show ?thesis by (simp add: pump_step_def)
qed

lemma lossy_frame:
  assumes "lossy_inv strict over all (p, a, b)" and "pump_step B A fins (q, b, a) = Some (q', b', a')"
  shows "lossy_inv strict over all (p, a', b')"
proof -
  have i: "invA a" "invB b" using assms(1) by (simp_all add: lossy_inv_def)
  show ?thesis
  proof (cases q)
    case Reading
    then obtain c er where r: "read_op B copy_buffer b = Some ((c, er), b')" and "a' = a"
      using assms(2) by (auto simp: pump_step_def split: option.splits)
    moreover have "invB b'" using d.src.rd_cases [OF i(2) _ r] by (simp add: copy_buffer_def)
    ultimately show ?thesis
      using assms(1) d.rd_keeps [OF i(2) r] rd_calm [OF i(2) _ r] by (cases p) (auto simp: lossy_inv_def)
  next
    case (Writing c er)
    then obtain w where "write_op A c a = (w, a')" and "b' = b"
      using assms(2) by (auto simp: pump_step_def split: prod.splits)
    with assms(1) s.wr_keeps [of a c w a'] show ?thesis by (cases p) (auto simp: lossy_inv_def)
  next
    case (Copied r)
    with assms s.fin_keeps [of a] show ?thesis by (cases p) (auto simp: pump_step_def lossy_inv_def)
  next
    case HalfClosed
    with assms(2) show ?thesis by (simp add: pump_step_def)
  qed
qed

text \<open>More arrives, the end arrives, the source breaks or is unaffected, the destination changes.\<close>

lemma lossy_feed:
  assumes "lossy_inv strict False all (p, a, b)" and "invA a'" and "pendingA a' = pendingA a @ x"
    and "endsA a = None" and "endsA a' = None"
  shows "lossy_inv strict False (all @ x) (p, a', b)"
  using assms by (cases p) (auto simp: lossy_inv_def part_of_def)

lemma lossy_late:
  assumes "lossy_inv strict False all (p, a, b)" and "invA a'" and "pendingA a' = pendingA a"
    and "endsA a = Some e" and "endsA a' = Some e"
  shows "lossy_inv strict False (all @ x) (p, a', b)"
  using assms by (cases p) (auto simp: lossy_inv_def part_of_def plain_end_def)

lemma lossy_over:
  assumes "lossy_inv strict over all (p, a, b)" and "invA a'" and "pendingA a' = pendingA a"
    and "endsA a' = endsA a \<or> endsA a = None \<and> endsA a' = Some EOF"
  shows "lossy_inv strict True all (p, a', b)"
  using assms by (cases p) (auto simp: lossy_inv_def part_of_def plain_end_def split: option.splits if_splits)

lemma lossy_break:
  assumes "lossy_inv strict over all (p, a, b)" and "invA a'" and "pendingA a = pendingA a' @ x"
    and "endsA a' = Some e" and "strict \<Longrightarrow> \<not> errors_is e EOF"
  shows "lossy_inv strict over all (p, a', b)"
proof -
  have "e \<noteq> EOF" if strict using assms(5) [OF that] by auto
  with assms show ?thesis by (cases p) (auto simp: lossy_inv_def part_of_def plain_end_def)
qed

lemma lossy_same:
  assumes "lossy_inv strict over all (p, a, b)" and "invA a'" and "pendingA a' = pendingA a" and "endsA a' = endsA a"
  shows "lossy_inv strict over all (p, a', b)"
  using assms by (cases p) (auto simp: lossy_inv_def)

lemma lossy_turn:
  assumes "lossy_inv strict over all (p, a, b)" and "invB b'" and "contentB b' = contentB b"
    and "finnedB b' = finnedB b" and "strict \<Longrightarrow> calm b \<Longrightarrow> calm b'"
  shows "lossy_inv strict over all (p, a, b')"
  using assms by (cases p) (auto simp: lossy_inv_def)

text \<open>A direction whose source ends comes to its end, whatever becomes of the writes.\<close>

lemma lossy_left_step:
  assumes "lossy_inv strict over all (p, a, b)" and "pump_step A B fins (p, a, b) = Some (p', a', b')"
  shows "flow_left (p', a', b') < flow_left (p, a, b)"
proof (cases p)
  case Reading
  then obtain c er where r: "read_op A copy_buffer a = Some ((c, er), a')" and y: "p' = after_read c er"
    using assms(2) by (auto simp: pump_step_def split: option.splits)
  have "0 < copy_buffer" by (simp add: copy_buffer_def)
  moreover have "invA a" using assms(1) by (simp add: lossy_inv_def)
  ultimately have c: "pendingA a = c @ pendingA a'" "er = None \<and> c \<noteq> [] \<or> er \<noteq> None \<and> c = []"
    using s.src.rd_cases [OF _ _ r] by metis+
  from c(2) show ?thesis
  proof
    assume "er = None \<and> c \<noteq> []"
    moreover from this have "1 \<le> length c" by (simp add: Suc_le_eq)
    ultimately show ?thesis using Reading y c(1) by (simp add: flow_left_def after_read_def)
  qed (use Reading y c in \<open>auto simp: flow_left_def after_read_def copy_next_def\<close>)
next
  case (Writing c er)
  then have "er = None" using assms(1) by (simp add: lossy_inv_def)
  with Writing assms(2) show ?thesis
    by (auto simp: pump_step_def flow_left_def after_write_def copy_next_def split: prod.splits)
qed (use assms(2) in \<open>auto simp: pump_step_def flow_left_def\<close>)

lemma lossy_left_frame:
  assumes "lossy_inv strict over all (p, a, b)" and "pump_step B A fins (q, b, a) = Some (q', b', a')"
  shows "flow_left (p, a', b') = flow_left (p, a, b) \<and> endsA a' = endsA a"
proof -
  have i: "invA a" using assms(1) by (simp add: lossy_inv_def)
  from assms(2) show ?thesis
    by (cases q) (auto simp: pump_step_def flow_left_def s.fin_keeps [OF i] dest: s.wr_keeps [OF i]
        split: option.splits prod.splits)
qed

lemma lossy_ends_step:
  assumes "lossy_inv strict over all (p, a, b)" and "pump_step A B fins (p, a, b) = Some (p', a', b')"
  shows "endsA a' = endsA a"
proof (cases p)
  case Reading
  then obtain c er where r: "read_op A copy_buffer a = Some ((c, er), a')"
    using assms(2) by (auto simp: pump_step_def split: option.splits)
  have "0 < copy_buffer" by (simp add: copy_buffer_def)
  with s.src.rd_cases [OF _ _ r] assms(1) show ?thesis by (simp add: lossy_inv_def)
qed (use assms(2) in \<open>auto simp: pump_step_def split: prod.splits\<close>)

lemma lossy_progress:
  assumes "lossy_inv strict over all (p, a, b)" and "endsA a \<noteq> None" and "p \<noteq> HalfClosed"
  shows "\<exists>y. pump_step A B fins (p, a, b) = Some y"
proof (cases p)
  case Reading
  have "\<exists>c er a'. read_op A copy_buffer a = Some ((c, er), a')"
  proof (cases "pendingA a = []")
    case True
    with s.src.rd_end [of a] assms show ?thesis by (fastforce simp: lossy_inv_def)
  next
    case False
    with s.src.rd_data [of a copy_buffer] assms show ?thesis by (fastforce simp: lossy_inv_def copy_buffer_def)
  qed
  with Reading show ?thesis by (auto simp: pump_step_def)
qed (use assms in \<open>auto simp: pump_step_def split: prod.splits\<close>)

lemma lossy_prefix: "lossy_inv strict over all (p, a, b) \<Longrightarrow> \<exists>more. all = contentB b @ more"
  by (cases p) (auto simp: lossy_inv_def part_of_def)

lemma lossy_whole: "lossy_inv True over all (p, a, b) \<Longrightarrow> finnedB b \<Longrightarrow> contentB b = all \<and> over"
  by (cases p) (auto simp: lossy_inv_def)

lemma lossy_moves:
  assumes "lossy_inv strict over all (p, a, b)" and "pump_step A B fins (p, a, b) = Some (p', a', b')"
  shows "(contentB b' = contentB b \<and> finnedB b' = finnedB b)
    \<or> (\<exists>c. contentB b' = contentB b @ c \<and> \<not> finnedB b \<and> \<not> finnedB b')
    \<or> (contentB b' = contentB b \<and> \<not> finnedB b \<and> finnedB b')"
proof (cases p)
  case (Writing c er)
  from Writing assms(1) have b: "invB b" "\<not> finnedB b" by (simp_all add: lossy_inv_def)
  obtain w where w: "write_op B c b = (w, b')" using assms(2) Writing by (auto simp: pump_step_def split: prod.splits)
  from wr_part [OF b(1) w] d.wr_keeps [OF b(1) w] b(2) show ?thesis by metis
next
  case (Copied r)
  with assms d.fin_keeps [of b] show ?thesis by (auto simp: pump_step_def lossy_inv_def split: if_splits)
qed (use assms(2) in \<open>auto simp: pump_step_def split: option.splits\<close>)

end

subsection \<open>A session\<close>

text \<open>Both directions of a session come to their ends when their sources do, whatever becomes of the writes.\<close>

locale lossy_splicing =
  up: lossy A pendingA endsA invA contentA openA finnedA B pendingB endsB invB contentB openB finnedB calmB
  + down: lossy B pendingB endsB invB contentB openB finnedB A pendingA endsA invA contentA openA finnedA calmA
  for A :: "'a io_ops" and pendingA endsA invA contentA openA finnedA
  and B :: "'b io_ops" and pendingB endsB invB contentB openB finnedB and calmA calmB
begin

definition ending_inv :: "bytes \<Rightarrow> bytes \<Rightarrow> ('a, 'b) session \<Rightarrow> bool" where
  "ending_inv u d s \<longleftrightarrow>
     up.lossy_inv False False u (upPump s, near s, far s) \<and> down.lossy_inv False False d (downPump s, far s, near s)
     \<and> endsA (near s) \<noteq> None \<and> endsB (far s) \<noteq> None"

definition ending_left :: "('a, 'b) session \<Rightarrow> nat" where
  "ending_left s = up.flow_left (upPump s, near s, far s) + down.flow_left (downPump s, far s, near s)"

lemma ending_start:
  "invA a \<Longrightarrow> invB b \<Longrightarrow> \<not> finnedA a \<Longrightarrow> \<not> finnedB b \<Longrightarrow> endsA a \<noteq> None \<Longrightarrow> endsB b \<noteq> None \<Longrightarrow>
   ending_inv (contentB b @ pendingA a) (contentA a @ pendingB b) (session_start a b)"
  by (simp add: ending_inv_def session_start_def up.lossy_start down.lossy_start)

lemma ending_step:
  assumes "ending_inv u d s" and "splice_step A B fu fd s s'"
  shows "ending_inv u d s' \<and> ending_left s' < ending_left s"
proof -
  from assms(1) have i: "up.lossy_inv False False u (upPump s, near s, far s)"
    "down.lossy_inv False False d (downPump s, far s, near s)"
    by (simp_all add: ending_inv_def)
  from assms(2) show ?thesis
  proof (cases rule: splice_stepE)
    case (up p a b)
    from up.lossy_step [OF i(1) up(2)] up.lossy_left_step [OF i(1) up(2)] up.lossy_ends_step [OF i(1) up(2)]
      down.lossy_frame [OF i(2) up(2)] down.lossy_left_frame [OF i(2) up(2)] assms(1)
    show ?thesis by (simp add: up(1) ending_inv_def ending_left_def)
  next
    case (down p b a)
    from down.lossy_step [OF i(2) down(2)] down.lossy_left_step [OF i(2) down(2)] down.lossy_ends_step [OF i(2) down(2)]
      up.lossy_frame [OF i(1) down(2)] up.lossy_left_frame [OF i(1) down(2)] assms(1)
    show ?thesis by (simp add: down(1) ending_inv_def ending_left_def)
  qed
qed

lemma ending_run:
  assumes "ending_inv u d s" and "(splice_step A B fu fd ^^ n) s s'"
  shows "ending_inv u d s' \<and> n + ending_left s' \<le> ending_left s"
  using assms(2)
proof (induction n arbitrary: s')
  case (Suc n)
  then obtain m where m: "(splice_step A B fu fd ^^ n) s m" "splice_step A B fu fd m s'" by auto
  from Suc.IH [OF m(1)] ending_step [OF _ m(2)] show ?case by fastforce
qed (use assms(1) in simp)

lemma ending_stuck:
  assumes "ending_inv u d s" and "\<And>s'. \<not> splice_step A B fu fd s s'"
  shows "upPump s = HalfClosed \<and> downPump s = HalfClosed"
  using assms(1) splice_idle [OF assms(2)]
    up.lossy_progress [of False False u "upPump s" "near s" "far s" fu]
    down.lossy_progress [of False False d "downPump s" "far s" "near s" fd]
  by (auto simp: ending_inv_def)

lemma ending_completes:
  assumes "ending_inv u d s"
  shows "\<exists>s'. (splice_step A B fu fd)\<^sup>*\<^sup>* s s' \<and> upPump s' = HalfClosed \<and> downPump s' = HalfClosed"
  using assms
proof (induction "ending_left s" arbitrary: s rule: less_induct)
  case less
  show ?case
  proof (cases "\<exists>s1. splice_step A B fu fd s s1")
    case True
    then obtain s1 where s1: "splice_step A B fu fd s s1" by blast
    note k = ending_step [OF less.prems s1]
    from less.hyps [OF conjunct2 [OF k] conjunct1 [OF k]] s1 show ?thesis by (meson converse_rtranclp_into_rtranclp)
  next
    case False
    with ending_stuck [OF less.prems] show ?thesis by blast
  qed
qed

lemma ending_prefixes:
  assumes "ending_inv u d s"
  shows "(\<exists>more. u = contentB (far s) @ more) \<and> (\<exists>more. d = contentA (near s) @ more)"
  using assms up.lossy_prefix down.lossy_prefix unfolding ending_inv_def by blast

end

subsection \<open>One direction from end to end\<close>

text \<open>
  What the outer ends see of a direction whose parts may fail: more of what was sent, or an end, which may
  come too early; behind an end, nothing.
\<close>

inductive lossy_pipe :: "bytes \<Rightarrow> bytes \<times> bool \<Rightarrow> bytes \<times> bool \<Rightarrow> bool" for all where
  pass: "all = got @ c @ behind \<Longrightarrow> lossy_pipe all (got, False) (got @ c, False)"
| shut: "all = got @ behind \<Longrightarrow> lossy_pipe all (got, False) (got, True)"

inductive lossy_tunnel ::
    "bytes \<Rightarrow> bytes \<Rightarrow> (bytes \<times> bool) \<times> (bytes \<times> bool) \<Rightarrow> (bytes \<times> bool) \<times> (bytes \<times> bool) \<Rightarrow> bool" for up down where
  upward: "lossy_pipe up u u' \<Longrightarrow> lossy_tunnel up down (u, d) (u', d)"
| downward: "lossy_pipe down d d' \<Longrightarrow> lossy_tunnel up down (u, d) (u, d')"

lemma pipe_is_lossy: "pipe_step all x y \<Longrightarrow> lossy_pipe all x y"
  by (auto elim!: pipe_step.cases intro: lossy_pipe.pass lossy_pipe.shut [of all all "[]"])

text \<open>
  The messages of a failing direction: a write or a half-close that fails is not logged, and once the
  receiving end has ended, what still arrives changes nothing.
\<close>

locale lossy_lane =
  lane A pendingA endsA invA contentA openA finnedA B pendingB endsB invB contentB openB finnedB
    C pendingC endsC invC contentC openC finnedC D pendingD endsD invD contentD openD finnedD
    log payload carries closes feed
  + first: lossy A pendingA endsA invA contentA openA finnedA B pendingB endsB invB contentB openB finnedB calmB
  + second: lossy C pendingC endsC invC contentC openC finnedC D pendingD endsD invD contentD openD finnedD calmD
  for A :: "'a io_ops" and pendingA endsA invA contentA openA finnedA
  and B :: "'b io_ops" and pendingB endsB invB contentB openB finnedB
  and C :: "'c io_ops" and pendingC endsC invC contentC openC finnedC
  and D :: "'d io_ops" and pendingD endsD invD contentD openD finnedD
  and log :: "'b \<Rightarrow> 'ev list" and payload carries closes and feed :: "'ev \<Rightarrow> 'c \<Rightarrow> 'c"
  and calmB calmD +
  assumes write_logged: "invB b \<Longrightarrow> length x \<le> copy_buffer \<Longrightarrow> write_op B x b = (w, b') \<Longrightarrow>
      log b' = log b \<or> (\<exists>ev. carries ev \<and> payload ev = x \<and> log b' = log b @ [ev])"
    and fin_logged: "invB b \<Longrightarrow> log (fin_op B b) = log b \<or> (\<exists>ev. closes ev \<and> log (fin_op B b) = log b @ [ev])"
    and feed_late: "invC c \<Longrightarrow> endsC c = Some e \<Longrightarrow> carries ev \<or> closes ev \<Longrightarrow>
      pendingC (feed ev c) = pendingC c \<and> endsC (feed ev c) = Some e \<and> invC (feed ev c)"
begin

definition sender_inv :: "bytes \<Rightarrow> nat \<Rightarrow> pump \<times> 'a \<times> 'b \<Rightarrow> bool" where
  "sender_inv all n x \<longleftrightarrow> first.lossy_inv False False all x \<and> good_log carries closes n (log (snd (snd x)))"

definition receiver_inv :: "bool \<Rightarrow> 'ev list \<Rightarrow> nat \<Rightarrow> pump \<times> 'c \<times> 'd \<Rightarrow> bool" where
  "receiver_inv strict evs n x \<longleftrightarrow>
     n \<le> length evs \<and> second.lossy_inv strict (list_ex closes (take n evs)) (ev_data payload (take n evs)) x"

lemma sender_step:
  assumes "sender_inv all n (p, a, b)" and "pump_step A B (\<lambda>r. True) (p, a, b) = Some (p', a', b')"
  shows "sender_inv all n (p', a', b') \<and> take n (log b') = take n (log b) \<and> length (log b) \<le> length (log b')"
proof -
  from assms(1) have i: "first.lossy_inv False False all (p, a, b)" and g: "good_log carries closes n (log b)"
    by (simp_all add: sender_inv_def)
  from i have b: "invB b" "p \<noteq> HalfClosed \<Longrightarrow> \<not> finnedB b" by (simp_all add: first.lossy_inv_def)
  have n: "n \<le> length (log b)" using g by (simp add: good_log_def)
  have "log b' = log b \<or> (\<exists>ev. (carries ev \<or> closes ev) \<and> \<not> finnedB b \<and> log b' = log b @ [ev])"
  proof (cases p)
    case (Writing c er)
    then have "length c \<le> copy_buffer" using i by (simp add: first.lossy_inv_def)
    moreover obtain w where "write_op B c b = (w, b')"
      using assms(2) Writing by (auto simp: pump_step_def split: prod.splits)
    ultimately show ?thesis using write_logged [OF b(1), of c w b'] b(2) Writing by blast
  next
    case (Copied r)
    with assms(2) fin_logged [OF b(1)] b(2) show ?thesis by (auto simp: pump_step_def)
  qed (use assms(2) in \<open>auto simp: pump_step_def split: option.splits\<close>)
  with g n have "good_log carries closes n (log b') \<and> take n (log b') = take n (log b) \<and> length (log b) \<le> length (log b')"
    by (auto simp: good_log_snoc finned_log)
  with first.lossy_step [OF i assms(2)] show ?thesis by (simp add: sender_inv_def)
qed

lemma sender_frame:
  assumes "sender_inv all n (p, a, b)" and "pump_step B A fins (q, b, a) = Some (q', b', a')"
  shows "sender_inv all n (p, a', b') \<and> log b' = log b"
proof -
  from assms(1) have i: "first.lossy_inv False False all (p, a, b)" by (simp add: sender_inv_def)
  then have "invB b" by (simp add: first.lossy_inv_def)
  with assms(2) have "log b' = log b"
    by (cases q) (auto simp: pump_step_def dest: read_log split: option.splits prod.splits)
  with assms(1) first.lossy_frame [OF i assms(2)] show ?thesis by (simp add: sender_inv_def)
qed

lemma sender_turn:
  assumes "sender_inv all n (p, a, b)" and "invB b'" and "log b' = log b"
  shows "sender_inv all n (p, a, b')"
  using assms first.lossy_turn [of False False all p a b b'] by (simp add: sender_inv_def content_log finned_log)

lemma sender_source:
  assumes "sender_inv all n (p, a, b)" and "invA a'"
    and "pendingA a' = pendingA a \<and> endsA a' = endsA a \<or> (\<exists>x e. pendingA a = pendingA a' @ x \<and> endsA a' = Some e)"
  shows "sender_inv all n (p, a', b)"
  using assms first.lossy_same [of False False all p a b a'] first.lossy_break [of False False all p a b a']
  by (auto simp: sender_inv_def)

lemma sender_taken: "sender_inv all n (p, a, b) \<Longrightarrow> n < length (log b) \<Longrightarrow> sender_inv all (Suc n) (p, a, b)"
  by (auto simp: sender_inv_def dest: good_log_next(1))

lemma sender_prefix: "sender_inv all n (p, a, b) \<Longrightarrow> \<exists>more. all = ev_data payload (take n (log b)) @ more"
proof -
  assume "sender_inv all n (p, a, b)"
  then have "first.lossy_inv False False all (p, a, b)" by (simp add: sender_inv_def)
  from first.lossy_prefix [OF this] obtain more where "all = ev_data payload (log b) @ more" by (auto simp: content_log)
  moreover have "ev_data payload (log b) = ev_data payload (take n (log b)) @ ev_data payload (drop n (log b))"
    by (metis append_take_drop_id ev_simps(2))
  ultimately show ?thesis by auto
qed

lemma receiver_log:
  "receiver_inv strict evs n x \<Longrightarrow> take n evs' = take n evs \<Longrightarrow> length evs \<le> length evs' \<Longrightarrow> receiver_inv strict evs' n x"
  by (simp add: receiver_inv_def)

lemma receiver_step:
  assumes "receiver_inv strict evs n (p, c, d)" and "pump_step C D fins (p, c, d) = Some (p', c', d')"
    and "\<And>r. strict \<Longrightarrow> fins r \<Longrightarrow> ended_well r"
  shows "receiver_inv strict evs n (p', c', d')"
  using assms(1) second.lossy_step [OF _ assms(2,3)] by (auto simp: receiver_inv_def)

lemma receiver_frame:
  assumes "receiver_inv strict evs n (p, c, d)" and "pump_step D C fins (q, d, c) = Some (q', d', c')"
  shows "receiver_inv strict evs n (p, c', d')"
  using assms(1) second.lossy_frame [OF _ assms(2)] by (auto simp: receiver_inv_def)

lemma receiver_turn:
  assumes "receiver_inv strict evs n (p, c, d)" and "invD d'" and "contentD d' = contentD d"
    and "finnedD d' = finnedD d" and "strict \<Longrightarrow> calmD d \<Longrightarrow> calmD d'"
  shows "receiver_inv strict evs n (p, c, d')"
  using assms(1) second.lossy_turn [OF _ assms(2-5)] by (auto simp: receiver_inv_def)

lemma receiver_source:
  assumes "receiver_inv strict evs n (p, c, d)" and "invC c'"
    and "pendingC c' = pendingC c \<and> endsC c' = endsC c
      \<or> (\<exists>x e. pendingC c = pendingC c' @ x \<and> endsC c' = Some e \<and> (strict \<longrightarrow> \<not> errors_is e EOF))"
  shows "receiver_inv strict evs n (p, c', d)"
  using assms second.lossy_same [of strict "list_ex closes (take n evs)" "ev_data payload (take n evs)" p c d c']
    second.lossy_break [of strict "list_ex closes (take n evs)" "ev_data payload (take n evs)" p c d c']
  by (auto simp: receiver_inv_def)

lemma receiver_carry:
  assumes "receiver_inv strict evs n (p, c, d)" and g: "good_log carries closes n evs" and n: "n < length evs"
  shows "receiver_inv strict evs (Suc n) (p, feed (evs ! n) c, d)"
proof -
  note nx = good_log_next [OF g n]
  have none: "\<not> list_ex closes (take n evs)" using good_log_open [OF g n] by (simp add: ev_end_def split: if_splits)
  with assms(1) have i: "second.lossy_inv strict False (ev_data payload (take n evs)) (p, c, d)"
    by (simp add: receiver_inv_def)
  then have c: "invC c" by (simp add: second.lossy_inv_def)
  have "second.lossy_inv strict (closes (evs ! n)) (ev_data payload (take n evs) @ payload (evs ! n)) (p, feed (evs ! n) c, d)"
  proof (cases "closes (evs ! n)")
    case True
    have "pendingC (feed (evs ! n) c) = pendingC c \<and> invC (feed (evs ! n) c)
        \<and> (endsC (feed (evs ! n) c) = endsC c \<or> endsC c = None \<and> endsC (feed (evs ! n) c) = Some EOF)"
      using feed_end [OF c _ True] feed_late [OF c, of _ "evs ! n"] True by (cases "endsC c") auto
    with second.lossy_over [OF i, of "feed (evs ! n) c"] True closes_empty [OF True] show ?thesis by simp
  next
    case False
    with nx(4) have ev: "carries (evs ! n)" by blast
    show ?thesis
    proof (cases "endsC c")
      case None
      from second.lossy_feed [OF i _ _ None] feed_data [OF c None ev] False show ?thesis by simp
    next
      case (Some e)
      from second.lossy_late [OF i _ _ Some] feed_late [OF c Some] ev False show ?thesis by simp
    qed
  qed
  with nx(2) none n show ?thesis by (simp add: receiver_inv_def)
qed

lemma lossy_lane_prefix:
  assumes "sender_inv all n (p, a, b)" and "receiver_inv strict (log b) n (q, c, d)"
  shows "\<exists>more. all = contentD d @ more"
proof -
  from assms(2) have "second.lossy_inv strict (list_ex closes (take n (log b))) (ev_data payload (take n (log b))) (q, c, d)"
    by (simp add: receiver_inv_def)
  from second.lossy_prefix [OF this] sender_prefix [OF assms(1)] show ?thesis by auto
qed

lemma lossy_lane_refines:
  assumes "sender_inv all n (p, a, b)" and "receiver_inv strict (log b) n (q, c, d)"
    and "pump_step C D fins (q, c, d) = Some (q', c', d')" and "\<And>r. strict \<Longrightarrow> fins r \<Longrightarrow> ended_well r"
  shows "(lossy_pipe all)\<^sup>=\<^sup>= (contentD d, finnedD d) (contentD d', finnedD d')"
proof -
  from assms(2) have i: "second.lossy_inv strict (list_ex closes (take n (log b))) (ev_data payload (take n (log b))) (q, c, d)"
    by (simp add: receiver_inv_def)
  obtain more where more: "all = contentD d' @ more"
    using lossy_lane_prefix [OF assms(1) receiver_step [OF assms(2,3,4)]] by blast
  from second.lossy_moves [OF i assms(3)] show ?thesis
  proof (elim disjE exE conjE)
    fix x assume "contentD d' = contentD d @ x" "\<not> finnedD d" "\<not> finnedD d'"
    with more lossy_pipe.pass [of all "contentD d" x more] show ?thesis by simp
  next
    assume "contentD d' = contentD d" "\<not> finnedD d" "finnedD d'"
    with more lossy_pipe.shut [of all "contentD d" more] show ?thesis by simp
  qed simp
qed

text \<open>A destination that has been ended has all that was logged, and the log is closed.\<close>

lemma lossy_lane_whole:
  assumes "receiver_inv True (log b) n (q, c, d)" and "good_log carries closes n (log b)" and "finnedD d"
  shows "contentD d = contentB b \<and> finnedB b"
proof -
  from assms(1) have i: "second.lossy_inv True (list_ex closes (take n (log b))) (ev_data payload (take n (log b))) (q, c, d)"
    by (simp add: receiver_inv_def)
  note w = second.lossy_whole [OF i assms(3)]
  have "\<not> n < length (log b)" using good_log_open [OF assms(2)] w by (auto simp: ev_end_def)
  with w show ?thesis by (simp add: content_log finned_log)
qed

end

subsection \<open>Failures of a tunnel\<close>

text \<open>
  A socket may refuse writes from now on, in whole or in part, and it may be reset, with what it still had
  to give. \<open>E\<close> are the errors that failures show.
\<close>

definition no_eof :: "go_error set \<Rightarrow> bool" where
  "no_eof E \<longleftrightarrow> (\<forall>e\<in>E. \<not> errors_is e EOF)"

inductive sock_fault :: "go_error set \<Rightarrow> sock \<Rightarrow> sock \<Rightarrow> bool" for E where
  refuses: "set es \<subseteq> insert None (Some ` (UNIV \<times> E)) \<Longrightarrow> sock_fault E t (t\<lparr>sockErrs := es\<rparr>)"
| resets: "e \<in> E \<Longrightarrow> sock_fault E t (t\<lparr>sockIn := [], sockEnd := Some e\<rparr>)"

definition calm_sock :: "sock \<Rightarrow> bool" where
  "calm_sock t \<longleftrightarrow> list_all (\<lambda>r. case r of None \<Rightarrow> True | Some (n, e) \<Rightarrow> \<not> errors_is e EOF) (sockErrs t)"

text \<open>A tunnel in which either socket and either end of the stream may fail at any time, as \<open>CF\<close> and \<open>AF\<close> say.\<close>

inductive fault_step ::
    "('c, 'a, 'm, 'n) link \<Rightarrow> (go_error set \<Rightarrow> 'c \<Rightarrow> 'c \<Rightarrow> bool) \<Rightarrow> (go_error set \<Rightarrow> 'a \<Rightarrow> 'a \<Rightarrow> bool) \<Rightarrow> go_error set
     \<Rightarrow> ('c, 'a) network \<Rightarrow> ('c, 'a) network \<Rightarrow> bool" for L CF AF E where
  works: "net_step L s s' \<Longrightarrow> fault_step L CF AF E s s'"
| local_fails: "sock_fault E (near (localSide s)) t \<Longrightarrow>
    fault_step L CF AF E s (s\<lparr>localSide := (localSide s)\<lparr>near := t\<rparr>\<rparr>)"
| client_fails: "CF E (far (localSide s)) c \<Longrightarrow>
    fault_step L CF AF E s (s\<lparr>localSide := (localSide s)\<lparr>far := c\<rparr>\<rparr>)"
| agent_fails: "AF E (near (agentSide s)) a \<Longrightarrow>
    fault_step L CF AF E s (s\<lparr>agentSide := (agentSide s)\<lparr>near := a\<rparr>\<rparr>)"
| target_fails: "sock_fault E (far (agentSide s)) t \<Longrightarrow>
    fault_step L CF AF E s (s\<lparr>agentSide := (agentSide s)\<lparr>far := t\<rparr>\<rparr>)"

lemma sock_fault_keeps:
  assumes "sock_fault E t t'"
  shows "sockOut t' = sockOut t \<and> sockFin t' = sockFin t \<and> sockClosed t' = sockClosed t"
    and "sock_pending t' = sock_pending t \<and> sock_ends t' = sock_ends t
      \<or> (\<exists>x e. sock_pending t = sock_pending t' @ x \<and> sock_ends t' = Some e)"
    and "no_eof E \<Longrightarrow> calm_sock t \<Longrightarrow> calm_sock t'"
  using assms by (auto simp: sock_fault.simps sock_pending_def sock_ends_def calm_sock_def no_eof_def list_all_iff
      split: option.splits)

lemma sock_calm:
  "sock_open t \<Longrightarrow> calm_sock t"
  "calm_sock t \<Longrightarrow> sock_Write x t = (w, t') \<Longrightarrow> calm_sock t' \<and> (\<forall>e. snd w = Some e \<longrightarrow> \<not> errors_is e EOF)"
  "calm_sock t \<Longrightarrow> sock_Read n t = Some (r, t') \<Longrightarrow> calm_sock t'"
  "calm_sock t \<Longrightarrow> calm_sock (sock_CloseWrite t)"
  by (auto simp: calm_sock_def list_all_iff sock_open_def sock_Write_def sock_Read_def sock_CloseWrite_def
      split: if_splits list.splits option.splits)

lemma sock_writes_part:
  assumes "sock_Write x t = (w, t')"
  shows "\<exists>y z. x = y @ z \<and> sockOut t' = sockOut t @ y \<and> (w = (length x, None) \<longrightarrow> z = [])"
proof -
  from assms consider "sockOut t' = sockOut t" "w \<noteq> (length x, None)" | "sockOut t' = sockOut t @ x"
    | n e where "sockOut t' = sockOut t @ take n x" "w = (n, Some e)"
    by (auto simp: sock_Write_def split: if_splits list.splits option.splits)
  then show ?thesis
  proof cases
    case 1
    then show ?thesis by (intro exI [of _ "[]"] exI [of _ x]) simp
  next
    case 2
    then show ?thesis by (intro exI [of _ x] exI [of _ "[]"]) simp
  next
    case (3 n e)
    then show ?thesis by (intro exI [of _ "take n x"] exI [of _ "drop n x"]) simp
  qed
qed

interpretation sock_flaky: flaky_sink sock_ops "\<lambda>t. True" sockOut calm_sock
proof (unfold_locales, goal_cases)
  case 1
  then show ?case by (simp add: sock_ops_def sock_writes_part)
next
  case 2
  then show ?case using sock_calm(2) by (simp add: sock_ops_def)
next
  case 3
  then show ?case using sock_calm(3) by (simp add: sock_ops_def)
next
  case 4
  then show ?case by (simp add: sock_ops_def sock_calm(4))
qed

subsection \<open>The tunnel\<close>

locale lossy_link =
  tunnel_link CO pendC endsC invC contC openC finC AO pendA endsA invA contA openA finA
    upLog upPayload upCarries upCloses upFeed downLog downPayload downCarries downCloses downFeed L
  + up: lossy_lane sock_ops sock_pending sock_ends "\<lambda>t. True" sockOut sock_open sockFin
    CO pendC endsC invC contC openC finC AO pendA endsA invA contA openA finA
    sock_ops sock_pending sock_ends "\<lambda>t. True" sockOut sock_open sockFin
    upLog upPayload upCarries upCloses upFeed "\<lambda>c. False" calm_sock
  + down: lossy_lane sock_ops sock_pending sock_ends "\<lambda>t. True" sockOut sock_open sockFin
    AO pendA endsA invA contA openA finA CO pendC endsC invC contC openC finC
    sock_ops sock_pending sock_ends "\<lambda>t. True" sockOut sock_open sockFin
    downLog downPayload downCarries downCloses downFeed "\<lambda>a. False" calm_sock
  for CO :: "'c io_ops" and pendC endsC invC contC openC finC
  and AO :: "'a io_ops" and pendA endsA invA contA openA finA
  and upLog :: "'c \<Rightarrow> 'm list" and upPayload upCarries upCloses upFeed
  and downLog :: "'a \<Rightarrow> 'n list" and downPayload downCarries downCloses downFeed
  and L :: "('c, 'a, 'm, 'n) link" +
  fixes CF :: "go_error set \<Rightarrow> 'c \<Rightarrow> 'c \<Rightarrow> bool" and AF :: "go_error set \<Rightarrow> 'a \<Rightarrow> 'a \<Rightarrow> bool"
    and plainE :: "go_error set \<Rightarrow> bool"
  assumes plain_no_eof: "plainE E \<Longrightarrow> no_eof E"
    and C_fault: "invC c \<Longrightarrow> CF E c c' \<Longrightarrow> invC c' \<and> upLog c' = upLog c
      \<and> (pendC c' = pendC c \<and> endsC c' = endsC c
         \<or> (\<exists>x e. pendC c = pendC c' @ x \<and> endsC c' = Some e \<and> (plainE E \<longrightarrow> \<not> errors_is e EOF)))"
    and A_fault: "invA a \<Longrightarrow> AF E a a' \<Longrightarrow> invA a' \<and> downLog a' = downLog a
      \<and> (pendA a' = pendA a \<and> endsA a' = endsA a
         \<or> (\<exists>x e. pendA a = pendA a' @ x \<and> endsA a' = Some e \<and> (plainE E \<longrightarrow> \<not> errors_is e EOF)))"
begin

definition fault_inv :: "bool \<Rightarrow> bytes \<Rightarrow> bytes \<Rightarrow> ('c, 'a) network \<Rightarrow> bool" where
  "fault_inv strict up down s \<longleftrightarrow>
     up.sender_inv up (upTaken s) (up_source s) \<and> down.sender_inv down (downTaken s) (down_source s)
     \<and> down.receiver_inv strict (down_log L s) (downTaken s) (down_sink s)
     \<and> (if handlerDone s
        then sockClosed (far (agentSide s)) \<and> downPump (agentSide s) = HalfClosed
          \<and> (\<exists>more. up = sockOut (far (agentSide s)) @ more)
        else up.receiver_inv False (up_log L s) (upTaken s) (up_sink s))"

lemma fault_inv_parts:
  assumes "fault_inv strict up down s"
  shows "up.sender_inv up (upTaken s) (upPump (localSide s), near (localSide s), far (localSide s))"
    and "down.sender_inv down (downTaken s) (downPump (agentSide s), far (agentSide s), near (agentSide s))"
    and "down.receiver_inv strict (downLog (near (agentSide s))) (downTaken s)
      (downPump (localSide s), far (localSide s), near (localSide s))"
    and "\<not> handlerDone s \<Longrightarrow> up.receiver_inv False (upLog (far (localSide s))) (upTaken s)
      (upPump (agentSide s), near (agentSide s), far (agentSide s))"
    and "handlerDone s \<Longrightarrow> sockClosed (far (agentSide s)) \<and> downPump (agentSide s) = HalfClosed
      \<and> (\<exists>more. up = sockOut (far (agentSide s)) @ more)"
    and "invA (near (agentSide s))" and "invC (far (localSide s))"
    and "good_log upCarries upCloses (upTaken s) (upLog (far (localSide s)))"
    and "good_log downCarries downCloses (downTaken s) (downLog (near (agentSide s)))"
  using assms by (simp_all add: fault_inv_def ends_defs up.sender_inv_def down.sender_inv_def
      up.first.lossy_inv_def down.first.lossy_inv_def split: if_splits)

lemma fault_net_step:
  assumes "fault_inv strict up down s" and "net_step L s s'"
  shows "fault_inv strict up down s'"
proof -
  note parts = fault_inv_parts [OF assms(1)]
  from assms(2) show ?thesis
  proof (cases rule: link_cases)
    case (client_up p l c)
    note a = up.sender_step [OF parts(1) client_up(1)] and b = down.receiver_frame [OF parts(3) client_up(1)]
    from a have "up.receiver_inv False (upLog c) (upTaken s) (upPump (agentSide s), near (agentSide s), far (agentSide s))"
      if "\<not> handlerDone s" using up.receiver_log [OF parts(4) [OF that]] by simp
    with a b parts show ?thesis by (simp add: client_up(2) fault_inv_def ends_defs)
  next
    case (client_down p l c)
    note a = up.sender_frame [OF parts(1) client_down(1)]
    have "down.receiver_inv strict (downLog (near (agentSide s))) (downTaken s) (p, c, l)"
      by (rule down.receiver_step [OF parts(3) client_down(1)])
    with a parts show ?thesis by (simp add: client_down(2) fault_inv_def ends_defs)
  next
    case (agent_up p c t)
    note a = down.sender_frame [OF parts(2) agent_up(1)]
    have "up.receiver_inv False (upLog (far (localSide s))) (upTaken s) (p, c, t)" if "\<not> handlerDone s"
      by (rule up.receiver_step [OF parts(4) [OF that] agent_up(1)]) simp
    with a parts pump_cut [OF agent_up(1) _ parts(6)] pump_sock_keeps(2) [OF agent_up(1)]
    show ?thesis by (auto simp: agent_up(2) fault_inv_def ends_defs)
  next
    case (agent_down p c t)
    have n: "\<not> handlerDone s" using parts(5) agent_down(1) by (auto simp: pump_step_def)
    note a = down.sender_step [OF parts(2) agent_down(1)] and b = up.receiver_frame [OF parts(4) [OF n] agent_down(1)]
    from a have "down.receiver_inv strict (downLog c) (downTaken s) (downPump (localSide s), far (localSide s), near (localSide s))"
      using down.receiver_log [OF parts(3)] by simp
    with a b n parts show ?thesis by (simp add: agent_down(2) fault_inv_def ends_defs)
  next
    case carry_up
    note a = up.receiver_carry [OF parts(4) [OF carry_up(1)] parts(8) carry_up(2)]
    then have i: "invA (upFeed (upLog (far (localSide s)) ! upTaken s) (near (agentSide s)))"
      by (simp add: up.receiver_inv_def up.second.lossy_inv_def)
    from down.sender_turn [OF parts(2) i] up_turn up.sender_taken [OF parts(1) carry_up(2)] a parts carry_up(1)
    show ?thesis by (simp add: carry_up(3) fault_inv_def ends_defs)
  next
    case carry_down
    note a = down.receiver_carry [OF parts(3,9) carry_down(1)]
    then have i: "invC (downFeed (downLog (near (agentSide s)) ! downTaken s) (far (localSide s)))"
      by (simp add: down.receiver_inv_def down.second.lossy_inv_def)
    from up.sender_turn [OF parts(1) i] down_turn down.sender_taken [OF parts(2) carry_down(1)] a parts
    show ?thesis by (simp add: carry_down(2) fault_inv_def ends_defs)
  next
    case returns
    from parts(2) have "down.sender_inv down (downTaken s) (HalfClosed, sock_Close (far (agentSide s)), near (agentSide s))"
      using returns(2) down.sender_source [of down "downTaken s" HalfClosed "far (agentSide s)" "near (agentSide s)"
          "sock_Close (far (agentSide s))"]
      by (simp add: sock_pending_def sock_ends_def sock_Close_def)
    with up.lossy_lane_prefix [OF parts(1) parts(4) [OF returns(1)]] returns(2) parts
    show ?thesis by (simp add: returns(3) fault_inv_def ends_defs sock_Close_def)
  next
    case target_ends
    let ?t = "(far (agentSide s))\<lparr>sockEnd := Some EOF\<rparr>"
    have "down.sender_inv down (downTaken s) (downPump (agentSide s), ?t, near (agentSide s))"
      by (rule down.sender_source [OF parts(2)]) (auto simp: sock_pending_def sock_ends_def)
    with up.receiver_turn [OF parts(4) [OF target_ends(1)], of ?t] parts target_ends(1)
    show ?thesis by (simp add: target_ends(4) fault_inv_def ends_defs)
  qed
qed

lemma fault_inv_step:
  assumes "fault_inv strict up down s" and "fault_step L CF AF E s s'" and "strict \<Longrightarrow> plainE E"
  shows "fault_inv strict up down s'"
proof -
  note parts = fault_inv_parts [OF assms(1)]
  have plain: "strict \<Longrightarrow> no_eof E" using assms(3) plain_no_eof by blast
  from assms(2) show ?thesis
  proof cases
    case works
    with fault_net_step [OF assms(1)] show ?thesis by blast
  next
    case (local_fails t)
    note k = sock_fault_keeps [OF local_fails(2)]
    from up.sender_source [OF parts(1) _ k(2)] down.receiver_turn [OF parts(3), of t] k(1,3) plain parts
    show ?thesis by (simp add: local_fails(1) fault_inv_def ends_defs)
  next
    case (client_fails c)
    note k = C_fault [OF parts(7) client_fails(2)]
    from up.sender_turn [OF parts(1)] k have "up.sender_inv up (upTaken s) (upPump (localSide s), near (localSide s), c)" by blast
    moreover have "down.receiver_inv strict (downLog (near (agentSide s))) (downTaken s) (downPump (localSide s), c, near (localSide s))"
      using down.receiver_source [OF parts(3)] k assms(3) by blast
    ultimately show ?thesis using k parts by (simp add: client_fails(1) fault_inv_def ends_defs)
  next
    case (agent_fails a)
    note k = A_fault [OF parts(6) agent_fails(2)]
    from down.sender_turn [OF parts(2)] k have "down.sender_inv down (downTaken s) (downPump (agentSide s), far (agentSide s), a)" by blast
    moreover have "up.receiver_inv False (upLog (far (localSide s))) (upTaken s) (upPump (agentSide s), a, far (agentSide s))"
      if "\<not> handlerDone s"
      using up.receiver_source [OF parts(4) [OF that]] k by blast
    ultimately show ?thesis using k parts by (simp add: agent_fails(1) fault_inv_def ends_defs)
  next
    case (target_fails t)
    note k = sock_fault_keeps [OF target_fails(2)]
    have "up.receiver_inv False (upLog (far (localSide s))) (upTaken s) (upPump (agentSide s), near (agentSide s), t)"
      if "\<not> handlerDone s"
      using up.receiver_turn [OF parts(4) [OF that], of t] k(1) by simp
    with down.sender_source [OF parts(2) _ k(2)] k(1) parts
    show ?thesis by (simp add: target_fails(1) fault_inv_def ends_defs)
  qed
qed

lemma fault_run:
  assumes "(fault_step L CF AF E)\<^sup>*\<^sup>* s s'" and "fault_inv strict up down s" and "strict \<Longrightarrow> plainE E"
  shows "fault_inv strict up down s'"
  using assms(1) by (induction rule: rtranclp_induct) (use assms(2,3) fault_inv_step in blast)+

lemma fault_net_refines:
  assumes "fault_inv strict up down s" and "net_step L s s'"
  shows "(lossy_tunnel up down)\<^sup>=\<^sup>= (seen s) (seen s')"
proof -
  note parts = fault_inv_parts [OF assms(1)]
  from assms(2) show ?thesis
  proof (cases rule: link_cases)
    case (client_up p l c)
    with pump_sock_keeps(1) [OF client_up(1)] show ?thesis by (simp add: seen_def)
  next
    case (client_down p l c)
    have "(lossy_pipe down)\<^sup>=\<^sup>= (sockOut (near (localSide s)), sockFin (near (localSide s))) (sockOut l, sockFin l)"
      by (rule down.lossy_lane_refines [OF parts(2,3) client_down(1)])
    with client_down(2) show ?thesis by (auto simp: seen_def intro: lossy_tunnel.downward)
  next
    case (agent_up p c t)
    show ?thesis
    proof (cases "handlerDone s")
      case True
      with pump_cut [OF agent_up(1) _ parts(6)] parts(5) agent_up(2) show ?thesis by (simp add: seen_def)
    next
      case False
      have "(lossy_pipe up)\<^sup>=\<^sup>= (sockOut (far (agentSide s)), sockFin (far (agentSide s))) (sockOut t, sockFin t)"
        by (rule up.lossy_lane_refines [OF parts(1) parts(4) [OF False] agent_up(1)]) simp
      with agent_up(2) show ?thesis by (auto simp: seen_def intro: lossy_tunnel.upward)
    qed
  next
    case (agent_down p c t)
    with pump_sock_keeps(1) [OF agent_down(1)] show ?thesis by (simp add: seen_def)
  qed (simp_all add: seen_def sock_Close_def)
qed

lemma fault_refines:
  assumes "fault_inv strict up down s" and "fault_step L CF AF E s s'"
  shows "(lossy_tunnel up down)\<^sup>=\<^sup>= (seen s) (seen s')"
  using assms(2)
proof cases
  case works
  with fault_net_refines [OF assms(1)] show ?thesis by blast
qed (use sock_fault_keeps(1) in \<open>auto simp: seen_def\<close>)

lemma fault_prefixes:
  assumes "fault_inv strict up down s"
  shows "(\<exists>more. up = sockOut (far (agentSide s)) @ more) \<and> (\<exists>more. down = sockOut (near (localSide s)) @ more)"
proof -
  note parts = fault_inv_parts [OF assms]
  from up.lossy_lane_prefix [OF parts(1) parts(4)] parts(5) have "\<exists>more. up = sockOut (far (agentSide s)) @ more" by blast
  with down.lossy_lane_prefix [OF parts(2,3)] show ?thesis by blast
qed

text \<open>
  A tunnel that has just been opened, and what holds of its runs: they refine the failing tunnel, and where
  no failure poses as an end of file, the local program sees an end only behind all that the agent sent,
  and only when the agent has ended the stream.
\<close>

lemma fault_start:
  assumes "sock_open l" and "sockOut l = []" and "sock_open tcp" and "sockOut tcp = []"
    and C: "invC c" "\<not> finC c" "contC c = []" "pendC c = []" "endsC c = None" "length (upLog c) = n"
    and A: "invA ag" "\<not> finA ag" "contA ag = []" "pendA ag = []" "endsA ag = None" "length (downLog ag) = n"
  shows "fault_inv strict (sock_pending l) (sock_pending tcp) (net_start n l c (session_start ag tcp))"
proof -
  have t: "\<not> sockFin l" "\<not> sockFin tcp" "calm_sock l" using assms(1,3) sock_calm(1) by (simp_all add: sock_open_def)
  have "up.first.lossy_inv False False (sock_pending l) (Reading, l, c)"
    using up.first.lossy_start [where a = l and b = c] C by simp
  moreover have "down.first.lossy_inv False False (sock_pending tcp) (Reading, tcp, ag)"
    using down.first.lossy_start [where a = tcp and b = ag] A by simp
  moreover have "down.second.lossy_inv strict False [] (Reading, c, l)"
    using down.second.lossy_start [where a = c and b = l] C assms(2) t by (simp add: plain_end_def)
  moreover have "up.second.lossy_inv False False [] (Reading, ag, tcp)"
    using up.second.lossy_start [where a = ag and b = tcp] A assms(4) t by simp
  moreover have logs: "\<not> list_ex upCloses (upLog c)" "\<not> list_ex downCloses (downLog ag)"
    "ev_data upPayload (upLog c) = []" "ev_data downPayload (downLog ag) = []"
    using C(2,3) A(2,3) by (simp_all add: up.finned_log up.content_log down.finned_log down.content_log)
  moreover have "good_log upCarries upCloses n (upLog c)" "good_log downCarries downCloses n (downLog ag)"
    using logs(1,2) C(6) A(6) by (auto simp: good_log_def list_ex_iff dest: in_set_butlastD)
  ultimately show ?thesis using C(6) A(6)
    by (simp add: fault_inv_def net_start_def ends_defs session_start_def up.sender_inv_def down.sender_inv_def
        up.receiver_inv_def down.receiver_inv_def)
qed

lemma link_faults:
  assumes "\<And>strict. fault_inv strict up down s0" and "(fault_step L CF AF E)\<^sup>*\<^sup>* s0 s" and "fault_step L CF AF E s s'"
  shows "(lossy_tunnel up down)\<^sup>=\<^sup>= (seen s) (seen s')
    \<and> (\<exists>more. up = sockOut (far (agentSide s)) @ more) \<and> (\<exists>more. down = sockOut (near (localSide s)) @ more)
    \<and> (plainE E \<and> sockFin (near (localSide s)) \<longrightarrow>
        finA (near (agentSide s)) \<and> sockOut (near (localSide s)) = contA (near (agentSide s)))"
proof -
  have i: "fault_inv False up down s" by (rule fault_run [OF assms(2,1)]) simp
  have "finA (near (agentSide s)) \<and> sockOut (near (localSide s)) = contA (near (agentSide s))"
    if e: "plainE E" "sockFin (near (localSide s))"
  proof -
    have "fault_inv True up down s" by (rule fault_run [OF assms(2,1)]) (rule e(1))
    note parts = fault_inv_parts [OF this]
    from down.lossy_lane_whole [OF parts(3,9) e(2)] show ?thesis by simp
  qed
  with fault_refines [OF i assms(3)] fault_prefixes [OF i] show ?thesis by blast
qed

end

end
