(* ===== verification/Faults.thy ===== *)
theory Faults
  imports Tunnels Lossy
begin

text \<open>
  The failures of the two transports, and what a tunnel over either still promises under them. A send may
  fail at any time, and the stream may break at either end, with what had arrived there and was not read.
\<close>

subsection \<open>Connect\<close>

inductive stream_fault :: "go_error set \<Rightarrow> 'c \<times> ('i, 'o) stream \<Rightarrow> 'c \<times> ('i, 'o) stream \<Rightarrow> bool" for E where
  sends: "stream_fault E (c, st) (c, st\<lparr>sendErrs := es\<rparr>)"
| breaks: "e \<in> E \<Longrightarrow> stream_fault E (c, st) (c, st\<lparr>inbox := take k (inbox st) @ [Inl e]\<rparr>)"

text \<open>A script that is cut and broken off either had come to its end before, or gives a part and the break.\<close>

lemma script_breaks:
  "(chunks_of (take k xs @ [Inl e]) = chunks_of xs \<and> end_of (take k xs @ [Inl e]) = end_of xs)
   \<or> (\<exists>z. chunks_of xs = chunks_of (take k xs @ [Inl e]) @ z \<and> end_of (take k xs @ [Inl e]) = Some (normalize e))"
proof (induction xs arbitrary: k rule: end_of.induct)
  case (2 b rs)
  then show ?case by (cases k) auto
next
  case (3 err rs)
  then show ?case by (cases k) auto
qed simp

lemma conn_breaks:
  assumes "script (snd c') = take k (script (snd c)) @ [Inl e]" and "fst c' = fst c"
  shows "(conn_pending script c' = conn_pending script c \<and> conn_ends script c' = conn_ends script c)
    \<or> (\<exists>z. conn_pending script c = conn_pending script c' @ z \<and> conn_ends script c' = Some (normalize e))"
  using assms script_breaks [of k "script (snd c)" e]
  by (cases c; cases c'; cases "readErr (fst c)") (auto simp: conn_pending_def conn_ends_def)

lemma stream_fault_keeps:
  assumes "stream_fault E c c'"
  shows "fst c' = fst c \<and> outbox (snd c') = outbox (snd c)"
    and "(conn_pending (stream_script f) c' = conn_pending (stream_script f) c \<and> conn_ends (stream_script f) c' = conn_ends (stream_script f) c)
      \<or> (\<exists>x e. conn_pending (stream_script f) c = conn_pending (stream_script f) c' @ x
          \<and> conn_ends (stream_script f) c' = Some e \<and> (no_eof E \<longrightarrow> \<not> errors_is e EOF))"
proof -
  show "fst c' = fst c \<and> outbox (snd c') = outbox (snd c)"
    using assms by (auto simp: stream_fault.simps)
  from assms show "(conn_pending (stream_script f) c' = conn_pending (stream_script f) c \<and> conn_ends (stream_script f) c' = conn_ends (stream_script f) c)
      \<or> (\<exists>x e. conn_pending (stream_script f) c = conn_pending (stream_script f) c' @ x
          \<and> conn_ends (stream_script f) c' = Some e \<and> (no_eof E \<longrightarrow> \<not> errors_is e EOF))"
  proof cases
    case (sends x st es)
    have "stream_script f (st\<lparr>sendErrs := es\<rparr>) = stream_script f st" by (simp add: stream_script_def)
    with sends show ?thesis by (cases "readErr x") (simp_all add: conn_pending_def conn_ends_def)
  next
    case (breaks e x st k)
    have "stream_script f (snd c') = take k (stream_script f (snd c)) @ [Inl e]"
      by (simp add: breaks stream_script_def take_map map_result_def)
    from conn_breaks [OF this] breaks show ?thesis
      by (auto simp: normalize_def no_eof_def)
  qed
qed

text \<open>A write through a conn, whatever comes of it.\<close>

lemma conn_write_part:
  assumes "\<And>e err e'. send (fst c) x e = (err, e') \<Longrightarrow> sent e' = (if err = None then sent e @ x else sent e)"
    and "conn_Write x c = (w, c')"
  shows "\<exists>y z. x = y @ z \<and> sent (snd c') = sent (snd c) @ y \<and> (w = (length x, None) \<longrightarrow> z = [])"
proof -
  have "sent (snd c') = sent (snd c) @ x \<or> sent (snd c') = sent (snd c) \<and> w \<noteq> (length x, None)"
    using assms by (cases c) (auto simp: conn_Write_def split: option.splits if_splits prod.splits)
  then show ?thesis
  proof
    assume "sent (snd c') = sent (snd c) @ x"
    then show ?thesis by (intro exI [of _ x] exI [of _ "[]"]) simp
  next
    assume "sent (snd c') = sent (snd c) \<and> w \<noteq> (length x, None)"
    then show ?thesis by (intro exI [of _ "[]"] exI [of _ x]) simp
  qed
qed

lemma stream_sent: "stream_Send m e = (err, e') \<Longrightarrow> sent_data d e' = (if err = None then sent_data d e @ d m else sent_data d e)"
  by (auto simp: stream_Send_def stream_emit_def sent_data_def split: list.splits option.splits)

lemma conn_stream_part:
  assumes "send (fst c) = (\<lambda>b. stream_Send (mk b))" and "\<And>b. d (mk b) = b" and "conn_Write x c = (w, c')"
  shows "\<exists>y z. x = y @ z \<and> sent_data d (snd c') = sent_data d (snd c) @ y \<and> (w = (length x, None) \<longrightarrow> z = [])"
proof (rule conn_write_part [OF _ assms(3)])
  fix e e' err assume "send (fst c) x e = (err, e')"
  then show "sent_data d e' = (if err = None then sent_data d e @ x else sent_data d e)"
    using stream_sent [of "mk x" e err e' d] assms(1,2) by simp
qed

lemma stream_emits: "stream_emit m e = (err, e') \<Longrightarrow> outbox e' = outbox e \<or> outbox e' = outbox e @ [m]"
  by (auto simp: stream_emit_def split: list.splits option.splits)

lemma conn_write_logs:
  assumes "send (fst c) = (\<lambda>b. stream_Send (mk b))" and "conn_Write x c = (w, c')"
    and "\<And>b. d (mk b) = b" and "\<And>b. ok (mk b)"
  shows "outbox (snd c') = outbox (snd c)
    \<or> (\<exists>ev. is_data ok ev \<and> sent_payload d ev = x \<and> outbox (snd c') = outbox (snd c) @ [ev])"
proof -
  have "outbox (snd c') = outbox (snd c) \<or> outbox (snd c') = outbox (snd c) @ [Msg (mk x)]"
    using assms(1,2)
    by (cases c) (auto simp: conn_Write_def stream_Send_def dest: stream_emits split: option.splits if_splits prod.splits)
  with assms(3,4) show ?thesis by (auto simp: is_data_def)
qed

text \<open>What arrives behind the end of a stream changes nothing.\<close>

lemma chunks_of_late:
  "end_of xs = Some e \<Longrightarrow> chunks_of (xs @ ys) = chunks_of xs \<and> end_of (xs @ ys) = Some e"
  by (induction xs rule: end_of.induct) auto

lemma conn_late:
  assumes "script (snd c') = script (snd c) @ ys" and "fst c' = fst c" and "conn_ends script c = Some e"
  shows "conn_pending script c' = conn_pending script c \<and> conn_ends script c' = Some e"
  using assms chunks_of_late [of "script (snd c)" e ys]
  by (cases c; cases c'; cases "readErr (fst c)") (auto simp: conn_pending_def conn_ends_def)

lemma arrive_late:
  "conn_ends (stream_script f) c = Some e \<Longrightarrow>
   conn_pending (stream_script f) (arrive ev c) = conn_pending (stream_script f) c
   \<and> conn_ends (stream_script f) (arrive ev c) = Some e"
  by (rule conn_late [of "stream_script f" _ _ "map (map_result f) [carried ev]"]) (simp_all add: arrive_def stream_script_def)

interpretation client_flaky: flaky_sink "conn_ops conn_finish" client.conn_inv "\<lambda>s. sent_data req_GetData (snd s)" "\<lambda>c. False"
proof
  fix b b' :: client_end and x w
  assume "client.conn_inv b" "write_op (conn_ops conn_finish) x b = (w, b')"
  then have "send (fst b) = request_send" "conn_Write x b = (w, b')" by (simp_all add: client.conn_inv_def conn_ops_def)
  then show "\<exists>y z. x = y @ z \<and> sent_data req_GetData (snd b') = sent_data req_GetData (snd b) @ y
      \<and> (w = (length x, None) \<longrightarrow> z = [])"
    using conn_stream_part [of b ReqData req_GetData x w b'] by (simp add: request_send_def [abs_def])
qed simp_all

interpretation server_flaky: flaky_sink "conn_ops forward_finish" server.conn_inv "\<lambda>s. sent_data resp_GetData (snd s)" "\<lambda>c. False"
proof
  fix b b' :: server_end and x w
  assume "server.conn_inv b" "write_op (conn_ops forward_finish) x b = (w, b')"
  then have "send (fst b) = response_send" "conn_Write x b = (w, b')" by (simp_all add: server.conn_inv_def conn_ops_def)
  then show "\<exists>y z. x = y @ z \<and> sent_data resp_GetData (snd b') = sent_data resp_GetData (snd b) @ y
      \<and> (w = (length x, None) \<longrightarrow> z = [])"
    using conn_stream_part [of b RespData resp_GetData x w b'] by (simp add: response_send_def [abs_def])
qed simp_all

interpretation connect_up_faults: lossy_lane sock_ops sock_pending sock_ends "\<lambda>t. True" sockOut sock_open sockFin
  "conn_ops conn_finish" "conn_pending (stream_script client_payload)" "conn_ends (stream_script client_payload)"
  client.conn_inv "\<lambda>s. sent_data req_GetData (snd s)" "conn_writable request_send stream_accepts"
  "\<lambda>s. stream_ended (snd s)"
  "conn_ops forward_finish" "conn_pending (stream_script server_payload)"
  "conn_ends (stream_script server_payload)" server.conn_inv "\<lambda>s. sent_data resp_GetData (snd s)"
  "conn_writable response_send stream_accepts" "\<lambda>s. stream_ended (snd s)"
  sock_ops sock_pending sock_ends "\<lambda>t. True" sockOut sock_open sockFin
  "\<lambda>s. outbox (snd s)" "sent_payload req_GetData" "is_data (\<lambda>m. req_GetOpen m = None)" is_close arrive
  "\<lambda>c. False" calm_sock
proof (unfold_locales, goal_cases)
  case (1 b x w b')
  then have "send (fst b) = request_send" "conn_Write x b = (w, b')" by (simp_all add: client.conn_inv_def conn_ops_def)
  then show ?case
    using conn_write_logs [of b ReqData x w b' req_GetData "\<lambda>m. req_GetOpen m = None"] by (simp add: request_send_def [abs_def])
next
  case (2 b)
  then have "closeSend (fst b) = Some stream_CloseRequest" by (simp add: client.conn_inv_def)
  with stream_emits [of CloseReq "snd b"] show ?case
    by (cases b) (fastforce simp: conn_ops_def conn_finish_def conn_CloseWrite_def stream_CloseRequest_def split: prod.splits)
next
  case (3 c e ev)
  then show ?case using arrive_late by (simp add: server.conn_inv_def)
qed

interpretation connect_down_faults: lossy_lane sock_ops sock_pending sock_ends "\<lambda>t. True" sockOut sock_open sockFin
  "conn_ops forward_finish" "conn_pending (stream_script server_payload)"
  "conn_ends (stream_script server_payload)" server.conn_inv "\<lambda>s. sent_data resp_GetData (snd s)"
  "conn_writable response_send stream_accepts" "\<lambda>s. stream_ended (snd s)"
  "conn_ops conn_finish" "conn_pending (stream_script client_payload)" "conn_ends (stream_script client_payload)"
  client.conn_inv "\<lambda>s. sent_data req_GetData (snd s)" "conn_writable request_send stream_accepts"
  "\<lambda>s. stream_ended (snd s)"
  sock_ops sock_pending sock_ends "\<lambda>t. True" sockOut sock_open sockFin
  "\<lambda>s. outbox (snd s)" "sent_payload resp_GetData" "is_data (\<lambda>m. True)" is_close arrive
  "\<lambda>c. False" calm_sock
proof (unfold_locales, goal_cases)
  case (1 b x w b')
  then have "send (fst b) = response_send" "conn_Write x b = (w, b')" by (simp_all add: server.conn_inv_def conn_ops_def)
  then show ?case
    using conn_write_logs [of b RespData x w b' resp_GetData "\<lambda>m. True"] by (simp add: response_send_def [abs_def])
next
  case (2 b)
  from stream_emits [of CloseReq "snd b"] show ?case
    by (cases "stream_emit CloseReq (snd b)") (fastforce simp: conn_ops_def forward_finish_def stream_CloseRequest_def)
next
  case (3 c e ev)
  then show ?case using arrive_late by (simp add: client.conn_inv_def)
qed

interpretation connect_faults: lossy_link
  "conn_ops conn_finish" "conn_pending (stream_script client_payload)" "conn_ends (stream_script client_payload)"
  client.conn_inv "\<lambda>s. sent_data req_GetData (snd s)" "conn_writable request_send stream_accepts"
  "\<lambda>s. stream_ended (snd s)"
  "conn_ops forward_finish" "conn_pending (stream_script server_payload)"
  "conn_ends (stream_script server_payload)" server.conn_inv "\<lambda>s. sent_data resp_GetData (snd s)"
  "conn_writable response_send stream_accepts" "\<lambda>s. stream_ended (snd s)"
  "\<lambda>s. outbox (snd s)" "sent_payload req_GetData" "is_data (\<lambda>m. req_GetOpen m = None)" is_close arrive
  "\<lambda>s. outbox (snd s)" "sent_payload resp_GetData" "is_data (\<lambda>m. True)" is_close arrive
  connect_link stream_fault stream_fault no_eof
proof (unfold_locales, goal_cases)
  case (2 c E c')
  from stream_fault_keeps [OF 2(2)] 2(1) show ?case by (simp add: client.conn_inv_def conn_over_def)
next
  case (3 a E a')
  from stream_fault_keeps [OF 3(2)] 3(1) show ?case by (simp add: server.conn_inv_def conn_over_def)
qed

subsection \<open>WebSocket\<close>

text \<open>
  The socket may break with any error at all: the close of a peer or a proxy that goes away, and the end of
  file of a connection that is cut, are among them.
\<close>

inductive ws_fault :: "go_error set \<Rightarrow> ws_end \<Rightarrow> ws_end \<Rightarrow> bool" for E where
  writes: "ws_fault E (c, w) (c, w\<lparr>wsErrs := es\<rparr>)"
| breaks: "e \<in> E \<Longrightarrow> ws_fault E (c, w) (c, w\<lparr>wsIn := take k (wsIn w) @ [Inl e]\<rparr>)"

text \<open>
  \<^verbatim>\<open>normalizeClose\<close> and \<^verbatim>\<open>normalize\<close> read some of them as the end of the stream: the normal close
  and the going away of whoever is next on the path, in the middle of a transfer, and a connection
  that is cut between two frames, where the library's error wraps the end of file of the network.
  \<open>no_false_end\<close> says of a set of errors that none of them is read so.
\<close>

definition no_false_end :: "go_error set \<Rightarrow> bool" where
  "no_false_end E \<longleftrightarrow> (\<forall>e\<in>E. \<not> errors_is (normalizeClose e) EOF)"

lemma no_false_end_no_eof: "no_false_end E \<Longrightarrow> no_eof E"
  by (auto simp: no_false_end_def no_eof_def normalizeClose_def split: option.splits if_splits)

lemma ws_cut_looks_clean:
  "end_of (map ws_chunk (map (\<lambda>b. Inr (MessageBinary, b)) bs @ [Inl (CloseErr StatusGoingAway)])) = Some EOF"
  "end_of (map ws_chunk (map (\<lambda>b. Inr (MessageBinary, b)) bs @ [Inl (Errorf f args (Some EOF))])) = Some EOF"
proof -
  have "map ws_chunk (map (\<lambda>b. Inr (MessageBinary, b)) bs @ rs) = map Inr bs @ map ws_chunk rs" for rs
    by (induction bs) auto
  then show "end_of (map ws_chunk (map (\<lambda>b. Inr (MessageBinary, b)) bs @ [Inl (CloseErr StatusGoingAway)])) = Some EOF"
    "end_of (map ws_chunk (map (\<lambda>b. Inr (MessageBinary, b)) bs @ [Inl (Errorf f args (Some EOF))])) = Some EOF"
    by (simp_all only: end_of_payload)
      (simp_all add: ws_chunk_def normalizeClose_def StatusGoingAway_def StatusNormalClosure_def normalize_def)
qed

lemma ws_fault_keeps:
  assumes "ws_fault E c c'"
  shows "fst c' = fst c \<and> wsOut (snd c') = wsOut (snd c)"
    and "(conn_pending ws_script c' = conn_pending ws_script c \<and> conn_ends ws_script c' = conn_ends ws_script c)
      \<or> (\<exists>x e. conn_pending ws_script c = conn_pending ws_script c' @ x
          \<and> conn_ends ws_script c' = Some e \<and> (no_false_end E \<longrightarrow> \<not> errors_is e EOF))"
proof -
  show "fst c' = fst c \<and> wsOut (snd c') = wsOut (snd c)" using assms by (auto simp: ws_fault.simps)
  from assms show "(conn_pending ws_script c' = conn_pending ws_script c \<and> conn_ends ws_script c' = conn_ends ws_script c)
      \<or> (\<exists>x e. conn_pending ws_script c = conn_pending ws_script c' @ x
          \<and> conn_ends ws_script c' = Some e \<and> (no_false_end E \<longrightarrow> \<not> errors_is e EOF))"
  proof cases
    case (writes x w es)
    have "ws_script (w\<lparr>wsErrs := es\<rparr>) = ws_script w" by (simp add: ws_script_def)
    with writes show ?thesis by (cases "readErr x") (simp_all add: conn_pending_def conn_ends_def)
  next
    case (breaks e x w k)
    have "ws_script (snd c') = take k (ws_script (snd c)) @ [Inl (normalizeClose e)]"
      by (simp add: breaks(1,2) ws_script_def take_map ws_chunk_def)
    from conn_breaks [OF this] breaks show ?thesis by (auto simp: normalize_def no_false_end_def)
  qed
qed

lemma ws_emits: "ws_emit ev w = (err, w') \<Longrightarrow> wsOut w' = (if err = None then wsOut w @ [ev] else wsOut w)"
  by (auto simp: ws_emit_def split: list.splits option.splits)

lemma ws_write_part:
  assumes "send (fst c) = ws_send" and "conn_Write x c = (w, c')"
  shows "\<exists>y z. x = y @ z \<and> ws_sent (snd c') = ws_sent (snd c) @ y \<and> (w = (length x, None) \<longrightarrow> z = [])"
proof (rule conn_write_part [OF _ assms(2)])
  fix e e' err assume "send (fst c) x e = (err, e')"
  then show "ws_sent e' = (if err = None then ws_sent e @ x else ws_sent e)"
    using ws_emits [of "Frame MessageBinary x" e err e'] assms(1) by (simp add: ws_sent_def ws_send_def ws_Write_def)
qed

lemma ws_write_logs:
  assumes "send (fst c) = ws_send" and "length x \<le> copy_buffer" and "conn_Write x c = (w, c')"
  shows "wsOut (snd c') = wsOut (snd c) \<or> (\<exists>ev. ws_data ev \<and> frame_payload ev = x \<and> wsOut (snd c') = wsOut (snd c) @ [ev])"
proof -
  have "length x \<le> ReadLimit" using assms(2) by (simp add: copy_buffer_def ReadLimit_def)
  moreover have "wsOut (snd c') = wsOut (snd c) \<or> wsOut (snd c') = wsOut (snd c) @ [Frame MessageBinary x]"
    using assms(1,3) by (cases c) (auto simp: conn_Write_def ws_send_def ws_Write_def dest: ws_emits
        split: option.splits if_splits prod.splits)
  ultimately show ?thesis by (auto simp: ws_data_def)
qed

lemma ws_arrive_late:
  "conn_ends ws_script c = Some e \<Longrightarrow>
   conn_pending ws_script (ws_arrive ev c) = conn_pending ws_script c \<and> conn_ends ws_script (ws_arrive ev c) = Some e"
  by (rule conn_late [of ws_script _ _ "map ws_chunk (ws_deliver ReadLimit [ev])"]) (simp_all add: ws_arrive_def ws_script_def)

interpretation ws_client_flaky: flaky_sink "conn_ops conn_finish" ws_client.conn_inv "\<lambda>s. ws_sent (snd s)" "\<lambda>c. False"
proof
  fix b b' :: ws_end and x w
  assume "ws_client.conn_inv b" "write_op (conn_ops conn_finish) x b = (w, b')"
  then show "\<exists>y z. x = y @ z \<and> ws_sent (snd b') = ws_sent (snd b) @ y \<and> (w = (length x, None) \<longrightarrow> z = [])"
    using ws_write_part by (simp add: ws_client.conn_inv_def conn_ops_def)
qed simp_all

interpretation ws_server_flaky: flaky_sink "conn_ops ws_finish" ws_server.conn_inv "\<lambda>s. ws_sent (snd s)" "\<lambda>c. False"
proof
  fix b b' :: ws_end and x w
  assume "ws_server.conn_inv b" "write_op (conn_ops ws_finish) x b = (w, b')"
  then show "\<exists>y z. x = y @ z \<and> ws_sent (snd b') = ws_sent (snd b) @ y \<and> (w = (length x, None) \<longrightarrow> z = [])"
    using ws_write_part by (simp add: ws_server.conn_inv_def conn_ops_def)
qed simp_all

interpretation ws_up_faults: lossy_lane sock_ops sock_pending sock_ends "\<lambda>t. True" sockOut sock_open sockFin
  "conn_ops conn_finish" "conn_pending ws_script" "conn_ends ws_script" ws_client.conn_inv
  "\<lambda>s. ws_sent (snd s)" "conn_writable ws_send ws_accepts" "\<lambda>s. ws_half_closed (snd s)"
  "conn_ops ws_finish" "conn_pending ws_script" "conn_ends ws_script" ws_server.conn_inv
  "\<lambda>s. ws_sent (snd s)" "conn_writable ws_send ws_accepts" "\<lambda>s. ws_close_sent (snd s)"
  sock_ops sock_pending sock_ends "\<lambda>t. True" sockOut sock_open sockFin
  "\<lambda>s. wsOut (snd s)" frame_payload ws_data "\<lambda>ev. ev = Frame MessageText closeWrite" ws_arrive "\<lambda>c. False" calm_sock
proof (unfold_locales, goal_cases)
  case (1 b x w b')
  then show ?case using ws_write_logs by (simp add: ws_client.conn_inv_def conn_ops_def)
next
  case (2 b)
  then have c: "closeSend (fst b) = Some ws_closeSend" by (simp add: ws_client.conn_inv_def)
  obtain err w where "ws_closeSend (snd b) = (err, w)" by (metis surj_pair)
  moreover from this have "wsOut w = wsOut (snd b) \<or> wsOut w = wsOut (snd b) @ [Frame MessageText closeWrite]"
    by (auto simp: ws_closeSend_def ws_Write_def dest: ws_emits split: if_splits)
  ultimately show ?case using c by (cases b) (simp add: conn_ops_def conn_finish_def conn_CloseWrite_def)
next
  case (3 c e ev)
  then show ?case using ws_arrive_late by (simp add: ws_server.conn_inv_def)
qed

interpretation ws_down_faults: lossy_lane sock_ops sock_pending sock_ends "\<lambda>t. True" sockOut sock_open sockFin
  "conn_ops ws_finish" "conn_pending ws_script" "conn_ends ws_script" ws_server.conn_inv
  "\<lambda>s. ws_sent (snd s)" "conn_writable ws_send ws_accepts" "\<lambda>s. ws_close_sent (snd s)"
  "conn_ops conn_finish" "conn_pending ws_script" "conn_ends ws_script" ws_client.conn_inv
  "\<lambda>s. ws_sent (snd s)" "conn_writable ws_send ws_accepts" "\<lambda>s. ws_half_closed (snd s)"
  sock_ops sock_pending sock_ends "\<lambda>t. True" sockOut sock_open sockFin
  "\<lambda>s. wsOut (snd s)" frame_payload ws_data "\<lambda>ev. ev = CloseFrame StatusNormalClosure ''''" ws_arrive "\<lambda>c. False" calm_sock
proof (unfold_locales, goal_cases)
  case (1 b x w b')
  then show ?case using ws_write_logs by (simp add: ws_server.conn_inv_def conn_ops_def)
next
  case (2 b)
  obtain err w where "ws_Close StatusNormalClosure '''' (snd b) = (err, w)" by (metis surj_pair)
  moreover from this have "wsOut w = wsOut (snd b) \<or> wsOut w = wsOut (snd b) @ [CloseFrame StatusNormalClosure '''']"
    by (auto simp: ws_Close_def dest: ws_emits split: if_splits)
  ultimately show ?case by (simp add: conn_ops_def ws_finish_def)
next
  case (3 c e ev)
  then show ?case using ws_arrive_late by (simp add: ws_client.conn_inv_def)
qed

interpretation ws_faults: lossy_link
  "conn_ops conn_finish" "conn_pending ws_script" "conn_ends ws_script" ws_client.conn_inv
  "\<lambda>s. ws_sent (snd s)" "conn_writable ws_send ws_accepts" "\<lambda>s. ws_half_closed (snd s)"
  "conn_ops ws_finish" "conn_pending ws_script" "conn_ends ws_script" ws_server.conn_inv
  "\<lambda>s. ws_sent (snd s)" "conn_writable ws_send ws_accepts" "\<lambda>s. ws_close_sent (snd s)"
  "\<lambda>s. wsOut (snd s)" frame_payload ws_data "\<lambda>ev. ev = Frame MessageText closeWrite" ws_arrive
  "\<lambda>s. wsOut (snd s)" frame_payload ws_data "\<lambda>ev. ev = CloseFrame StatusNormalClosure ''''" ws_arrive
  ws_link ws_fault ws_fault no_false_end
proof (unfold_locales, goal_cases)
  case (1 E)
  then show ?case by (rule no_false_end_no_eof)
next
  case (2 c E c')
  from ws_fault_keeps [OF 2(2)] 2(1) show ?case by (simp add: ws_client.conn_inv_def conn_over_def)
next
  case (3 a E a')
  from ws_fault_keeps [OF 3(2)] 3(1) show ?case by (simp add: ws_server.conn_inv_def conn_over_def)
qed

subsection \<open>Sessions\<close>

interpretation agent_ending: lossy_splicing
  "conn_ops forward_finish" "conn_pending (stream_script server_payload)" "conn_ends (stream_script server_payload)"
  server.conn_inv "\<lambda>s. sent_data resp_GetData (snd s)" "conn_writable response_send stream_accepts"
  "\<lambda>s. stream_ended (snd s)" sock_ops sock_pending sock_ends "\<lambda>t. True" sockOut sock_open sockFin "\<lambda>c. False" calm_sock
  by unfold_locales

interpretation client_ending: lossy_splicing
  sock_ops sock_pending sock_ends "\<lambda>t. True" sockOut sock_open sockFin
  "conn_ops conn_finish" "conn_pending (stream_script client_payload)" "conn_ends (stream_script client_payload)"
  client.conn_inv "\<lambda>s. sent_data req_GetData (snd s)" "conn_writable request_send stream_accepts"
  "\<lambda>s. stream_ended (snd s)" calm_sock "\<lambda>c. False"
  by unfold_locales

interpretation ws_agent_ending: lossy_splicing
  "conn_ops ws_finish" "conn_pending ws_script" "conn_ends ws_script" ws_server.conn_inv "\<lambda>s. ws_sent (snd s)"
  "conn_writable ws_send ws_accepts" "\<lambda>s. ws_close_sent (snd s)"
  sock_ops sock_pending sock_ends "\<lambda>t. True" sockOut sock_open sockFin "\<lambda>c. False" calm_sock
  by unfold_locales

interpretation ws_client_ending: lossy_splicing
  sock_ops sock_pending sock_ends "\<lambda>t. True" sockOut sock_open sockFin
  "conn_ops conn_finish" "conn_pending ws_script" "conn_ends ws_script" ws_client.conn_inv "\<lambda>s. ws_sent (snd s)"
  "conn_writable ws_send ws_accepts" "\<lambda>s. ws_half_closed (snd s)" calm_sock "\<lambda>c. False"
  by unfold_locales

subsection \<open>Opened tunnels\<close>

lemma connect_fault_start:
  assumes "openConnect svc v t ep opened_by_agent = Some (Inr c, st)"
    and "Forward sv dial peer (opened_by_client ep) = Some (Splicing a)"
    and "sock_open l" and "sockOut l = []" and "sock_open (far a)" and "sockOut (far a) = []"
  shows "connect_faults.fault_inv strict (concat (sockIn l)) (concat (sockIn (far a))) (net_start 1 l (c, st) a)"
proof -
  obtain tcp where a: "a = session_start (serverConn peer, \<lparr>inbox = [], outbox = [Msg RespOpened], sendErrs = []\<rparr>) tcp"
    using agent_opened [OF assms(2)] by blast
  let ?st = "\<lparr>inbox = [], outbox = [Msg (ReqOpen ep)], sendErrs = []\<rparr> :: client_stream"
    and ?sv = "\<lparr>inbox = [], outbox = [Msg RespOpened], sendErrs = []\<rparr> :: server_stream"
  have t: "sock_open tcp" "sockOut tcp = []" using assms(5,6) by (simp_all add: a session_start_def)
  have "connect_faults.fault_inv strict (sock_pending l) (sock_pending tcp)
      (net_start 1 l (clientConn t, ?st) (session_start (serverConn peer, ?sv) tcp))"
    by (rule connect_faults.fault_start [OF assms(3,4) t])
      (simp_all add: client.conn_inv_def server.conn_inv_def conn_over_def
        stream_ended_def sent_data_def conn_pending_def conn_ends_def stream_script_def)
  then show ?thesis using client_opened [OF assms(1)] a assms(3) t
    by (simp add: sock_pending_def sock_open_def session_start_def)
qed

lemma ws_fault_start:
  assumes "openWS parse net v t ep = Inr (c, w)" and "fresh_ws w"
    and "wsHandler sv dial accept req = WsServed (Splicing a)" and "accept req = Inr u" and "fresh_ws u"
    and "sock_open l" and "sockOut l = []" and "sock_open (far a)" and "sockOut (far a) = []"
  shows "ws_faults.fault_inv strict (concat (sockIn l)) (concat (sockIn (far a))) (net_start 0 l (c, w) a)"
proof -
  obtain w0 where c: "wsconn_New ''client'' (tgName t) w0 = (c, w)"
    using assms(1) by (auto simp: openWS_def split: sum.splits)
  obtain ca u' where ca: "wsconn_NewServer (reqRemote req) u = (ca, u')" by (metis surj_pair)
  have "Handle sv dial (ws_endpoint req) None (ca, u') = Splicing a"
    using assms(3,4) ca by (simp add: wsHandler_def Let_def split: sum.splits)
  from handled_splices [OF this] obtain tcp where a: "a = session_start (ca, u') tcp" by (auto simp: run_ack_def)
  note k = ws_server_start [OF ca]
  have t: "sock_open tcp" "sockOut tcp = []" using assms(8,9) by (simp_all add: a session_start_def)
  have "ws_faults.fault_inv strict (sock_pending l) (sock_pending tcp)
      (net_start 0 l (c, w) (session_start (ca, u') tcp))"
    using c assms(2,5) k
    by (intro ws_faults.fault_start [OF assms(6,7) t])
      (auto simp: ws_client.conn_inv_def ws_server.conn_inv_def conn_over_def
        fresh_ws_def ws_half_closed_def ws_close_sent_def ws_sent_def conn_pending_def conn_ends_def ws_script_def
        wsconn_New_def conn_New_def)
  then show ?thesis using a assms(6) t by (simp add: sock_pending_def sock_open_def session_start_def)
qed

lemma net_run_is_fault_run: "(net_step L)\<^sup>*\<^sup>* s s' \<Longrightarrow> (fault_step L CF AF E)\<^sup>*\<^sup>* s s'"
  by (induction rule: rtranclp_induct) (auto intro: rtranclp.rtrancl_into_rtrancl fault_step.works)

subsection \<open>Properties\<close>

text \<open>
  C3: failures truncate and never corrupt. Let sockets refuse writes or be reset, sends fail and the stream
  break at either end, at any time and as often as may be. Each side still has a prefix of what the other
  sent, nothing reaches a side behind its end, and as long as no failure poses as an end of file, the local
  program sees an end only after the agent ended the stream, and then it has all that the agent sent on it.
\<close>

theorem failures_only_truncate:
  assumes "openConnect svc v t ep opened_by_agent = Some (Inr c, st)"
    and "Forward sv dial peer (opened_by_client ep) = Some (Splicing a)"
    and "sock_open l" and "sockOut l = []" and "sock_open (far a)" and "sockOut (far a) = []"
    and "(fault_step connect_link stream_fault stream_fault E)\<^sup>*\<^sup>* (net_start 1 l (c, st) a) s"
    and "fault_step connect_link stream_fault stream_fault E s s'"
  shows "(lossy_tunnel (concat (sockIn l)) (concat (sockIn (far a))))\<^sup>=\<^sup>= (seen s) (seen s')
    \<and> (\<exists>more. concat (sockIn l) = sockOut (far (agentSide s)) @ more)
    \<and> (\<exists>more. concat (sockIn (far a)) = sockOut (near (localSide s)) @ more)
    \<and> (no_eof E \<and> sockFin (near (localSide s)) \<longrightarrow>
        stream_ended (snd (near (agentSide s)))
        \<and> sockOut (near (localSide s)) = sent_data resp_GetData (snd (near (agentSide s))))"
  by (rule connect_faults.link_faults [OF connect_fault_start [OF assms(1-6)] assms(7,8)])

lemma failures_only_truncate_witness:
  "\<exists>c st a s s'. openConnect (Inr ()) None demo_target ''db'' opened_by_agent = Some (Inr c, st)
     \<and> Forward tcp_service (\<lambda>addr. Inr demo_answerer) ''p'' (opened_by_client ''db'') = Some (Splicing a)
     \<and> (fault_step connect_link stream_fault stream_fault {OsErr ''reset''})\<^sup>*\<^sup>* (net_start 1 demo_asker (c, st) a) s
     \<and> fault_step connect_link stream_fault stream_fault {OsErr ''reset''} s s' \<and> sockFin (near (localSide s))
     \<and> sockOut (near (localSide s)) = sent_data resp_GetData (snd (near (agentSide s)))"
proof -
  let ?E = "{OsErr ''reset''}" and ?c = "(clientConn demo_target, \<lparr>inbox = [], outbox = [Msg (ReqOpen ''db'')], sendErrs = []\<rparr> :: client_stream)"
    and ?a = "session_start (serverConn ''p'', \<lparr>inbox = [], outbox = [Msg RespOpened], sendErrs = []\<rparr> :: server_stream) demo_answerer"
  have "patient (net_start 1 demo_asker ?c ?a)" by (simp add: patient_def net_start_def demo_socks(7))
  moreover have "sock_ends demo_asker \<noteq> None" by (simp add: sock_ends_def demo_asker_def)
  ultimately obtain s where s: "(net_step connect_link)\<^sup>*\<^sup>* (net_start 1 demo_asker ?c ?a) s" "delivered ''hi!'' ''ok'' s"
    using connect_net.net_completes [OF connect_start [OF demo_opens(1) demo_opens(2) demo_socks(1,2,5,6)]]
    unfolding demo_socks by blast
  note run = net_run_is_fault_run [OF s(1), of stream_fault stream_fault ?E]
  have step: "fault_step connect_link stream_fault stream_fault ?E s
      (s\<lparr>localSide := (localSide s)\<lparr>near := (near (localSide s))\<lparr>sockIn := [], sockEnd := Some (OsErr ''reset'')\<rparr>\<rparr>\<rparr>)"
    by (rule fault_step.local_fails, rule sock_fault.resets) simp
  have "no_eof ?E" by (simp add: no_eof_def)
  moreover have "sockFin (near (localSide s))" using s(2) by (simp add: delivered_def)
  ultimately show ?thesis
    using failures_only_truncate [OF demo_opens(1) demo_opens(2) demo_socks(1,2,5,6) run step] run step demo_opens by blast
qed

text \<open>
  C4: failures of a WebSocket truncate and never corrupt. Let sockets refuse writes or be reset, writes to the
  WebSocket fail and the WebSocket break at either end with any error, the closes 1000 and 1001 included. Each
  side still has a prefix of what the other sent and nothing reaches a side behind its end. Where none of
  the errors is read as an end of file (\<open>no_false_end\<close>: not a close 1000 or 1001 of another than the agent,
  and no error that wraps \<^verbatim>\<open>io.EOF\<close>), the local program sees an end only after the agent closed the
  socket normally, and then it has all that the agent sent; lemma \<open>ws_cut_looks_clean\<close> shows that the
  condition is needed.
\<close>

theorem failures_only_truncate_WS:
  assumes "openWS parse net v t ep = Inr (c, w)" and "fresh_ws w"
    and "wsHandler sv dial accept req = WsServed (Splicing a)" and "accept req = Inr u" and "fresh_ws u"
    and "sock_open l" and "sockOut l = []" and "sock_open (far a)" and "sockOut (far a) = []"
    and "(fault_step ws_link ws_fault ws_fault E)\<^sup>*\<^sup>* (net_start 0 l (c, w) a) s" and "fault_step ws_link ws_fault ws_fault E s s'"
  shows "(lossy_tunnel (concat (sockIn l)) (concat (sockIn (far a))))\<^sup>=\<^sup>= (seen s) (seen s')
    \<and> (\<exists>more. concat (sockIn l) = sockOut (far (agentSide s)) @ more)
    \<and> (\<exists>more. concat (sockIn (far a)) = sockOut (near (localSide s)) @ more)
    \<and> (no_false_end E \<and> sockFin (near (localSide s)) \<longrightarrow>
        ws_close_sent (snd (near (agentSide s)))
        \<and> sockOut (near (localSide s)) = ws_sent (snd (near (agentSide s))))"
  by (rule ws_faults.link_faults [OF ws_fault_start [OF assms(1-9)] assms(10,11)])

lemma failures_only_truncate_WS_witness:
  "\<exists>c w a s'. openWS demo_url demo_net None demo_target ''db'' = Inr (c, w)
     \<and> fault_step ws_link ws_fault ws_fault {OsErr ''reset''} (net_start 0 demo_asker (c, w) a) s'
     \<and> (lossy_tunnel ''hi!'' ''ok'')\<^sup>=\<^sup>= (seen (net_start 0 demo_asker (c, w) a)) (seen s')"
proof -
  let ?E = "{OsErr ''reset''}"
  obtain c w where c: "openWS demo_url demo_net None demo_target ''db'' = Inr (c, w)" "fresh_ws w"
    using demo_upgrades(1) by blast
  obtain ca where a: "wsHandler tcp_service (\<lambda>addr. Inr demo_answerer) (\<lambda>r. Inr idle_ws)
      (demo_request\<lparr>query := [(EndpointParam, ''db'')]\<rparr>) = WsServed (Splicing (session_start ca demo_answerer))"
    using demo_accepts by blast
  let ?s = "net_start 0 demo_asker (c, w) (session_start ca demo_answerer)"
  have "ws_fault ?E (far (localSide ?s)) (c, w\<lparr>wsIn := take 0 (wsIn w) @ [Inl (OsErr ''reset'')]\<rparr>)"
    unfolding net_start_def session_start_def
    by simp (rule ws_fault.breaks [of _ _ c w 0, simplified], simp)
  then have step: "fault_step ws_link ws_fault ws_fault ?E ?s
      (?s\<lparr>localSide := (localSide ?s)\<lparr>far := (c, w\<lparr>wsIn := take 0 (wsIn w) @ [Inl (OsErr ''reset'')]\<rparr>)\<rparr>\<rparr>)"
    by (rule fault_step.client_fails)
  from failures_only_truncate_WS [OF c a refl demo_upgrades(2) demo_socks(1,2,5,6) rtranclp.rtrancl_refl step] c step
  show ?thesis unfolding demo_socks by blast
qed

text \<open>
  C6: a session ends whatever fails. Let the stream that a host reads end, by a break or in good order, and
  the socket end its output; sends on the stream and writes to the socket may fail as they like. The runs
  of both copies of a host are bounded in every interleaving, and one that cannot go on has returned: the
  handler of the agent, and \<^verbatim>\<open>splice\<close> of the client. What has been passed on is a prefix of what arrived.
\<close>

theorem sessions_end_whatever_fails:
  assumes "\<not> stream_ended sa" and "\<not> sockFin t" and "sock_ends t \<noteq> None"
    and "end_of (map (map_result server_payload) (inbox sa)) \<noteq> None"
    and "(tcp_step (conn_ops forward_finish))\<^sup>*\<^sup>* (session_start (serverConn peer, sa) t) a"
    and "\<not> stream_ended sc" and "\<not> sockFin l" and "sock_ends l \<noteq> None"
    and "end_of (stream_script client_payload sc) \<noteq> None"
    and "(local_step (conn_ops conn_finish))\<^sup>*\<^sup>* (session_start l (clientConn tg, sc)) c"
  shows "((\<exists>bound. \<forall>n a'. (tcp_step (conn_ops forward_finish) ^^ n) a a' \<longrightarrow> n \<le> bound)
      \<and> ((\<nexists>a'. tcp_step (conn_ops forward_finish) a a') \<longrightarrow> handler_return a \<noteq> None)
      \<and> (\<exists>a'. (tcp_step (conn_ops forward_finish))\<^sup>*\<^sup>* a a' \<and> handler_return a' \<noteq> None)
      \<and> (\<exists>more. sockOut t @ chunks_of (map (map_result server_payload) (inbox sa)) = sockOut (far a) @ more))
    \<and> ((\<exists>bound. \<forall>n c'. (local_step (conn_ops conn_finish) ^^ n) c c' \<longrightarrow> n \<le> bound)
      \<and> ((\<nexists>c'. local_step (conn_ops conn_finish) c c') \<longrightarrow> splice_returns c)
      \<and> (\<exists>c'. (local_step (conn_ops conn_finish))\<^sup>*\<^sup>* c c' \<and> splice_returns c')
      \<and> (\<exists>more. sockOut l @ chunks_of (stream_script client_payload sc) = sockOut (near c) @ more))"
proof -
  have a0: "agent_ending.ending_inv (sockOut t @ chunks_of (map (map_result server_payload) (inbox sa)))
      (sent_data resp_GetData sa @ sock_pending t) (session_start (serverConn peer, sa) t)"
    using agent_ending.ending_start [where a = "(serverConn peer, sa)" and b = t] assms(1-4)
    by (simp add: server.conn_inv_def conn_over_def conn_ends_def conn_pending_def stream_script_def)
  obtain k where "(tcp_step (conn_ops forward_finish) ^^ k) (session_start (serverConn peer, sa) t) a"
    using assms(5) by (auto simp: rtranclp_power)
  with agent_ending.ending_run [OF a0] have a: "agent_ending.ending_inv (sockOut t @ chunks_of (map (map_result server_payload) (inbox sa)))
      (sent_data resp_GetData sa @ sock_pending t) a" by (simp add: tcp_step_def)
  have c0: "client_ending.ending_inv (sent_data req_GetData sc @ sock_pending l) (sockOut l @ chunks_of (stream_script client_payload sc))
      (session_start l (clientConn tg, sc))"
    using client_ending.ending_start [where a = l and b = "(clientConn tg, sc)"] assms(6-9)
    by (simp add: client.conn_inv_def conn_over_def conn_ends_def conn_pending_def)
  obtain j where "(local_step (conn_ops conn_finish) ^^ j) (session_start l (clientConn tg, sc)) c"
    using assms(10) by (auto simp: rtranclp_power)
  with client_ending.ending_run [OF c0] have c: "client_ending.ending_inv (sent_data req_GetData sc @ sock_pending l)
      (sockOut l @ chunks_of (stream_script client_payload sc)) c" by (simp add: local_step_def)
  have "\<forall>n a'. (tcp_step (conn_ops forward_finish) ^^ n) a a' \<longrightarrow> n \<le> agent_ending.ending_left a"
    using agent_ending.ending_run [OF a] unfolding tcp_step_def by fastforce
  moreover have "\<forall>n c'. (local_step (conn_ops conn_finish) ^^ n) c c' \<longrightarrow> n \<le> client_ending.ending_left c"
    using client_ending.ending_run [OF c] unfolding local_step_def by fastforce
  moreover have "(\<nexists>a'. tcp_step (conn_ops forward_finish) a a') \<longrightarrow> handler_return a \<noteq> None"
    using agent_ending.ending_stuck [OF a] by (auto simp: tcp_step_def handler_return_def)
  moreover have "(\<nexists>c'. local_step (conn_ops conn_finish) c c') \<longrightarrow> splice_returns c"
    using client_ending.ending_stuck [OF c] by (auto simp: local_step_def splice_returns_def)
  moreover have "\<exists>a'. (tcp_step (conn_ops forward_finish))\<^sup>*\<^sup>* a a' \<and> handler_return a' \<noteq> None"
    using agent_ending.ending_completes [OF a] by (fastforce simp: tcp_step_def handler_return_def)
  moreover have "\<exists>c'. (local_step (conn_ops conn_finish))\<^sup>*\<^sup>* c c' \<and> splice_returns c'"
    using client_ending.ending_completes [OF c] by (auto simp: local_step_def splice_returns_def)
  ultimately show ?thesis using agent_ending.ending_prefixes [OF a] client_ending.ending_prefixes [OF c] by blast
qed

text \<open>A socket that takes one byte and is broken from then on, and streams that refuse every send.\<close>

definition demo_failing :: sock where
  "demo_failing = \<lparr>sockIn = [''hi'', ''!''], sockEnd = Some EOF, sockOut = [],
     sockErrs = [Some (1, OsErr ''broken pipe'')], sockFin = False, sockClosed = False\<rparr>"

lemma sessions_end_whatever_fails_witness:
  "\<exists>a c. (tcp_step (conn_ops forward_finish))\<^sup>*\<^sup>* (session_start (serverConn ''p'',
         \<lparr>inbox = [Inr (ReqData ''ab''), Inl EOF], outbox = [], sendErrs = [Some (OsErr ''reset'')]\<rparr>) demo_failing) a
     \<and> handler_return a \<noteq> None
     \<and> (local_step (conn_ops conn_finish))\<^sup>*\<^sup>* (session_start demo_failing (clientConn demo_target,
         \<lparr>inbox = [Inr (RespData ''ab''), Inl (OsErr ''reset'')], outbox = [], sendErrs = [Some (OsErr ''reset'')]\<rparr>)) c
     \<and> splice_returns c"
  using sessions_end_whatever_fails [where a = "session_start (serverConn ''p'',
         \<lparr>inbox = [Inr (ReqData ''ab''), Inl EOF], outbox = [], sendErrs = [Some (OsErr ''reset'')]\<rparr>) demo_failing",
      OF _ _ _ _ rtranclp.rtrancl_refl _ _ _ _ rtranclp.rtrancl_refl [where a = "session_start demo_failing (clientConn demo_target,
         \<lparr>inbox = [Inr (RespData ''ab''), Inl (OsErr ''reset'')], outbox = [], sendErrs = [Some (OsErr ''reset'')]\<rparr>)"]]
  by (simp add: stream_ended_def demo_failing_def sock_ends_def map_result_def server_payload_def stream_script_def
      client_payload_def)

text \<open>
  The local program of a session whose downstream copy has ended badly: \<^verbatim>\<open>splice\<close> waits for the other
  copy, which waits for the program.
\<close>

definition left_waiting :: "(sock, 'c) session \<Rightarrow> bool" where
  "left_waiting s \<longleftrightarrow> upPump s = Reading \<and> sock_pending (near s) = [] \<and> sock_ends (near s) = None
     \<and> (downPump s = HalfClosed \<or> (\<exists>r. downPump s = Copied r \<and> \<not> ended_well r))"

lemma left_waiting_reads:
  assumes "left_waiting s"
  shows "pump_step sock_ops ops fu (upPump s, near s, c) = None"
  using assms sock.src.rd_block [of "near s" copy_buffer]
  by (simp add: left_waiting_def pump_step_def)

lemma left_waiting_step:
  assumes "left_waiting (localSide s)" and "net_step L s s'"
  shows "left_waiting (localSide s') \<and> near (localSide s') = near (localSide s)"
  using assms(2)
proof (cases rule: net_step_cases)
  case (client_up p l c)
  with left_waiting_reads [OF assms(1), of "client_ops L" "\<lambda>r. True" "far (localSide s)"] show ?thesis by simp
next
  case (client_down p l c)
  with assms(1) show ?thesis by (auto simp: left_waiting_def pump_step_def)
qed (use assms(1) in \<open>simp_all add: left_waiting_def\<close>)

text \<open>
  C34: a break leaves the local program waiting. Once the downstream copy of \<^verbatim>\<open>splice\<close> has ended with an
  error that is no end of file, and while the local program has sent all it will send before an answer,
  nothing ever happens to its connection: it is neither ended nor closed, \<^verbatim>\<open>splice\<close> does not return, and
  after the copy is over the client takes no further step, whatever the agent and the network do.
\<close>

theorem break_leaves_local_waiting:
  assumes "upPump (localSide s) = Reading" and "sock_pending (near (localSide s)) = []" and "sock_ends (near (localSide s)) = None"
    and "downPump (localSide s) = Copied (Some e)" and "\<not> errors_is e EOF"
    and "(net_step L)\<^sup>*\<^sup>* s s'"
  shows "near (localSide s') = near (localSide s) \<and> \<not> splice_returns (localSide s')
    \<and> (downPump (localSide s') = HalfClosed \<longrightarrow> \<not> (\<exists>l. local_step (client_ops L) (localSide s') l))"
proof -
  have "left_waiting (localSide s') \<and> near (localSide s') = near (localSide s)"
    using assms(6)
  proof (induction rule: rtranclp_induct)
    case base
    with assms(1-5) show ?case by (simp add: left_waiting_def ended_well_def)
  next
    case (step m s')
    with left_waiting_step [of m L s'] show ?case by simp
  qed
  then have w: "left_waiting (localSide s')" and n: "near (localSide s') = near (localSide s)" by simp_all
  have "\<not> local_step (client_ops L) (localSide s') l" if "downPump (localSide s') = HalfClosed" for l
    using that left_waiting_reads [OF w, of "client_ops L" "\<lambda>r. True" "far (localSide s')"]
    by (auto simp: local_step_def pump_step_def [of "client_ops L"] elim!: splice_stepE)
  moreover have "\<not> splice_returns (localSide s')" using w by (simp add: left_waiting_def splice_returns_def)
  ultimately show ?thesis using n by blast
qed

definition demo_waiter :: sock where
  "demo_waiter = \<lparr>sockIn = [], sockEnd = None, sockOut = ''par'', sockErrs = [], sockFin = False, sockClosed = False\<rparr>"

lemma break_leaves_local_waiting_witness:
  "\<exists>c st s. c = clientConn demo_target \<and> st = \<lparr>inbox = [Inl (OsErr ''reset'')], outbox = [Msg (ReqOpen ''db'')], sendErrs = []\<rparr>
     \<and> net_step connect_link (net_start 1 demo_waiter (c, st)
         (session_start (serverConn ''p'', \<lparr>inbox = [], outbox = [], sendErrs = []\<rparr>) demo_answerer)) s
     \<and> near ` localSide ` {s'. (net_step connect_link)\<^sup>*\<^sup>* s s'} \<subseteq> {demo_waiter}"
proof -
  let ?st = "\<lparr>inbox = [Inl (OsErr ''reset'')], outbox = [Msg (ReqOpen ''db'')], sendErrs = []\<rparr> :: client_stream"
  let ?x = "((clientConn demo_target)\<lparr>readErr := Some (OsErr ''reset'')\<rparr>, ?st\<lparr>inbox := []\<rparr>)"
  let ?s0 = "net_start 1 demo_waiter (clientConn demo_target, ?st)
    (session_start (serverConn ''p'', \<lparr>inbox = [], outbox = [], sendErrs = []\<rparr> :: server_stream) demo_answerer)"
  let ?t = "?s0\<lparr>localSide := (localSide ?s0)\<lparr>downPump := Copied (Some (OsErr ''reset'')), far := ?x, near := demo_waiter\<rparr>\<rparr>"
  have "pump_step (conn_ops conn_finish) sock_ops ended_well (Reading, (clientConn demo_target, ?st), demo_waiter)
      = Some (Copied (Some (OsErr ''reset'')), ?x, demo_waiter)"
    apply (simp add: pump_step_def conn_ops_def conn_Read_def)
    apply (subst read_loop.simps)
    apply (simp add: stream_defs)
    apply (simp add: map_result_def normalize_def after_read_def copy_next_def copy_result_def)
    done
  then have step: "net_step connect_link ?s0 ?t"
    by (intro net_step.client) (simp add: local_step_def net_start_def session_start_def connect_link_def splice_step.simps)
  have "near (localSide s') = demo_waiter" if "(net_step connect_link)\<^sup>*\<^sup>* ?t s'" for s'
    using break_leaves_local_waiting [OF _ _ _ _ _ that, of "OsErr ''reset''"]
    by (simp add: net_start_def session_start_def demo_waiter_def sock_pending_def sock_ends_def)
  with step show ?thesis by blast
qed

end
