(* ===== verification/Probe.thy ===== *)
theory Probe
  imports Tunnels
begin

text \<open>
  The duplex probe between its two ends: \<^verbatim>\<open>Check\<close> of the client and \<^verbatim>\<open>Ping\<close> of the agent, each cut at its
  calls, and the path between them, which either carries every message as it comes or holds the request
  back until it is complete. The functions of \<open>Connect\<close> and \<open>Service\<close> are what the steps come to.
\<close>

subsection \<open>The two ends\<close>

datatype check_pc = Round "64 word list" | Await "64 word" "64 word list" | Checked "go_error option" | Closed "go_error option"

fun check_next ::
    "bool \<Rightarrow> verifier \<Rightarrow> target \<Rightarrow> string \<Rightarrow> check_pc \<times> ping_stream \<Rightarrow> (check_pc \<times> ping_stream) option" where
  "check_next expired v t timeout (Round [], st) = Some (Checked None, st)"
| "check_next expired v t timeout (Round (i # is), st) =
     (case stream_Send i st of
        (Some err, st1) \<Rightarrow>
          Some (Checked (Some (enrich v (Errorf ''ping %d to %s: %w'' [utoa (unat i), tgURL t] (Some err)))), st1)
      | (None, st1) \<Rightarrow> Some (Await i is, st1))"
| "check_next expired v t timeout (Await i is, st) =
     (case stream_Receive st of
        None \<Rightarrow> None
      | Some (Inl err, st1) \<Rightarrow>
          if errors_is err DeadlineExceeded \<or> expired then
            Some (Checked (Some (Errorf duplex_advice [tgURL t, timeout, utoa (unat i), tgName t] None)), st1)
          else Some (Checked (Some (Errorf ''ping %d to %s: %w'' [utoa (unat i), tgURL t] (Some err))), st1)
      | Some (Inr seq, st1) \<Rightarrow>
          if seq \<noteq> i then
            Some (Checked (Some (Errorf ''ping %d to %s: agent replied with seq %d''
              [utoa (unat i), tgURL t, utoa (unat seq)] None)), st1)
          else Some (Round is, st1))"
| "check_next expired v t timeout (Checked r, st) = Some (Closed r, snd (stream_CloseRequest st))"
| "check_next expired v t timeout (Closed r, st) = None"

datatype ping_pc = PingReceive | PingSend "64 word" | PingReturned "go_error option"

fun ping_next :: "ping_pc \<times> ping_stream \<Rightarrow> (ping_pc \<times> ping_stream) option" where
  "ping_next (PingReceive, st) =
     (case stream_Receive st of
        None \<Rightarrow> None
      | Some (Inl err, st1) \<Rightarrow> Some (PingReturned (if errors_is err EOF then None else Some err), st1)
      | Some (Inr seq, st1) \<Rightarrow> Some (PingSend seq, st1))"
| "ping_next (PingSend seq, st) =
     (case stream_Send seq st of
        (Some err, st1) \<Rightarrow> Some (PingReturned (Some err), st1)
      | (None, st1) \<Rightarrow> Some (PingReceive, st1))"
| "ping_next (PingReturned r, st) = None"

text \<open>The steps of either end, taken to the end, are its function.\<close>

definition step_of :: "('s \<Rightarrow> 's option) \<Rightarrow> 's \<Rightarrow> 's \<Rightarrow> bool" where
  "step_of f x y \<longleftrightarrow> f x = Some y"

fun check_rest :: "bool \<Rightarrow> verifier \<Rightarrow> target \<Rightarrow> string \<Rightarrow> check_pc \<times> ping_stream \<Rightarrow> (go_error option \<times> ping_stream) option" where
  "check_rest expired v t timeout (Round is, st) =
     map_option (\<lambda>(r, st'). (r, snd (stream_CloseRequest st'))) (check_rounds expired v t timeout is st)"
| "check_rest expired v t timeout (Await i is, st) =
     (case check_next expired v t timeout (Await i is, st) of
        Some (Checked r, st1) \<Rightarrow> Some (r, snd (stream_CloseRequest st1))
      | Some (Round js, st1) \<Rightarrow>
          map_option (\<lambda>(r, st'). (r, snd (stream_CloseRequest st'))) (check_rounds expired v t timeout js st1)
      | _ \<Rightarrow> None)"
| "check_rest expired v t timeout (Checked r, st) = Some (r, snd (stream_CloseRequest st))"
| "check_rest expired v t timeout (Closed r, st) = Some (r, st)"

lemma check_rest_next:
  "check_next expired v t timeout x = Some y \<Longrightarrow> check_rest expired v t timeout x = check_rest expired v t timeout y"
  by (induction expired v t timeout x rule: check_next.induct)
    (auto split: option.splits sum.splits prod.splits if_splits)

lemma check_rest_ends:
  "check_rest expired v t timeout x = Some r \<Longrightarrow>
   (step_of (check_next expired v t timeout))\<^sup>*\<^sup>* x (Closed (fst r), snd r)"
proof (induction "case fst x of Round is \<Rightarrow> 2 * length is + 2 | Await i is \<Rightarrow> 2 * length is + 3 | Checked r \<Rightarrow> 1 | Closed r \<Rightarrow> 0"
    arbitrary: x rule: less_induct)
  case less
  show ?case
  proof (cases "check_next expired v t timeout x")
    case None
    with less.prems show ?thesis
      by (cases "(expired, v, t, timeout, x)" rule: check_next.cases) (auto split: option.splits sum.splits prod.splits if_splits)
  next
    case (Some y)
    with less.prems check_rest_next have r: "check_rest expired v t timeout y = Some r" by metis
    have "(case fst y of Round is \<Rightarrow> 2 * length is + 2 | Await i is \<Rightarrow> 2 * length is + 3 | Checked r \<Rightarrow> 1 | Closed r \<Rightarrow> 0)
        < (case fst x of Round is \<Rightarrow> 2 * length is + 2 | Await i is \<Rightarrow> 2 * length is + 3 | Checked r \<Rightarrow> 1 | Closed r \<Rightarrow> 0)"
      using Some by (cases "(expired, v, t, timeout, x)" rule: check_next.cases)
        (auto split: option.splits sum.splits prod.splits if_splits)
    from less.hyps [OF this r] Some show ?thesis
      by (meson step_of_def converse_rtranclp_into_rtranclp)
  qed
qed

lemma check_steps_check:
  "(step_of (check_next expired v t timeout))\<^sup>*\<^sup>* (Round [1, 2], st) (Closed r, st')
   \<longleftrightarrow> checkConnect (Inr c) expired v t timeout st = Some (r, st')"
proof
  assume "checkConnect (Inr c) expired v t timeout st = Some (r, st')"
  then have "check_rest expired v t timeout (Round [1, 2], st) = Some (r, st')" by (simp add: checkConnect_def)
  from check_rest_ends [OF this]
  show "(step_of (check_next expired v t timeout))\<^sup>*\<^sup>* (Round [1, 2], st) (Closed r, st')" by simp
next
  assume "(step_of (check_next expired v t timeout))\<^sup>*\<^sup>* (Round [1, 2], st) (Closed r, st')"
  then have "check_rest expired v t timeout (Round [1, 2], st) = check_rest expired v t timeout (Closed r, st')"
    by (induction rule: rtranclp_induct) (metis step_of_def check_rest_next)+
  then show "checkConnect (Inr c) expired v t timeout st = Some (r, st')" by (simp add: checkConnect_def)
qed

fun ping_rest :: "ping_pc \<times> ping_stream \<Rightarrow> (go_error option \<times> ping_stream) option" where
  "ping_rest (PingReceive, st) = Ping st"
| "ping_rest (PingSend seq, st) =
     (case stream_Send seq st of (Some err, st1) \<Rightarrow> Some (Some err, st1) | (None, st1) \<Rightarrow> Ping st1)"
| "ping_rest (PingReturned r, st) = Some (r, st)"

lemma Ping_next: "Ping st = (case ping_next (PingReceive, st) of None \<Rightarrow> None | Some y \<Rightarrow> ping_rest y)"
  by (subst Ping.simps) (auto split: option.splits sum.splits prod.splits)

lemma ping_rest_next: "ping_next x = Some y \<Longrightarrow> ping_rest x = ping_rest y"
  by (cases x rule: ping_next.cases) (auto simp: Ping_next simp del: ping_next.simps(1) split: option.splits prod.splits)

lemma ping_rest_ends: "ping_rest x = Some r \<Longrightarrow> (step_of ping_next)\<^sup>*\<^sup>* x (PingReturned (fst r), snd r)"
proof (induction "2 * length (inbox (snd x)) + (case fst x of PingReceive \<Rightarrow> 1 | PingSend seq \<Rightarrow> 2 | PingReturned r \<Rightarrow> 0)"
    arbitrary: x rule: less_induct)
  case less
  show ?case
  proof (cases "ping_next x")
    case None
    with less.prems show ?thesis
      by (cases x rule: ping_next.cases) (auto simp: Ping_next simp del: ping_next.simps(1) split: option.splits prod.splits)
  next
    case (Some y)
    with less.prems ping_rest_next have r: "ping_rest y = Some r" by metis
    have "2 * length (inbox (snd y)) + (case fst y of PingReceive \<Rightarrow> 1 | PingSend seq \<Rightarrow> 2 | PingReturned r \<Rightarrow> 0)
        < 2 * length (inbox (snd x)) + (case fst x of PingReceive \<Rightarrow> 1 | PingSend seq \<Rightarrow> 2 | PingReturned r \<Rightarrow> 0)"
      using Some by (cases x rule: ping_next.cases)
        (auto simp: stream_Receive_def stream_Send_def stream_emit_def split: list.splits option.splits sum.splits prod.splits)
    from less.hyps [OF this r] Some show ?thesis by (meson step_of_def converse_rtranclp_into_rtranclp)
  qed
qed

lemma ping_steps_Ping: "(step_of ping_next)\<^sup>*\<^sup>* (PingReceive, st) (PingReturned r, st') \<longleftrightarrow> Ping st = Some (r, st')"
proof
  assume "Ping st = Some (r, st')"
  with ping_rest_ends [of "(PingReceive, st)" "(r, st')"]
  show "(step_of ping_next)\<^sup>*\<^sup>* (PingReceive, st) (PingReturned r, st')" by simp
next
  assume "(step_of ping_next)\<^sup>*\<^sup>* (PingReceive, st) (PingReturned r, st')"
  then have "ping_rest (PingReceive, st) = ping_rest (PingReturned r, st')"
    by (induction rule: rtranclp_induct) (metis step_of_def ping_rest_next)+
  then show "Ping st = Some (r, st')" by simp
qed

subsection \<open>The path between them\<close>

record probe =
  checkSide :: "check_pc \<times> ping_stream"
  pingSide :: "ping_pc \<times> ping_stream"
  reqTaken :: nat
  respTaken :: nat

datatype path = Duplex | Buffering

text \<open>
  A buffering path forwards nothing of a request before it is complete. Where \<open>late\<close>, the deadline may
  strike while the client waits for an answer.
\<close>

inductive probe_step :: "path \<Rightarrow> bool \<Rightarrow> verifier \<Rightarrow> target \<Rightarrow> string \<Rightarrow> probe \<Rightarrow> probe \<Rightarrow> bool" for path late v t timeout where
  check: "check_next False v t timeout (checkSide s) = Some c \<Longrightarrow> probe_step path late v t timeout s (s\<lparr>checkSide := c\<rparr>)"
| ping: "ping_next (pingSide s) = Some c \<Longrightarrow> probe_step path late v t timeout s (s\<lparr>pingSide := c\<rparr>)"
| carry_req: "reqTaken s < length (outbox (snd (checkSide s))) \<Longrightarrow>
    path = Duplex \<or> CloseReq \<in> set (outbox (snd (checkSide s))) \<Longrightarrow>
    probe_step path late v t timeout s
      (s\<lparr>pingSide := arrive (outbox (snd (checkSide s)) ! reqTaken s) (pingSide s), reqTaken := Suc (reqTaken s)\<rparr>)"
| carry_resp: "respTaken s < length (outbox (snd (pingSide s))) \<Longrightarrow>
    probe_step path late v t timeout s
      (s\<lparr>checkSide := arrive (outbox (snd (pingSide s)) ! respTaken s) (checkSide s), respTaken := Suc (respTaken s)\<rparr>)"
| deadline: "late \<Longrightarrow> fst (checkSide s) = Await i is \<Longrightarrow> inbox (snd (checkSide s)) = [] \<Longrightarrow>
    probe_step path late v t timeout s
      (s\<lparr>checkSide := (Await i is, (snd (checkSide s))\<lparr>inbox := [Inl DeadlineExceeded]\<rparr>)\<rparr>)"

definition probe_start :: probe where
  "probe_start = \<lparr>checkSide = (Round [1, 2], \<lparr>inbox = [], outbox = [], sendErrs = []\<rparr>),
     pingSide = (PingReceive, \<lparr>inbox = [], outbox = [], sendErrs = []\<rparr>), reqTaken = 0, respTaken = 0\<rparr>"

subsection \<open>A duplex path\<close>

text \<open>
  The dialogue: after the pings \<open>ks\<close> have been answered and \<open>is\<close> are to come, exactly one party can
  act. The number counts the steps that are left.
\<close>

abbreviation probe_at ::
    "check_pc \<Rightarrow> 64 word result list \<Rightarrow> 64 word sent_event list \<Rightarrow> ping_pc \<Rightarrow> 64 word result list \<Rightarrow> 64 word list
     \<Rightarrow> nat \<Rightarrow> nat \<Rightarrow> probe" where
  "probe_at c ci co p pi po rq rs \<equiv>
     \<lparr>checkSide = (c, \<lparr>inbox = ci, outbox = co, sendErrs = []\<rparr>),
      pingSide = (p, \<lparr>inbox = pi, outbox = map Msg po, sendErrs = []\<rparr>), reqTaken = rq, respTaken = rs\<rparr>"

inductive dialogue :: "nat \<Rightarrow> probe \<Rightarrow> bool" where
  "n = length ks \<Longrightarrow> dialogue (4 + 6 * length is) (probe_at (Round is) [] (map Msg ks) PingReceive [] ks n n)"
| "n = length ks \<Longrightarrow> dialogue (9 + 6 * length is) (probe_at (Await i is) [] (map Msg ks @ [Msg i]) PingReceive [] ks n n)"
| "n = length ks \<Longrightarrow> dialogue (8 + 6 * length is) (probe_at (Await i is) [] (map Msg ks @ [Msg i]) PingReceive [Inr i] ks (Suc n) n)"
| "n = length ks \<Longrightarrow> dialogue (7 + 6 * length is) (probe_at (Await i is) [] (map Msg ks @ [Msg i]) (PingSend i) [] ks (Suc n) n)"
| "n = length ks \<Longrightarrow> dialogue (6 + 6 * length is) (probe_at (Await i is) [] (map Msg ks @ [Msg i]) PingReceive [] (ks @ [i]) (Suc n) n)"
| "n = length ks \<Longrightarrow> dialogue (5 + 6 * length is) (probe_at (Await i is) [Inr i] (map Msg ks @ [Msg i]) PingReceive [] (ks @ [i]) (Suc n) (Suc n))"
| "n = length ks \<Longrightarrow> dialogue 3 (probe_at (Checked None) [] (map Msg ks) PingReceive [] ks n n)"
| "n = length ks \<Longrightarrow> dialogue 2 (probe_at (Closed None) [] (map Msg ks @ [CloseReq]) PingReceive [] ks n n)"
| "n = length ks \<Longrightarrow> dialogue 1 (probe_at (Closed None) [] (map Msg ks @ [CloseReq]) PingReceive [Inl EOF] ks (Suc n) n)"
| "n = length ks \<Longrightarrow> dialogue 0 (probe_at (Closed None) [] (map Msg ks @ [CloseReq]) (PingReturned None) [] ks (Suc n) n)"

lemma dialogue_start: "dialogue 16 probe_start"
  using dialogue.intros(1) [of 0 "[]" "[1, 2]"] by (simp add: probe_start_def)

lemma dialogue_round:
  "n = length ks \<Longrightarrow> dialogue (4 + 6 * length is) (probe_at (Round is) [] (map Msg ks @ [Msg i]) PingReceive [] (ks @ [i]) (Suc n) (Suc n))"
  using dialogue.intros(1) [of "Suc n" "ks @ [i]" "is"] by simp

lemmas dialogue_intros = dialogue.intros [OF refl, simplified] dialogue_round [OF refl, simplified]

lemmas probe_defs = stream_Send_def stream_Receive_def stream_CloseRequest_def stream_emit_def arrive_def

lemma dialogue_step:
  assumes "dialogue n s" and "probe_step Duplex False v t timeout s s'"
  shows "\<exists>m. n = Suc m \<and> dialogue m s'"
  using assms(1)
proof cases
  case (1 n ks "is")
  with assms(2) show ?thesis
    by (cases "is") (auto simp: probe_step.simps probe_defs nth_append intro: dialogue_intros)
qed (use assms(2) in \<open>auto simp: probe_step.simps probe_defs nth_append intro: dialogue_intros\<close>)

lemma dialogue_goes_on:
  assumes "dialogue (Suc m) s"
  shows "\<exists>s'. probe_step Duplex False v t timeout s s'"
  using assms
proof cases
  case (1 n ks "is")
  then show ?thesis by (cases "is") (auto simp: probe_step.simps probe_defs)
qed (auto simp: probe_step.simps probe_defs nth_append)

lemma dialogue_ends: "dialogue 0 s \<Longrightarrow> fst (checkSide s) = Closed None \<and> fst (pingSide s) = PingReturned None"
  by (erule dialogue.cases) simp_all

lemma dialogue_run:
  "(probe_step Duplex False v t timeout ^^ k) probe_start s \<Longrightarrow> \<exists>m. k + m = 16 \<and> dialogue m s"
proof (induction k arbitrary: s)
  case 0
  with dialogue_start show ?case by auto
next
  case (Suc k)
  then obtain r where r: "(probe_step Duplex False v t timeout ^^ k) probe_start r" "probe_step Duplex False v t timeout r s" by auto
  from Suc.IH [OF r(1)] obtain m where m: "k + m = 16" "dialogue m r" by blast
  from dialogue_step [OF m(2) r(2)] m(1) show ?case by auto
qed

subsection \<open>A buffering path\<close>

definition held_back :: "target \<Rightarrow> string \<Rightarrow> probe \<Rightarrow> bool" where
  "held_back t timeout s \<longleftrightarrow>
     (let advice = Some (Errorf duplex_advice [tgURL t, timeout, ''1'', tgName t] None) in
      s = probe_start
      \<or> (\<exists>ci. ci \<in> {[], [Inl DeadlineExceeded]} \<and> s = probe_at (Await 1 [2]) ci [Msg 1] PingReceive [] [] 0 0)
      \<or> s = probe_at (Checked advice) [] [Msg 1] PingReceive [] [] 0 0
      \<or> fst (checkSide s) = Closed advice)"

lemma held_back_step:
  assumes "held_back t timeout s" and "probe_step Buffering late v t timeout s s'"
  shows "held_back t timeout s'"
proof -
  have "char_of (code CHR ''1'') = CHR ''1''" by (rule char_of_code)
  then have one: "utoa (Suc 0) = ''1''" by (simp add: utoa.simps digit_char_def)
  let ?a = "Some (Errorf duplex_advice [tgURL t, timeout, ''1'', tgName t] None)"
  from assms(1) consider "s = probe_start" | "s = probe_at (Await 1 [2]) [] [Msg 1] PingReceive [] [] 0 0"
    | "s = probe_at (Await 1 [2]) [Inl DeadlineExceeded] [Msg 1] PingReceive [] [] 0 0"
    | "s = probe_at (Checked ?a) [] [Msg 1] PingReceive [] [] 0 0" | "fst (checkSide s) = Closed ?a"
    by (auto simp: held_back_def Let_def)
  then show ?thesis
  proof cases
    case 1
    with assms(2) show ?thesis by (auto simp: probe_step.simps probe_defs held_back_def probe_start_def)
  next
    case 2
    with assms(2) show ?thesis by (auto simp: probe_step.simps probe_defs held_back_def)
  next
    case 3
    with assms(2) one show ?thesis by (auto simp: probe_step.simps probe_defs held_back_def)
  next
    case 4
    with assms(2) show ?thesis by (auto simp: probe_step.simps probe_defs held_back_def)
  next
    case 5
    then obtain st where "checkSide s = (Closed ?a, st)" by (cases "checkSide s") auto
    with assms(2) show ?thesis by (auto simp: probe_step.simps arrive_def held_back_def)
  qed
qed

lemma held_back_run: "(probe_step Buffering late v t timeout)\<^sup>*\<^sup>* probe_start s \<Longrightarrow> held_back t timeout s"
proof (induction rule: rtranclp_induct)
  case base
  show ?case by (simp add: held_back_def Let_def)
qed (rule held_back_step)

text \<open>Both kinds of run exist.\<close>

lemma dialogue_completes: "dialogue m s \<Longrightarrow> \<exists>s'. (probe_step Duplex False v t timeout ^^ m) s s'"
proof (induction m arbitrary: s)
  case (Suc m)
  then obtain r where r: "probe_step Duplex False v t timeout s r" using dialogue_goes_on by blast
  with dialogue_step [OF Suc.prems this] Suc.IH [of r] show ?case by (metis Suc_inject relpowp_Suc_I2)
qed simp

lemma held_back_ends:
  "\<exists>s. (probe_step Buffering True v t timeout)\<^sup>*\<^sup>* probe_start s \<and> (\<exists>r. fst (checkSide s) = Closed r)"
proof -
  let ?r = "probe_step Buffering True v t timeout"
  let ?w = "probe_at (Await 1 [2]) [] [Msg 1] PingReceive [] [] 0 0"
    and ?l = "probe_at (Await 1 [2]) [Inl DeadlineExceeded] [Msg 1] PingReceive [] [] 0 0"
    and ?c = "probe_at (Checked (Some (Errorf duplex_advice [tgURL t, timeout, utoa (unat (1 :: 64 word)), tgName t] None))) [] [Msg 1]
      PingReceive [] [] 0 0"
  have "?r probe_start ?w" "?r ?w ?l" "?r ?l ?c"
    by (auto simp: probe_step.simps probe_defs probe_start_def)
  moreover have "\<exists>s. ?r ?c s \<and> (\<exists>r. fst (checkSide s) = Closed r)" by (auto simp: probe_step.simps probe_defs)
  ultimately show ?thesis by (meson converse_rtranclp_into_rtranclp rtranclp.rtrancl_refl)
qed

subsection \<open>Properties\<close>

text \<open>
  C37: the probe tells a duplex path from a buffering one. Over a duplex path that answers within the
  deadline it takes 16 steps, no run can stop earlier or go on longer, and it ends with success at both
  ends. Over a path that holds the request back it never succeeds, whatever the order of the steps and
  whenever the deadline strikes: no ping is before the agent while the client waits, and when the deadline
  strikes the result is the advice, after the first round.
\<close>

theorem probe_tells_duplex:
  shows "((probe_step Duplex False v t timeout ^^ k) probe_start s \<longrightarrow>
      k \<le> 16 \<and> ((\<nexists>s'. probe_step Duplex False v t timeout s s') \<longleftrightarrow> k = 16)
      \<and> (k = 16 \<longrightarrow> fst (checkSide s) = Closed None \<and> fst (pingSide s) = PingReturned None))
    \<and> ((probe_step Buffering late v t timeout)\<^sup>*\<^sup>* probe_start s \<longrightarrow>
      (case fst (checkSide s) of
         Closed r \<Rightarrow> r = Some (Errorf duplex_advice [tgURL t, timeout, ''1'', tgName t] None)
       | _ \<Rightarrow> pingSide s = pingSide probe_start)
      \<and> (late \<and> (\<nexists>s'. probe_step Buffering late v t timeout s s') \<longrightarrow>
           fst (checkSide s) = Closed (Some (Errorf duplex_advice [tgURL t, timeout, ''1'', tgName t] None))))"
proof -
  have "k \<le> 16 \<and> ((\<nexists>s'. probe_step Duplex False v t timeout s s') \<longleftrightarrow> k = 16)
      \<and> (k = 16 \<longrightarrow> fst (checkSide s) = Closed None \<and> fst (pingSide s) = PingReturned None)"
    if "(probe_step Duplex False v t timeout ^^ k) probe_start s"
  proof -
    from dialogue_run [OF that] obtain m where m: "k + m = 16" "dialogue m s" by blast
    show ?thesis
    proof (cases m)
      case 0
      with m dialogue_step [of 0 s] dialogue_ends show ?thesis by auto
    next
      case (Suc n)
      with m dialogue_goes_on [of n s] show ?thesis by auto
    qed
  qed
  moreover have "(case fst (checkSide s) of
         Closed r \<Rightarrow> r = Some (Errorf duplex_advice [tgURL t, timeout, ''1'', tgName t] None)
       | _ \<Rightarrow> pingSide s = pingSide probe_start)
      \<and> (late \<and> (\<nexists>s'. probe_step Buffering late v t timeout s s') \<longrightarrow>
           fst (checkSide s) = Closed (Some (Errorf duplex_advice [tgURL t, timeout, ''1'', tgName t] None)))"
    if "(probe_step Buffering late v t timeout)\<^sup>*\<^sup>* probe_start s"
    using held_back_run [OF that]
    by (auto simp: held_back_def Let_def probe_start_def probe_step.simps probe_defs)
  ultimately show ?thesis by blast
qed

lemma probe_tells_duplex_witness:
  "\<exists>s b. (probe_step Duplex False None demo_target ''10s'' ^^ 16) probe_start s \<and> fst (checkSide s) = Closed None
     \<and> (probe_step Buffering True None demo_target ''10s'')\<^sup>*\<^sup>* probe_start b
     \<and> fst (checkSide b) = Closed (Some (Errorf duplex_advice [tgURL demo_target, ''10s'', ''1'', tgName demo_target] None))"
proof -
  obtain s where s: "(probe_step Duplex False None demo_target ''10s'' ^^ 16) probe_start s"
    using dialogue_completes [OF dialogue_start] by blast
  obtain b r where b: "(probe_step Buffering True None demo_target ''10s'')\<^sup>*\<^sup>* probe_start b" "fst (checkSide b) = Closed r"
    using held_back_ends by blast
  have "fst (checkSide s) = Closed None"
    using probe_tells_duplex [where k = 16 and s = s and v = None and t = demo_target and timeout = "''10s''" and late = True] s by blast
  moreover have "r = Some (Errorf duplex_advice [tgURL demo_target, ''10s'', ''1'', tgName demo_target] None)"
    using probe_tells_duplex [where k = 0 and s = b and v = None and t = demo_target and timeout = "''10s''" and late = True] b by simp
  ultimately show ?thesis using s b by blast
qed

end
