(* ===== verification/Messages.thy ===== *)
theory Messages
  imports Transport "HOL-Library.Word"
begin

text \<open>
  The message structs of \<^verbatim>\<open>gen/san/tunnels/v1/tunnel.pb.go\<close> as the generator wrote them, with pointers that
  may be nil (\<open>None\<close>) and fields for what the runtime did not recognise; and that \<open>Transport\<close>, which has
  only the messages themselves, agrees with the getters and with what the source builds. A wrapper of a
  oneof is a pointer to a literal everywhere, so it is taken as not nil itself.
\<close>

subsection \<open>The structs\<close>

record open_struct =
  openEndpoint :: string
  openUnknown :: bytes

record opened_struct =
  openedUnknown :: bytes

datatype request_payload = ForwardRequest_Open "open_struct option" | ForwardRequest_Data bytes
datatype response_payload = ForwardResponse_Opened "opened_struct option" | ForwardResponse_Data bytes

record request_struct =
  reqPayload :: "request_payload option"
  reqUnknown :: bytes

record response_struct =
  respPayload :: "response_payload option"
  respUnknown :: bytes

record ping_request_struct =
  pingReqSeq :: "64 word"
  pingReqUnknown :: bytes

record ping_response_struct =
  pingRespSeq :: "64 word"
  pingRespUnknown :: bytes

subsection \<open>Getters\<close>

definition ForwardRequest_GetPayload :: "request_struct option \<Rightarrow> request_payload option" where
  "ForwardRequest_GetPayload x = (case x of Some x \<Rightarrow> reqPayload x | None \<Rightarrow> None)"

definition ForwardRequest_GetOpen :: "request_struct option \<Rightarrow> open_struct option" where
  "ForwardRequest_GetOpen x =
     (case x of
        Some x \<Rightarrow> (case reqPayload x of Some (ForwardRequest_Open p) \<Rightarrow> p | _ \<Rightarrow> None)
      | None \<Rightarrow> None)"

definition ForwardRequest_GetData :: "request_struct option \<Rightarrow> bytes" where
  "ForwardRequest_GetData x =
     (case x of
        Some x \<Rightarrow> (case reqPayload x of Some (ForwardRequest_Data b) \<Rightarrow> b | _ \<Rightarrow> [])
      | None \<Rightarrow> [])"

definition Open_GetEndpoint :: "open_struct option \<Rightarrow> string" where
  "Open_GetEndpoint x = (case x of Some x \<Rightarrow> openEndpoint x | None \<Rightarrow> [])"

definition ForwardResponse_GetPayload :: "response_struct option \<Rightarrow> response_payload option" where
  "ForwardResponse_GetPayload x = (case x of Some x \<Rightarrow> respPayload x | None \<Rightarrow> None)"

definition ForwardResponse_GetOpened :: "response_struct option \<Rightarrow> opened_struct option" where
  "ForwardResponse_GetOpened x =
     (case x of
        Some x \<Rightarrow> (case respPayload x of Some (ForwardResponse_Opened p) \<Rightarrow> p | _ \<Rightarrow> None)
      | None \<Rightarrow> None)"

definition ForwardResponse_GetData :: "response_struct option \<Rightarrow> bytes" where
  "ForwardResponse_GetData x =
     (case x of
        Some x \<Rightarrow> (case respPayload x of Some (ForwardResponse_Data b) \<Rightarrow> b | _ \<Rightarrow> [])
      | None \<Rightarrow> [])"

definition PingRequest_GetSeq :: "ping_request_struct option \<Rightarrow> 64 word" where
  "PingRequest_GetSeq x = (case x of Some x \<Rightarrow> pingReqSeq x | None \<Rightarrow> 0)"

definition PingResponse_GetSeq :: "ping_response_struct option \<Rightarrow> 64 word" where
  "PingResponse_GetSeq x = (case x of Some x \<Rightarrow> pingRespSeq x | None \<Rightarrow> 0)"

text \<open>\<^verbatim>\<open>Reset\<close> makes a message the zero value of its struct.\<close>

definition ForwardRequest_Reset :: "request_struct \<Rightarrow> request_struct" where
  "ForwardRequest_Reset x = \<lparr>reqPayload = None, reqUnknown = []\<rparr>"

definition Open_Reset :: "open_struct \<Rightarrow> open_struct" where
  "Open_Reset x = \<lparr>openEndpoint = [], openUnknown = []\<rparr>"

definition ForwardResponse_Reset :: "response_struct \<Rightarrow> response_struct" where
  "ForwardResponse_Reset x = \<lparr>respPayload = None, respUnknown = []\<rparr>"

definition Opened_Reset :: "opened_struct \<Rightarrow> opened_struct" where
  "Opened_Reset x = \<lparr>openedUnknown = []\<rparr>"

definition PingRequest_Reset :: "ping_request_struct \<Rightarrow> ping_request_struct" where
  "PingRequest_Reset x = \<lparr>pingReqSeq = 0, pingReqUnknown = []\<rparr>"

definition PingResponse_Reset :: "ping_response_struct \<Rightarrow> ping_response_struct" where
  "PingResponse_Reset x = \<lparr>pingRespSeq = 0, pingRespUnknown = []\<rparr>"

subsection \<open>The messages of the model\<close>

definition request_of :: "request_struct \<Rightarrow> forward_request" where
  "request_of x =
     (case reqPayload x of
        Some (ForwardRequest_Open (Some p)) \<Rightarrow> ReqOpen (openEndpoint p)
      | Some (ForwardRequest_Data b) \<Rightarrow> ReqData b
      | _ \<Rightarrow> ReqEmpty)"

definition response_of :: "response_struct \<Rightarrow> forward_response" where
  "response_of x =
     (case respPayload x of
        Some (ForwardResponse_Opened (Some p)) \<Rightarrow> RespOpened
      | Some (ForwardResponse_Data b) \<Rightarrow> RespData b
      | _ \<Rightarrow> RespEmpty)"

text \<open>
  Every getter of the source is a function of the message: a message of the model says as much as the
  struct to whoever reads it by getters, a nil one reads as an empty one, one that has been reset likewise.
\<close>

lemma request_getters:
  "map_option (\<lambda>p. Open_GetEndpoint (Some p)) (ForwardRequest_GetOpen (Some x)) = req_GetOpen (request_of x)"
  "ForwardRequest_GetData (Some x) = req_GetData (request_of x)"
  "ForwardRequest_GetOpen None = None \<and> ForwardRequest_GetData None = [] \<and> Open_GetEndpoint None = []"
  "request_of (ForwardRequest_Reset x) = ReqEmpty"
  by (auto simp: ForwardRequest_GetOpen_def ForwardRequest_GetData_def Open_GetEndpoint_def request_of_def
      ForwardRequest_Reset_def split: option.splits request_payload.splits)

lemma response_getters:
  "map_option (\<lambda>p. ()) (ForwardResponse_GetOpened (Some x)) = resp_GetOpened (response_of x)"
  "ForwardResponse_GetData (Some x) = resp_GetData (response_of x)"
  "ForwardResponse_GetOpened None = None \<and> ForwardResponse_GetData None = []"
  "response_of (ForwardResponse_Reset x) = RespEmpty"
  by (auto simp: ForwardResponse_GetOpened_def ForwardResponse_GetData_def response_of_def
      ForwardResponse_Reset_def split: option.splits response_payload.splits)

text \<open>The messages the source builds.\<close>

lemma built_messages:
  "request_of \<lparr>reqPayload = Some (ForwardRequest_Open (Some \<lparr>openEndpoint = ep, openUnknown = u\<rparr>)), reqUnknown = w\<rparr> = ReqOpen ep"
  "request_of \<lparr>reqPayload = Some (ForwardRequest_Data b), reqUnknown = w\<rparr> = ReqData b"
  "response_of \<lparr>respPayload = Some (ForwardResponse_Opened (Some p)), respUnknown = w\<rparr> = RespOpened"
  "response_of \<lparr>respPayload = Some (ForwardResponse_Data b), respUnknown = w\<rparr> = RespData b"
  by (simp_all add: request_of_def response_of_def)

text \<open>A oneof is one of its members: no message opens and carries data, or is acknowledged and carries data.\<close>

lemma oneof_exclusive:
  "ForwardRequest_GetOpen x \<noteq> None \<Longrightarrow> ForwardRequest_GetData x = []"
  "ForwardResponse_GetOpened y \<noteq> None \<Longrightarrow> ForwardResponse_GetData y = []"
  by (auto simp: ForwardRequest_GetOpen_def ForwardRequest_GetData_def ForwardResponse_GetOpened_def
      ForwardResponse_GetData_def split: option.splits request_payload.splits response_payload.splits)

end
