(* ===== verification/Broken.thy ===== *)
theory Broken
  imports Tunnel
begin

text \<open>What the two outer ends of a tunnel see when the stream between them breaks.\<close>

lemma end_normal: "end_of sc = Some e \<Longrightarrow> e = EOF \<or> \<not> errors_is e EOF"
proof (induction sc rule: end_of.induct)
  case (3 err rs)
  then show ?case by (auto simp: normalize_def split: if_splits)
qed simp_all

lemma ended_badly: "e \<noteq> EOF \<Longrightarrow> \<not> errors_is e EOF \<Longrightarrow> \<not> ended_well (copy_result e)"
  by (simp add: ended_well_def copy_result_def)

lemma break_reaches_target:
  assumes "sendErrs st = []" and "\<not> stream_ended st" and "sock_open t" and "sockOut t = []"
    and "(tcp_step (conn_ops forward_finish))\<^sup>*\<^sup>* (session_start (serverConn peer, st) t) s" and "upPump s = HalfClosed"
  shows "sockOut (far s) = chunks_of (map (map_result server_payload) (inbox st)) \<and> sockFin (far s)"
proof -
  have inv: "forward_session.session_inv (\<lambda>r. True) (\<lambda>r. True) (serverConn peer, st) t s"
    using forward_session.session_inv_reach [OF server_fresh [OF assms(1-3)]] assms(5) by (simp add: tcp_step_def)
  from conjunct1 [OF inv [unfolded forward_session.session_inv_def]] assms(6)
  have "forward_session.up.flow_inv (\<lambda>r. True) (sockOut t @ conn_pending (stream_script server_payload) (serverConn peer, st))
      (conn_ends (stream_script server_payload) (serverConn peer, st)) (HalfClosed, near s, far s)" by simp
  from forward_session.up.flow_closed [OF this] assms(4) show ?thesis by (auto simp: serverConn_pending)
qed

lemma break_reaches_local:
  assumes "sendErrs st = []" and "\<not> stream_ended st" and "sock_open l" and "sockOut l = []"
    and "(local_step (conn_ops conn_finish))\<^sup>*\<^sup>* (session_start l (clientConn t, st)) s" and "downPump s = HalfClosed"
    and "end_of (stream_script client_payload st) = Some e"
  shows "sockOut (near s) = chunks_of (stream_script client_payload st) \<and> sockFin (near s) = (e = EOF)"
proof -
  have "\<not> sockFin l" using assms(3) by (simp add: sock_open_def)
  have inv: "client_session.session_inv (\<lambda>r. True) ended_well l (clientConn t, st) s"
    using client_session.session_inv_reach [OF client_fresh [OF assms(1-3) \<open>\<not> sockFin l\<close>]] assms(5) by (simp add: local_step_def)
  from conjunct2 [OF inv [unfolded client_session.session_inv_def]] assms(6)
  have "client_session.down.flow_inv ended_well (sockOut l @ conn_pending (stream_script client_payload) (clientConn t, st))
      (conn_ends (stream_script client_payload) (clientConn t, st)) (HalfClosed, far s, near s)" by simp
  from client_session.down.flow_closed [OF this] assms(4,7) end_normal [OF assms(7)] ended_badly [of e]
  show ?thesis by (auto simp: clientConn_pending ended_well_def copy_result_def)
qed

text \<open>A run that ends both copies, wherever both streams end.\<close>

lemma agent_run_ends:
  assumes "sendErrs st = []" and "\<not> stream_ended st" and "sock_open t" and "sockEnd t \<noteq> None"
    and "end_of (map (map_result server_payload) (inbox st)) \<noteq> None"
  shows "\<exists>s. (tcp_step (conn_ops forward_finish))\<^sup>*\<^sup>* (session_start (serverConn peer, st) t) s \<and> upPump s = HalfClosed"
proof -
  note fresh = server_fresh [OF assms(1-3)]
  have "conn_ends (stream_script server_payload) (serverConn peer, st) \<noteq> None" "sock_ends t \<noteq> None"
    using assms(3-5) by (simp_all add: conn_ends_def stream_script_def sock_ends_def)
  from forward_session.session_completes [OF forward_session.session_inv_reach [OF fresh rtranclp.rtrancl_refl] this]
  show ?thesis unfolding tcp_step_def by blast
qed

lemma local_run_ends:
  assumes "sendErrs st = []" and "\<not> stream_ended st" and "sock_open l" and "sockEnd l \<noteq> None"
    and "end_of (stream_script client_payload st) \<noteq> None"
  shows "\<exists>s. (local_step (conn_ops conn_finish))\<^sup>*\<^sup>* (session_start l (clientConn t, st)) s \<and> downPump s = HalfClosed"
proof -
  have "\<not> sockFin l" using assms(3) by (simp add: sock_open_def)
  note fresh = client_fresh [OF assms(1-3) this]
  have "sock_ends l \<noteq> None" "conn_ends (stream_script client_payload) (clientConn t, st) \<noteq> None"
    using assms(3-5) by (simp_all add: clientConn_pending sock_ends_def)
  from client_session.session_completes [OF client_session.session_inv_reach [OF fresh rtranclp.rtrancl_refl] this]
  show ?thesis unfolding local_step_def by blast
qed

subsection \<open>Properties\<close>

text \<open>
  C33: a break of the stream is told to one end only. Whatever the request stream ends with, a break
  included, the agent's upstream copy leaves the target with all that arrived and a clean end of input
  behind it; the client's downstream copy leaves the local connection with all that arrived and ends
  it exactly when the response stream came to its own end.
\<close>

theorem break_seen_by_one_end:
  assumes "sendErrs sa = []" and "\<not> stream_ended sa" and "sock_open t" and "sockOut t = []"
    and "(tcp_step (conn_ops forward_finish))\<^sup>*\<^sup>* (session_start (serverConn peer, sa) t) a" and "upPump a = HalfClosed"
    and "sendErrs sc = []" and "\<not> stream_ended sc" and "sock_open l" and "sockOut l = []"
    and "(local_step (conn_ops conn_finish))\<^sup>*\<^sup>* (session_start l (clientConn tg, sc)) c" and "downPump c = HalfClosed"
    and "end_of (stream_script client_payload sc) = Some e"
  shows "sockOut (far a) = chunks_of (map (map_result server_payload) (inbox sa)) \<and> sockFin (far a)
    \<and> sockOut (near c) = chunks_of (stream_script client_payload sc) \<and> sockFin (near c) = (e = EOF)"
  using break_reaches_target [OF assms(1-6)] break_reaches_local [OF assms(7-13)] by simp

definition broken_request :: server_stream where
  "broken_request = \<lparr>inbox = [Inr (ReqData ''ab''), Inl (OsErr ''reset'')], outbox = [Msg RespOpened], sendErrs = []\<rparr>"

definition broken_response :: client_stream where
  "broken_response = \<lparr>inbox = [Inr (RespData ''ab''), Inl (OsErr ''reset'')], outbox = [Msg (ReqOpen ''db'')], sendErrs = []\<rparr>"

lemma break_seen_by_one_end_witness:
  "\<exists>a c. (tcp_step (conn_ops forward_finish))\<^sup>*\<^sup>* (session_start (serverConn ''p'', broken_request) demo_local) a
     \<and> (local_step (conn_ops conn_finish))\<^sup>*\<^sup>* (session_start demo_local (clientConn demo_target, broken_response)) c
     \<and> sockOut (far a) = ''ab'' \<and> sockFin (far a) \<and> sockOut (near c) = ''ab'' \<and> \<not> sockFin (near c)"
proof -
  have s: "sendErrs broken_request = []" "\<not> stream_ended broken_request"
    "sendErrs broken_response = []" "\<not> stream_ended broken_response"
    "sock_open demo_local" "sockOut demo_local = []" "sockEnd demo_local \<noteq> None"
    by (simp_all add: broken_request_def broken_response_def stream_ended_def demo_local_def sock_open_def)
  have e: "end_of (map (map_result server_payload) (inbox broken_request)) = Some (OsErr ''reset'')"
    "chunks_of (map (map_result server_payload) (inbox broken_request)) = ''ab''"
    "end_of (stream_script client_payload broken_response) = Some (OsErr ''reset'')"
    "chunks_of (stream_script client_payload broken_response) = ''ab''"
    by (simp_all add: broken_request_def broken_response_def stream_script_def map_result_def server_payload_def
        client_payload_def normalize_def)
  obtain a where a: "(tcp_step (conn_ops forward_finish))\<^sup>*\<^sup>* (session_start (serverConn ''p'', broken_request) demo_local) a"
    "upPump a = HalfClosed"
    using agent_run_ends [OF s(1,2,5,7)] e(1) by blast
  obtain c where c: "(local_step (conn_ops conn_finish))\<^sup>*\<^sup>* (session_start demo_local (clientConn demo_target, broken_response)) c"
    "downPump c = HalfClosed"
    using local_run_ends [OF s(3,4,5,7)] e(3) by blast
  from break_seen_by_one_end [OF s(1,2,5,6) a s(3,4,5,6) c e(3)] a(1) c(1) show ?thesis unfolding e by auto
qed

end
