(* ===== verification/Doors.thy ===== *)
theory Doors
  imports Tunnel
begin

text \<open>
  The calls of a client at the doors of the agent: the paths the client's stub and its WebSocket dial
  name, and the credentials they send, against the agent's routes and its token.
\<close>

subsection \<open>Requests\<close>

text \<open>
  What arrives of a call, and of an upgrade: the path and query of the URL, over the version of HTTP that
  the client's transport speaks, with the header that was set. Parsing the URL is the library's.
\<close>

definition version_of :: "http_transport \<Rightarrow> nat" where
  "version_of tr = (case tr of H1Upgrade c \<Rightarrow> 1 | _ \<Rightarrow> 2)"

definition request_to :: "nat \<Rightarrow> url \<Rightarrow> bytes option \<Rightarrow> string \<Rightarrow> request" where
  "request_to version u auth from =
     \<lparr>protoMajor = version, proto = (if version = 2 then ''HTTP/2.0'' else ''HTTP/1.1''), urlPath = uPath u,
      query = uQuery u, authorization = (case auth of None \<Rightarrow> '''' | Some h \<Rightarrow> h), reqRemote = from\<rparr>"

definition call_request :: "url \<Rightarrow> string \<Rightarrow> http_transport rpc_client \<Rightarrow> request" where
  "call_request u from c = request_to (version_of (rpcHTTP c)) u (rpcAuthorization c) from"

subsection \<open>Credentials\<close>

definition guarded :: "string \<Rightarrow> string \<Rightarrow> reply \<Rightarrow> reply" where
  "guarded required token door =
     (if required = '''' \<or> required = token then door else HttpError 401 (errors_new ''unauthorized''))"

lemma door_token:
  assumes "authorization r = (case bearer_header token of None \<Rightarrow> '''' | Some h \<Rightarrow> h)"
  shows "requireToken required handler r = guarded required token (handler r)"
  using assms
  by (auto simp: guarded_def requireToken_def bearer_header_def bearer_prefix_def trim_prefix_def has_prefix_def)

lemma door_paths:
  "mux (r\<lparr>urlPath := forward_procedure\<rparr>) = ForwardDoor" "mux (r\<lparr>urlPath := ping_procedure\<rparr>) = PingDoor"
  "mux (r\<lparr>urlPath := Path\<rparr>) = WsDoor" "mux (r\<lparr>urlPath := PingPath\<rparr>) = WsPingDoor"
proof -
  have "mux_clean Path = Path" "mux_clean PingPath = PingPath" "mux_clean forward_procedure = forward_procedure"
    "mux_clean ping_procedure = ping_procedure" "PingPath \<noteq> Path" "forward_procedure \<noteq> Path" "forward_procedure \<noteq> PingPath"
    "ping_procedure \<noteq> Path" "ping_procedure \<noteq> PingPath" "ping_procedure \<noteq> forward_procedure"
    "has_prefix forward_procedure service_path" "has_prefix ping_procedure service_path"
    by code_simp+
  then show "mux (r\<lparr>urlPath := forward_procedure\<rparr>) = ForwardDoor" "mux (r\<lparr>urlPath := ping_procedure\<rparr>) = PingDoor"
    "mux (r\<lparr>urlPath := Path\<rparr>) = WsDoor" "mux (r\<lparr>urlPath := PingPath\<rparr>) = WsPingDoor"
    by (simp_all add: mux_def tunnel_service_handler_def)
qed

lemma mux_path: "urlPath r = p \<Longrightarrow> mux r = mux (r\<lparr>urlPath := p\<rparr>)"
  by (metis request.surjective request.update_convs(3))

lemma mux_other:
  "urlPath r \<noteq> forward_procedure \<Longrightarrow> mux r \<noteq> ForwardDoor" "urlPath r \<noteq> ping_procedure \<Longrightarrow> mux r \<noteq> PingDoor"
  by (auto simp: mux_def tunnel_service_handler_def)

lemma requireHTTP2_version: "requireHTTP2 handler (request_to 2 u auth peer) = handler (request_to 2 u auth peer)"
  by (simp add: requireHTTP2_def request_to_def)

lemma newService_Inr:
  assumes "newService parse x t known onTrust = Inr svc"
  shows "\<exists>hc. svc = NewTunnelServiceClient hc (tgURL t) (bearer_header (tgToken t)) \<and> version_of hc = 2"
  using assms by (auto simp: newService_def httpClient_def version_of_def split: sum.splits if_splits)

lemma wsURL_Inr:
  assumes "wsURL parse raw path qry = Inr u"
  shows "uPath u = path \<and> uQuery u = qry"
  using assms by (auto simp: wsURL_def split: sum.splits if_splits)

subsection \<open>Properties\<close>

text \<open>
  C10: a client's calls reach the doors meant for them. Over Connect, the call of a procedure arrives at
  the door of that procedure exactly when the agent is addressed at the root of its host; the tunnel
  upgrade arrives at its door and asks for the endpoint that was named, whatever path the address has.
  The doors open exactly when the agent demands no token or the client's own; the answer is 401 otherwise.
  (The address is one without a query or a fragment: the path of the URL that the stub makes of it and
  of a procedure is the path of the address and then that of the procedure.)
\<close>

theorem calls_meet_doors:
  assumes "newService parse x t known onTrust = Inr svc"
    and "parse (trim_right (tgURL t) (CHR ''/'')) = Inr base"
    and "parse (trim_right (tgURL t) (CHR ''/'') @ forward_procedure) = Inr (base\<lparr>uPath := uPath base @ forward_procedure\<rparr>)"
    and "parse (trim_right (tgURL t) (CHR ''/'') @ ping_procedure) = Inr (base\<lparr>uPath := uPath base @ ping_procedure\<rparr>)"
    and "wsURL parse (tgURL t) Path [(EndpointParam, ep)] = Inr u"
    and "hoH2C opts \<Longrightarrow> h2c = (\<lambda>r. r)"
  shows "\<exists>uf up. parse (rpcURL (call_Forward svc)) = Inr uf \<and> parse (rpcURL (call_Ping svc)) = Inr up
    \<and> (if uPath base = '''' then
         Handler h2c opts (call_request uf peer (call_Forward svc)) = guarded (hoToken opts) (tgToken t) ForwardDoor
         \<and> Handler h2c opts (call_request up peer (call_Ping svc)) = guarded (hoToken opts) (tgToken t) PingDoor
       else Handler h2c opts (call_request uf peer (call_Forward svc)) \<noteq> ForwardDoor
         \<and> Handler h2c opts (call_request up peer (call_Ping svc)) \<noteq> PingDoor)
    \<and> Handler h2c opts (request_to 1 u (bearer_header (tgToken t)) peer) = guarded (hoToken opts) (tgToken t) WsDoor
    \<and> ws_endpoint (request_to 1 u (bearer_header (tgToken t)) peer) = (if ep = '''' then ShellEndpoint else ep)"
proof -
  obtain hc where svc: "svc = NewTunnelServiceClient hc (tgURL t) (bearer_header (tgToken t))" "version_of hc = 2"
    using newService_Inr [OF assms(1)] by blast
  have h: "Handler h2c opts r = requireHTTP2 (requireToken (hoToken opts) mux) r" for r
    using assms(6) by (cases "hoH2C opts") (simp_all add: Handler_def Let_def)
  have auth: "authorization (request_to v w (bearer_header (tgToken t)) peer)
      = (case bearer_header (tgToken t) of None \<Rightarrow> '''' | Some b \<Rightarrow> b)" for v w
    by (simp add: request_to_def)
  let ?rf = "request_to 2 (base\<lparr>uPath := uPath base @ forward_procedure\<rparr>) (bearer_header (tgToken t)) peer"
    and ?rp = "request_to 2 (base\<lparr>uPath := uPath base @ ping_procedure\<rparr>) (bearer_header (tgToken t)) peer"
    and ?rw = "request_to 1 u (bearer_header (tgToken t)) peer"
  have over2: "Handler h2c opts (request_to 2 w (bearer_header (tgToken t)) peer)
      = guarded (hoToken opts) (tgToken t) (mux (request_to 2 w (bearer_header (tgToken t)) peer))" for w
    unfolding h using door_token [OF auth] by (simp add: requireHTTP2_version)
  have f: "parse (rpcURL (call_Forward svc)) = Inr (base\<lparr>uPath := uPath base @ forward_procedure\<rparr>)"
    "call_request (base\<lparr>uPath := uPath base @ forward_procedure\<rparr>) peer (call_Forward svc) = ?rf"
    using assms(3) svc by (simp_all add: call_Forward_def NewTunnelServiceClient_def call_request_def Let_def)
  have p: "parse (rpcURL (call_Ping svc)) = Inr (base\<lparr>uPath := uPath base @ ping_procedure\<rparr>)"
    "call_request (base\<lparr>uPath := uPath base @ ping_procedure\<rparr>) peer (call_Ping svc) = ?rp"
    using assms(4) svc by (simp_all add: call_Ping_def NewTunnelServiceClient_def call_request_def Let_def)
  have ws: "Handler h2c opts ?rw = guarded (hoToken opts) (tgToken t) WsDoor"
  proof -
    have path: "urlPath ?rw = Path" using wsURL_Inr [OF assms(5)] by (simp add: request_to_def)
    have "Handler h2c opts ?rw = requireToken (hoToken opts) mux ?rw"
      unfolding h using path by (simp add: requireHTTP2_def has_prefix_iff)
    also have "\<dots> = guarded (hoToken opts) (tgToken t) (mux ?rw)" using door_token [OF auth] by simp
    also have "mux ?rw = WsDoor" using mux_path [OF path] door_paths(3) by simp
    finally show ?thesis .
  qed
  have "ws_endpoint ?rw = (if ep = '''' then ShellEndpoint else ep)"
    using wsURL_Inr [OF assms(5)] by (simp add: ws_endpoint_def request_to_def)
  moreover have "if uPath base = '''' then Handler h2c opts ?rf = guarded (hoToken opts) (tgToken t) ForwardDoor \<and> Handler h2c opts ?rp = guarded (hoToken opts) (tgToken t) PingDoor
       else Handler h2c opts ?rf \<noteq> ForwardDoor \<and> Handler h2c opts ?rp \<noteq> PingDoor"
  proof (cases "uPath base = ''''")
    case True
    then have "urlPath ?rf = forward_procedure" "urlPath ?rp = ping_procedure" by (simp_all add: request_to_def)
    from mux_path [OF this(1)] mux_path [OF this(2)] True show ?thesis by (simp add: over2 door_paths)
  next
    case False
    then have "urlPath ?rf \<noteq> forward_procedure" "urlPath ?rp \<noteq> ping_procedure" by (simp_all add: request_to_def)
    then have "mux ?rf \<noteq> ForwardDoor" "mux ?rp \<noteq> PingDoor" using mux_other by blast+
    with False show ?thesis by (simp add: over2 guarded_def)
  qed
  ultimately show ?thesis using f p ws by auto
qed

text \<open>A parser for the addresses of one host: the path is what follows the authority.\<close>

definition demo_parse :: url_parser where
  "demo_parse raw =
     Inr \<lparr>uScheme = ''https'', uHost = ''box:8443'', uHostname = ''box'', uPort = ''8443'',
       uPath = drop (length ''https://box:8443'') raw, uQuery = []\<rparr>"

lemma calls_meet_doors_witness:
  "\<exists>svc uf. newService demo_parse no_x509 demo_target None None = Inr svc
     \<and> demo_parse (rpcURL (call_Forward svc)) = Inr uf
     \<and> Handler (\<lambda>r. r) \<lparr>hoToken = ''t'', hoH2C = False\<rparr> (call_request uf ''peer'' (call_Forward svc)) = ForwardDoor
     \<and> Handler (\<lambda>r. r) \<lparr>hoToken = ''other'', hoH2C = True\<rparr> (call_request uf ''peer'' (call_Forward svc))
         = HttpError 401 (errors_new ''unauthorized'')"
proof -
  let ?base = "\<lparr>uScheme = ''https'', uHost = ''box:8443'', uHostname = ''box'', uPort = ''8443'', uPath = '''', uQuery = []\<rparr>"
  obtain svc where svc: "newService demo_parse no_x509 demo_target None None = Inr svc"
    by (simp add: newService_def httpClient_def demo_parse_def)
  have tidy: "trim_right (tgURL demo_target) (CHR ''/'') = ''https://box:8443''"
    by (simp add: demo_target_def trim_right_def)
  have base: "demo_parse (trim_right (tgURL demo_target) (CHR ''/'')) = Inr ?base"
    "demo_parse (trim_right (tgURL demo_target) (CHR ''/'') @ forward_procedure) = Inr (?base\<lparr>uPath := uPath ?base @ forward_procedure\<rparr>)"
    "demo_parse (trim_right (tgURL demo_target) (CHR ''/'') @ ping_procedure) = Inr (?base\<lparr>uPath := uPath ?base @ ping_procedure\<rparr>)"
    unfolding tidy by (simp_all add: demo_parse_def)
  obtain u where u: "wsURL demo_parse (tgURL demo_target) Path [(EndpointParam, ''db'')] = Inr u"
    by (simp add: wsURL_def demo_parse_def)
  from calls_meet_doors [OF svc base u, of "\<lparr>hoToken = ''t'', hoH2C = False\<rparr>" "\<lambda>r. r" "''peer''"]
    calls_meet_doors [OF svc base u, of "\<lparr>hoToken = ''other'', hoH2C = True\<rparr>" "\<lambda>r. r" "''peer''"] svc
  show ?thesis by (auto simp: guarded_def demo_target_def)
qed

end
