(* ===== verification/Persist.thy ===== *)
theory Persist
  imports World
begin

text \<open>
  The contract of an identity that is made once and then read back: the agent's host key and its
  certificate. \<open>get g\<close> loads what the files hold, or makes it from the entropy \<open>g\<close>; \<open>held fs x\<close>
  says that the files \<open>fs\<close> hold \<open>x\<close>; and \<open>lawful\<close> is what the library that prints and parses it has
  to satisfy.
\<close>

locale load_or_create =
  fixes get :: "'g \<Rightarrow> 'a io" and held :: "(string \<Rightarrow> (bytes \<times> nat) option) \<Rightarrow> 'a \<Rightarrow> bool" and lawful :: bool
  assumes get_held: "lawful \<Longrightarrow> get g w = (Inr x, w') \<Longrightarrow> held (files w') x"
    and held_get: "held (files w) x \<Longrightarrow> faults w = [] \<Longrightarrow> get g w = (Inr x, w)"
begin

text \<open>Once it is there every later call returns it and writes nothing, whatever it could have made.\<close>

lemma stable:
  assumes "lawful" and "get g w = (Inr x, w')" and "held (files w') x \<Longrightarrow> held (files v) x" and "faults v = []"
  shows "get h v = (Inr x, v)"
  using held_get [OF assms(3) [OF get_held [OF assms(1,2)]] assms(4)] .

text \<open>The files hold at most one.\<close>

lemma held_unique:
  assumes "held fs x" and "held fs y"
  shows "x = y"
proof -
  let ?w = "\<lparr>files = fs, dirs = Map.empty, faults = [], stdout = [], stderr = [], stdin = Inr []\<rparr>"
  from held_get [of ?w x undefined] held_get [of ?w y undefined] assms show ?thesis by simp
qed

text \<open>Two callers that succeeded one after the other have the same.\<close>

lemma agree:
  assumes "lawful" and "get g w = (Inr x, v)" and "faults v = []" and "get h v = (Inr y, v')"
  shows "y = x \<and> v' = v"
  using stable [OF assms(1,2) _ assms(3), of h] assms(4) by simp

end

end
