(* ===== verification/Tlskey.thy ===== *)
theory Tlskey
  imports Persist Sha256
begin

text \<open>
  \<^verbatim>\<open>internal/agent/tlskey.go\<close>: the agent's self-signed certificate. Making and reading
  certificates and keys (\<^verbatim>\<open>crypto/ecdsa\<close>, \<^verbatim>\<open>crypto/x509\<close>, \<^verbatim>\<open>encoding/pem\<close>) is a
  parameter; random values and the clock are arguments.
\<close>

subsection \<open>Data\<close>

text \<open>\<^verbatim>\<open>tlsValidity\<close>: ten years, in nanoseconds (a \<^verbatim>\<open>time.Duration\<close> is a 64-bit integer).\<close>

definition tlsValidity :: int where
  "tlsValidity = 10 * 365 * 24 * 3600 * 10 ^ 9"

text \<open>\<^verbatim>\<open>tls.Certificate\<close>: the chain of certificates, and a private key.\<close>

record 'p tls_cert =
  tcCertificate :: "bytes list"
  tcPrivateKey :: 'p

text \<open>The usages of a key that a certificate allows; \<^verbatim>\<open>KeyUsage\<close> is a set of bits, here the list of them.\<close>

datatype key_usage = KeyUsageDigitalSignature | KeyUsageCertSign

datatype ext_key_usage = ExtKeyUsageServerAuth

record cert_template =
  serialNumber :: nat
  commonName :: string
  notBefore :: int
  notAfter :: int
  keyUsage :: "key_usage list"
  extKeyUsage :: "ext_key_usage list"
  basicConstraintsValid :: bool
  isCA :: bool
  ipAddresses :: "bytes list"
  dnsNames :: "string list"

record 'p tls_lib =
  x509_key_pair :: "bytes \<Rightarrow> bytes \<Rightarrow> 'p tls_cert result"
  create_certificate :: "cert_template \<Rightarrow> 'p \<Rightarrow> bytes result"
  marshal_pkcs8 :: "'p \<Rightarrow> bytes result"
  parse_ip :: "string \<Rightarrow> bytes option"
  pem_encode :: "string \<Rightarrow> bytes \<Rightarrow> bytes"

text \<open>What one call draws from its surroundings: the key, the serial number and the two clock readings.\<close>

record 'p tls_entropy =
  genKey :: "'p result"
  genSerial :: "nat result"
  nowBefore :: int
  nowAfter :: int

subsection \<open>Operations\<close>

definition add_host :: "string \<Rightarrow> string list \<Rightarrow> string list" where
  "add_host h out = (if h \<noteq> '''' \<and> h \<notin> set out then out @ [h] else out)"

definition tlsHosts :: "env \<Rightarrow> string list \<Rightarrow> string list" where
  "tlsHosts env hosts =
     (let out = fold add_host hosts [];
          out = add_host ''::1'' (add_host ''127.0.0.1'' (add_host ''localhost'' out))
      in case hostname env of Inl e \<Rightarrow> out | Inr hn \<Rightarrow> add_host hn out)"

fun split_hosts :: "'p tls_lib \<Rightarrow> string list \<Rightarrow> cert_template \<Rightarrow> cert_template" where
  "split_hosts L [] t = t"
| "split_hosts L (h # hs) t =
     split_hosts L hs
       (case parse_ip L h of
          Some ip \<Rightarrow> t\<lparr>ipAddresses := ipAddresses t @ [ip]\<rparr>
        | None \<Rightarrow> t\<lparr>dnsNames := dnsNames t @ [h]\<rparr>)"

definition cert_request :: "'p tls_lib \<Rightarrow> env \<Rightarrow> 'p tls_entropy \<Rightarrow> nat \<Rightarrow> string list \<Rightarrow> cert_template" where
  "cert_request L env en serial hosts =
     split_hosts L (tlsHosts env hosts)
       \<lparr>serialNumber = serial, commonName = ''san_tunnels agent'',
        notBefore = nowBefore en - 3600 * 10 ^ 9, notAfter = nowAfter en + tlsValidity,
        keyUsage = [KeyUsageDigitalSignature, KeyUsageCertSign], extKeyUsage = [ExtKeyUsageServerAuth],
        basicConstraintsValid = True, isCA = True, ipAddresses = [], dnsNames = []\<rparr>"

text \<open>\<^verbatim>\<open>tls.LoadX509KeyPair\<close> reads the certificate, then the key.\<close>

definition LoadX509KeyPair :: "'p tls_lib \<Rightarrow> string \<Rightarrow> string \<Rightarrow> 'p tls_cert io" where
  "LoadX509KeyPair L certPath keyPath =
     io_bind (ReadFile certPath) (\<lambda>cert.
     io_bind (ReadFile keyPath) (\<lambda>key.
     io_lift (x509_key_pair L cert key)))"

text \<open>The second half of \<^verbatim>\<open>LoadOrCreateTLSCert\<close>: making a pair and writing it.\<close>

definition create_tls_cert ::
    "'p tls_lib \<Rightarrow> env \<Rightarrow> 'p tls_entropy \<Rightarrow> string \<Rightarrow> string \<Rightarrow> string list \<Rightarrow> 'p tls_cert io" where
  "create_tls_cert L env en certPath keyPath hosts =
     io_bind (wrap_err ''generate tls key: %w'' [] (io_lift (genKey en))) (\<lambda>priv.
     io_bind (wrap_err ''generate serial: %w'' [] (io_lift (genSerial en))) (\<lambda>serial.
     io_bind (wrap_err ''create certificate: %w'' []
       (io_lift (create_certificate L (cert_request L env en serial hosts) priv))) (\<lambda>der.
     io_bind (wrap_err ''marshal tls key: %w'' [] (io_lift (marshal_pkcs8 L priv))) (\<lambda>keyDER.
     io_bind (make_parent ''create dir %s: %w'' certPath) (\<lambda>_.
     io_bind (make_parent ''create dir %s: %w'' keyPath) (\<lambda>_.
     let certPEM = pem_encode L ''CERTIFICATE'' der; keyPEM = pem_encode L ''PRIVATE KEY'' keyDER in
     io_bind (wrap_err ''write certificate %s: %w'' [certPath] (WriteFile certPath certPEM mode_644)) (\<lambda>_.
     io_bind (wrap_err ''write tls key %s: %w'' [keyPath] (WriteFile keyPath keyPEM mode_600)) (\<lambda>_.
     wrap_err ''build keypair: %w'' [] (io_lift (x509_key_pair L certPEM keyPEM))))))))))"

definition LoadOrCreateTLSCert ::
    "'p tls_lib \<Rightarrow> env \<Rightarrow> 'p tls_entropy \<Rightarrow> string \<Rightarrow> string \<Rightarrow> string list \<Rightarrow> 'p tls_cert io" where
  "LoadOrCreateTLSCert L env en certPath keyPath hosts w =
     (case LoadX509KeyPair L certPath keyPath w of
        (Inr cert, w1) \<Rightarrow> (Inr cert, w1)
      | (Inl err, w1) \<Rightarrow>
          if \<not> errors_is err ErrNotExist then
            (case Stat certPath w1 of
               (Inr u, w2) \<Rightarrow> (Inl (Errorf ''load tls keypair %s / %s: %w'' [certPath, keyPath] (Some err)), w2)
             | (Inl e, w2) \<Rightarrow> create_tls_cert L env en certPath keyPath hosts w2)
          else create_tls_cert L env en certPath keyPath hosts w1)"

definition LeafFingerprint :: "'p tls_cert option \<Rightarrow> bytes result" where
  "LeafFingerprint cert =
     (case cert of
        None \<Rightarrow> Inl (errors_new ''no certificate'')
      | Some c \<Rightarrow>
          (case tcCertificate c of
             [] \<Rightarrow> Inl (errors_new ''no certificate'')
           | der # _ \<Rightarrow> Inr (CertFingerprint der)))"

subsection \<open>Lemmas\<close>

lemma tlsValidity_fits: "tlsValidity < 2 ^ 63"
  by (simp add: tlsValidity_def)

lemma fold_add_host:
  "distinct out \<Longrightarrow> '''' \<notin> set out \<Longrightarrow>
   distinct (fold add_host hs out) \<and> set (fold add_host hs out) = set out \<union> set hs - {''''}"
proof (induction hs arbitrary: out)
  case (Cons h hs)
  then have "distinct (add_host h out)" "'''' \<notin> set (add_host h out)"
    "set (add_host h out) = set out \<union> {h} - {''''}" by (auto simp: add_host_def)
  with Cons.IH [of "add_host h out"] show ?case by auto
qed auto

lemma add_host_fold: "add_host h (fold add_host hs out) = fold add_host (hs @ [h]) out"
  by simp

lemma tlsHosts_fold:
  "tlsHosts env hosts =
     fold add_host (hosts @ [''localhost'', ''127.0.0.1'', ''::1''] @ (case hostname env of Inl e \<Rightarrow> [] | Inr hn \<Rightarrow> [hn])) []"
  by (cases "hostname env") (simp_all add: tlsHosts_def)

lemma split_hosts_names:
  "dnsNames (split_hosts L hs t) = dnsNames t @ filter (\<lambda>h. parse_ip L h = None) hs"
  "ipAddresses (split_hosts L hs t) = ipAddresses t @ List.map_filter (parse_ip L) hs"
  by (induction L hs t rule: split_hosts.induct) (auto simp: map_filter_def split: option.splits)

lemma quiet_LoadX509KeyPair:
  assumes "faults w = []" and "files w certPath = Some (c, m)" and "files w keyPath = Some (k, n)"
  shows "LoadX509KeyPair L certPath keyPath w = (x509_key_pair L c k, w)"
  using assms by (simp add: LoadX509KeyPair_def io_bind_def quiet_ReadFile split: sum.splits)

lemma LoadX509KeyPair_files:
  assumes "LoadX509KeyPair L certPath keyPath w = (r, w')"
  shows "files w' = files w"
proof -
  have "keeps (\<lambda>v. files v = files w) (LoadX509KeyPair L certPath keyPath)"
    unfolding LoadX509KeyPair_def by (rule io_keeps)+
  from keepsD [OF this _ assms] show ?thesis by simp
qed

lemma LoadX509KeyPair_Inr:
  assumes "LoadX509KeyPair L certPath keyPath w = (Inr cert, w')"
  shows "\<exists>c m k n. files w certPath = Some (c, m) \<and> files w keyPath = Some (k, n)
    \<and> x509_key_pair L c k = Inr cert"
proof -
  from assms obtain c w1 k w2 where "ReadFile certPath w = (Inr c, w1)" "ReadFile keyPath w1 = (Inr k, w2)"
    "x509_key_pair L c k = Inr cert"
    by (auto simp: LoadX509KeyPair_def io_bind_Inr)
  with ReadFile_Inr [of certPath w c w1] ReadFile_files [of certPath w "Inr c" w1] ReadFile_Inr [of keyPath w1 k w2]
  show ?thesis by auto
qed

lemma create_tls_cert_Inr:
  assumes "create_tls_cert L env en certPath keyPath hosts w = (Inr cert, w')" and "certPath \<noteq> keyPath"
  shows "\<exists>c m k n. files w' certPath = Some (c, m) \<and> files w' keyPath = Some (k, n)
    \<and> x509_key_pair L c k = Inr cert"
proof -
  from assms(1) obtain c k w1 w2 where c: "WriteFile certPath c mode_644 w1 = (Inr (), w2)"
    "WriteFile keyPath k mode_600 w2 = (Inr (), w')" "x509_key_pair L c k = Inr cert"
    by (auto simp: create_tls_cert_def io_bind_Inr wrap_err_Inr Let_def)
  from WriteFile_Inr [OF c(1)] WriteFile_Inr [OF c(2)] assms(2) c(3) show ?thesis by auto
qed

text \<open>A call that succeeds, by loading or by making, leaves the pair it returns in the files.\<close>

lemma LoadOrCreateTLSCert_stored:
  assumes "LoadOrCreateTLSCert L env en certPath keyPath hosts w = (Inr cert, w')" and "certPath \<noteq> keyPath"
  shows "\<exists>c m k n. files w' certPath = Some (c, m) \<and> files w' keyPath = Some (k, n)
    \<and> x509_key_pair L c k = Inr cert"
proof -
  obtain r w1 where load: "LoadX509KeyPair L certPath keyPath w = (r, w1)" by (metis surj_pair)
  show ?thesis
  proof (cases r)
    case (Inr c)
    with load assms(1) LoadX509KeyPair_files [OF load] show ?thesis
      by (auto simp: LoadOrCreateTLSCert_def dest!: LoadX509KeyPair_Inr)
  next
    case (Inl e)
    then obtain w3 where "create_tls_cert L env en certPath keyPath hosts w3 = (Inr cert, w')"
      using load assms(1) by (auto simp: LoadOrCreateTLSCert_def split: if_splits prod.splits sum.splits)
    from create_tls_cert_Inr [OF this assms(2)] show ?thesis .
  qed
qed

definition held_pair ::
    "'p tls_lib \<Rightarrow> string \<Rightarrow> string \<Rightarrow> (string \<Rightarrow> (bytes \<times> nat) option) \<Rightarrow> 'p tls_cert \<Rightarrow> bool" where
  "held_pair L certPath keyPath fs cert \<longleftrightarrow>
     (\<exists>c m k n. fs certPath = Some (c, m) \<and> fs keyPath = Some (k, n) \<and> x509_key_pair L c k = Inr cert)"

text \<open>The certificate is an identity that is made once, if its two files are two.\<close>

interpretation tls_pair: load_or_create "\<lambda>(env, en, hosts). LoadOrCreateTLSCert L env en certPath keyPath hosts"
    "held_pair L certPath keyPath" "certPath \<noteq> keyPath" for L certPath keyPath
proof
  show "held_pair L certPath keyPath (files w') cert"
    if "certPath \<noteq> keyPath" "(\<lambda>(env, en, hosts). LoadOrCreateTLSCert L env en certPath keyPath hosts) g w = (Inr cert, w')"
    for g w cert w'
    using that LoadOrCreateTLSCert_stored by (cases g) (fastforce simp: held_pair_def)
  show "(\<lambda>(env, en, hosts). LoadOrCreateTLSCert L env en certPath keyPath hosts) g w = (Inr cert, w)"
    if "held_pair L certPath keyPath (files w) cert" "faults w = []" for g w cert
    using that by (cases g) (auto simp: held_pair_def LoadOrCreateTLSCert_def quiet_LoadX509KeyPair)
qed

text \<open>What it is for a certificate to be new: it is made with the key and the serial number just drawn, and its file holds it.\<close>

definition new_pair ::
    "'p tls_lib \<Rightarrow> env \<Rightarrow> 'p tls_entropy \<Rightarrow> string \<Rightarrow> string \<Rightarrow> string list
     \<Rightarrow> (string \<Rightarrow> (bytes \<times> nat) option) \<Rightarrow> (string \<Rightarrow> (bytes \<times> nat) option) \<Rightarrow> 'p tls_cert \<Rightarrow> bool" where
  "new_pair L env en certPath keyPath hosts fs fs' cert \<longleftrightarrow>
     (\<exists>priv serial der keyDER. genKey en = Inr priv \<and> genSerial en = Inr serial
        \<and> create_certificate L (cert_request L env en serial hosts) priv = Inr der \<and> marshal_pkcs8 L priv = Inr keyDER
        \<and> x509_key_pair L (pem_encode L ''CERTIFICATE'' der) (pem_encode L ''PRIVATE KEY'' keyDER) = Inr cert
        \<and> fs' = fs(certPath \<mapsto> (pem_encode L ''CERTIFICATE'' der, case fs certPath of None \<Rightarrow> mode_644 | Some (b, m) \<Rightarrow> m),
                   keyPath \<mapsto> (pem_encode L ''PRIVATE KEY'' keyDER, case fs keyPath of None \<Rightarrow> mode_600 | Some (b, m) \<Rightarrow> m)))"

lemma create_tls_cert_new:
  assumes "create_tls_cert L env en certPath keyPath hosts w = (Inr cert, w')" and "certPath \<noteq> keyPath"
  shows "new_pair L env en certPath keyPath hosts (files w) (files w') cert"
proof -
  from assms(1) obtain priv serial der keyDER v1 v2 v3 where lib: "genKey en = Inr priv" "genSerial en = Inr serial"
    "create_certificate L (cert_request L env en serial hosts) priv = Inr der" "marshal_pkcs8 L priv = Inr keyDER"
    "x509_key_pair L (pem_encode L ''CERTIFICATE'' der) (pem_encode L ''PRIVATE KEY'' keyDER) = Inr cert"
    and dirs: "make_parent ''create dir %s: %w'' certPath w = (Inr (), v1)" "make_parent ''create dir %s: %w'' keyPath v1 = (Inr (), v2)"
    and put: "WriteFile certPath (pem_encode L ''CERTIFICATE'' der) mode_644 v2 = (Inr (), v3)"
      "WriteFile keyPath (pem_encode L ''PRIVATE KEY'' keyDER) mode_600 v3 = (Inr (), w')"
    by (auto simp: create_tls_cert_def io_bind_Inr wrap_err_Inr Let_def)
  have "files v2 = files w" using make_parent_files [OF dirs(1)] make_parent_files [OF dirs(2)] by simp
  then have "files w' = (files w)(certPath \<mapsto> (pem_encode L ''CERTIFICATE'' der, case files w certPath of None \<Rightarrow> mode_644 | Some (b, m) \<Rightarrow> m),
      keyPath \<mapsto> (pem_encode L ''PRIVATE KEY'' keyDER, case files w keyPath of None \<Rightarrow> mode_600 | Some (b, m) \<Rightarrow> m))"
    using WriteFile_Inr [OF put(1)] WriteFile_Inr [OF put(2)] assms(2) by (simp add: file_mode_def)
  with lib show ?thesis by (auto simp: new_pair_def)
qed

text \<open>No other file is written.\<close>

lemma create_tls_cert_others:
  assumes "q \<noteq> certPath" and "q \<noteq> keyPath"
  shows "keeps (\<lambda>w. files w q = f) (create_tls_cert L env en certPath keyPath hosts)"
  unfolding create_tls_cert_def Let_def
  by (rule io_keeps keeps_WriteFile | simp add: assms)+

lemma LoadOrCreateTLSCert_others:
  assumes "LoadOrCreateTLSCert L env en certPath keyPath hosts w = (r, w')" and "q \<noteq> certPath" and "q \<noteq> keyPath"
  shows "files w' q = files w q"
proof -
  obtain l w1 where load: "LoadX509KeyPair L certPath keyPath w = (l, w1)" by (metis surj_pair)
  obtain s w2 where stat: "Stat certPath w1 = (s, w2)" by (metis surj_pair)
  have same: "files w1 = files w" "files w2 = files w"
    using LoadX509KeyPair_files [OF load] Stat_files [OF stat] by simp_all
  have make: "files w'' q = files v q" if "create_tls_cert L env en certPath keyPath hosts v = (r', w'')" for v r' w''
    using keepsD [OF create_tls_cert_others [OF assms(2,3)] refl that] .
  from assms(1) load stat same make show ?thesis
    by (auto simp: LoadOrCreateTLSCert_def split: sum.splits if_splits)
qed

subsection \<open>Properties\<close>

text \<open>
  The names of a certificate are the hosts asked for, \<open>localhost\<close>, the loopback addresses and the
  machine's name, each once and none empty; each is in the certificate either as an address or as a
  name.
\<close>

theorem tlsHosts_names:
  "distinct (tlsHosts env hosts)
    \<and> set (tlsHosts env hosts) = (set hosts \<union> {''localhost'', ''127.0.0.1'', ''::1''}
        \<union> (case hostname env of Inl e \<Rightarrow> {} | Inr hn \<Rightarrow> {hn})) - {''''}
    \<and> (let t = cert_request L env en serial hosts in
        set (dnsNames t) = {h \<in> set (tlsHosts env hosts). parse_ip L h = None}
        \<and> set (ipAddresses t) = {ip. \<exists>h. h \<in> set (tlsHosts env hosts) \<and> parse_ip L h = Some ip}
        \<and> notAfter t - notBefore t \<ge> tlsValidity + (nowAfter en - nowBefore en))"
proof -
  have "set (List.map_filter f xs) = {y. \<exists>x. x \<in> set xs \<and> f x = Some y}" for f :: "string \<Rightarrow> bytes option" and xs
    by (auto simp: map_filter_def image_def)
  moreover have "notAfter (split_hosts L hs t) = notAfter t \<and> notBefore (split_hosts L hs t) = notBefore t" for hs t
    by (induction L hs t rule: split_hosts.induct) (auto split: option.splits)
  moreover have "distinct (tlsHosts env hosts)
    \<and> set (tlsHosts env hosts) = (set hosts \<union> {''localhost'', ''127.0.0.1'', ''::1''}
        \<union> (case hostname env of Inl e \<Rightarrow> {} | Inr hn \<Rightarrow> {hn})) - {''''}"
  proof -
    let ?hs = "hosts @ [''localhost'', ''127.0.0.1'', ''::1''] @ (case hostname env of Inl e \<Rightarrow> [] | Inr hn \<Rightarrow> [hn])"
    have "set ?hs = set hosts \<union> {''localhost'', ''127.0.0.1'', ''::1''}
        \<union> (case hostname env of Inl e \<Rightarrow> {} | Inr hn \<Rightarrow> {hn})" by (cases "hostname env") auto
    with fold_add_host [of "[]" ?hs] show ?thesis
      by (simp only: tlsHosts_fold) simp
  qed
  ultimately show ?thesis
    by (simp add: cert_request_def split_hosts_names Let_def)
qed

text \<open>
  C20: the certificate is made once. A call that succeeds, by loading or by making, leaves a pair that
  every later call loads: the same certificate, so the same fingerprint, and nothing is written again,
  whatever the later call would have generated and whatever hosts it asks for.
\<close>

theorem tls_cert_stable:
  assumes "certPath \<noteq> keyPath"
    and "LoadOrCreateTLSCert L env en certPath keyPath hosts w = (Inr cert, w')"
    and "faults w2 = []" and "files w2 certPath = files w' certPath" and "files w2 keyPath = files w' keyPath"
  shows "LoadOrCreateTLSCert L env2 en2 certPath keyPath hosts2 w2 = (Inr cert, w2)"
  using tls_pair.stable [of certPath keyPath L "(env, en, hosts)" w cert w' w2 "(env2, en2, hosts2)"] assms
  by (simp add: held_pair_def)

text \<open>A library that signs by concatenation.\<close>

definition demo_tls_lib :: "bytes tls_lib" where
  "demo_tls_lib = \<lparr>x509_key_pair = (\<lambda>c k. Inr \<lparr>tcCertificate = [c], tcPrivateKey = k\<rparr>),
     create_certificate = (\<lambda>t p. Inr (''cert of '' @ p)), marshal_pkcs8 = Inr, parse_ip = (\<lambda>h. None),
     pem_encode = (\<lambda>t b. b)\<rparr>"

definition demo_env :: env where
  "demo_env = \<lparr>userConfigDir = Inr ''/cfg'', hostname = Inr ''box'', executable = Inr ''/bin/san_tunnels'',
     terminal = False\<rparr>"

definition demo_entropy :: "bytes \<Rightarrow> bytes tls_entropy" where
  "demo_entropy k = \<lparr>genKey = Inr k, genSerial = Inr 1, nowBefore = 0, nowAfter = 0\<rparr>"

definition empty_world :: world where
  "empty_world = \<lparr>files = Map.empty, dirs = Map.empty, faults = [], stdout = [], stderr = [], stdin = Inr []\<rparr>"

lemma create_demo:
  assumes "faults w = []" and "c \<noteq> k"
  shows "\<exists>w'. create_tls_cert demo_tls_lib env (demo_entropy p) c k hosts w
      = (Inr \<lparr>tcCertificate = [''cert of '' @ p], tcPrivateKey = p\<rparr>, w') \<and> faults w' = []"
proof -
  obtain w1 where w1: "make_parent ''create dir %s: %w'' c w = (Inr (), w1)" "faults w1 = []"
    using quiet_make_parent [OF assms(1)] by blast
  obtain w2 where w2: "make_parent ''create dir %s: %w'' k w1 = (Inr (), w2)" "faults w2 = []"
    using quiet_make_parent [OF w1(2)] by blast
  with w1 show ?thesis
    by (simp add: create_tls_cert_def io_bind_def wrap_err_def quiet_WriteFile Let_def demo_entropy_def demo_tls_lib_def)
qed

lemma tls_cert_stable_witness:
  "\<exists>cert w'. LoadOrCreateTLSCert demo_tls_lib demo_env (demo_entropy ''k1'') ''c'' ''k'' [] empty_world = (Inr cert, w')
    \<and> LoadOrCreateTLSCert demo_tls_lib demo_env (demo_entropy ''k2'') ''c'' ''k'' [''box''] w' = (Inr cert, w')"
proof -
  have "LoadX509KeyPair demo_tls_lib ''c'' ''k'' empty_world = (Inl ErrNotExist, empty_world)"
    by (simp add: LoadX509KeyPair_def io_bind_def quiet_ReadFile empty_world_def)
  moreover obtain cert w' where c: "create_tls_cert demo_tls_lib demo_env (demo_entropy ''k1'') ''c'' ''k'' [] empty_world
      = (Inr cert, w')" "faults w' = []"
    using create_demo [of empty_world "''c''" "''k''" demo_env "''k1''" "[]"] by (auto simp: empty_world_def)
  ultimately have l: "LoadOrCreateTLSCert demo_tls_lib demo_env (demo_entropy ''k1'') ''c'' ''k'' [] empty_world = (Inr cert, w')"
    by (simp add: LoadOrCreateTLSCert_def)
  from tls_cert_stable [OF _ l c(2) refl refl] l show ?thesis by auto
qed

text \<open>
  C36: when the certificate of an agent is replaced, with or without failures of the file system. A pair
  that loads is returned, and no file changes. A pair that does not load, for another reason than a missing
  file, is reported if \<^verbatim>\<open>Stat\<close> finds the certificate, and no file changes. Otherwise, when a file
  is missing or \<^verbatim>\<open>Stat\<close> fails, a call that succeeds has made a certificate, and its file now holds
  that one. The last part says what this means for a certificate that is there, in a file system that does
  not fail: with a key that does not belong to it, it stays and the error is returned, but when
  the key file alone is missing, it is replaced, and with it the fingerprint that clients have pinned.
\<close>

theorem tls_half_pair:
  assumes "certPath \<noteq> keyPath"
    and "LoadOrCreateTLSCert L env en certPath keyPath hosts w = (r, w')"
    and "LoadX509KeyPair L certPath keyPath w = (l, w1)" and "Stat certPath w1 = (st, w2)"
  shows "(\<forall>cert. l = Inr cert \<longrightarrow> r = Inr cert \<and> files w' = files w)
    \<and> (\<forall>e. l = Inl e \<and> \<not> errors_is e ErrNotExist \<and> st = Inr () \<longrightarrow>
        r = Inl (Errorf ''load tls keypair %s / %s: %w'' [certPath, keyPath] (Some e)) \<and> files w' = files w)
    \<and> (\<forall>e cert. l = Inl e \<and> (errors_is e ErrNotExist \<or> isl st) \<and> r = Inr cert \<longrightarrow>
        new_pair L env en certPath keyPath hosts (files w) (files w') cert)
    \<and> (\<forall>c m. faults w = [] \<and> files w certPath = Some (c, m) \<longrightarrow>
        (case files w keyPath of
           Some (k, n) \<Rightarrow> (\<forall>e. x509_key_pair L c k = Inl e \<and> \<not> errors_is e ErrNotExist \<longrightarrow>
             r = Inl (Errorf ''load tls keypair %s / %s: %w'' [certPath, keyPath] (Some e)) \<and> files w' = files w)
         | None \<Rightarrow> (\<forall>cert. r = Inr cert \<longrightarrow> new_pair L env en certPath keyPath hosts (files w) (files w') cert)))"
proof -
  have same: "files w1 = files w" "files w2 = files w"
    using LoadX509KeyPair_files [OF assms(3)] Stat_files [OF assms(4)] by simp_all
  have loads: "l = Inr cert \<Longrightarrow> r = Inr cert \<and> files w' = files w" for cert
    using assms(2,3) same by (simp add: LoadOrCreateTLSCert_def)
  have reports: "r = Inl (Errorf ''load tls keypair %s / %s: %w'' [certPath, keyPath] (Some e)) \<and> files w' = files w"
    if "l = Inl e \<and> \<not> errors_is e ErrNotExist \<and> st = Inr ()" for e
    using that assms(2,3,4) same by (simp add: LoadOrCreateTLSCert_def)
  have makes: "new_pair L env en certPath keyPath hosts (files w) (files w') cert"
    if l: "l = Inl e \<and> (errors_is e ErrNotExist \<or> isl st) \<and> r = Inr cert" for e cert
  proof -
    obtain v where "files v = files w" "create_tls_cert L env en certPath keyPath hosts v = (Inr cert, w')"
      using l assms(2,3,4) same by (cases "errors_is e ErrNotExist"; cases st) (auto simp: LoadOrCreateTLSCert_def)
    with create_tls_cert_new [OF _ assms(1)] show ?thesis by metis
  qed
  have quiet: "case files w keyPath of
           Some (k, n) \<Rightarrow> (\<forall>e. x509_key_pair L c k = Inl e \<and> \<not> errors_is e ErrNotExist \<longrightarrow>
             r = Inl (Errorf ''load tls keypair %s / %s: %w'' [certPath, keyPath] (Some e)) \<and> files w' = files w)
         | None \<Rightarrow> (\<forall>cert. r = Inr cert \<longrightarrow> new_pair L env en certPath keyPath hosts (files w) (files w') cert)"
    if q: "faults w = [] \<and> files w certPath = Some (c, m)" for c m
  proof (cases "files w keyPath")
    case None
    with q assms(3) have "l = Inl ErrNotExist" by (auto simp: LoadX509KeyPair_def io_bind_def quiet_ReadFile)
    with makes None show ?thesis by simp
  next
    case (Some f)
    moreover obtain k n where "f = (k, n)" by (metis surj_pair)
    moreover from calculation q assms(3,4) have "l = x509_key_pair L c k" "st = Inr ()"
      by (auto simp: quiet_LoadX509KeyPair Stat_def take_fault_def)
    ultimately show ?thesis using reports by auto
  qed
  from loads reports makes quiet show ?thesis by blast
qed

lemma tls_half_pair_witness:
  "\<exists>cert w'. LoadOrCreateTLSCert demo_tls_lib demo_env (demo_entropy ''k2'') ''c'' ''k'' []
      (empty_world\<lparr>files := [''c'' \<mapsto> (''cert of k1'', mode_644)]\<rparr>) = (Inr cert, w')
    \<and> files w' ''c'' = Some (''cert of k2'', mode_644)"
proof -
  let ?w = "empty_world\<lparr>files := [''c'' \<mapsto> (''cert of k1'', mode_644)]\<rparr>"
  have load: "LoadX509KeyPair demo_tls_lib ''c'' ''k'' ?w = (Inl ErrNotExist, ?w)"
    by (simp add: LoadX509KeyPair_def io_bind_def quiet_ReadFile empty_world_def)
  obtain cert w' where made: "create_tls_cert demo_tls_lib demo_env (demo_entropy ''k2'') ''c'' ''k'' [] ?w = (Inr cert, w')"
    using create_demo [of ?w "''c''" "''k''" demo_env "''k2''" "[]"] by (auto simp: empty_world_def)
  then have l: "LoadOrCreateTLSCert demo_tls_lib demo_env (demo_entropy ''k2'') ''c'' ''k'' [] ?w = (Inr cert, w')"
    using load by (simp add: LoadOrCreateTLSCert_def)
  obtain st w2 where st: "Stat ''c'' ?w = (st, w2)" by (metis surj_pair)
  have "new_pair demo_tls_lib demo_env (demo_entropy ''k2'') ''c'' ''k'' [] (files ?w) (files w') cert"
    using tls_half_pair [OF _ l load st] by (simp add: empty_world_def)
  with l show ?thesis by (auto simp: new_pair_def demo_tls_lib_def demo_entropy_def)
qed

end
