(* ===== verification/Serve.thy ===== *)
theory Serve
  imports Http Tlskey
begin

text \<open>
  \<^verbatim>\<open>Serve\<close> of \<^verbatim>\<open>internal/agent/http.go\<close>: which transport the agent serves on, with which
  certificate, and what it returns. The server of \<^verbatim>\<open>net/http\<close> is a parameter: how it ends.
\<close>

subsection \<open>Data\<close>

record 'h serve_options =
  soListen :: string
  soToken :: string
  soTLSCert :: string
  soTLSKey :: string
  soTLSAuto :: bool
  soTLSHosts :: "string list"
  soH2C :: bool
  soWSOrigins :: "string list"
  soService :: "'h service option"

text \<open>The configuration of the \<^verbatim>\<open>http.Server\<close>, and which of its \<^verbatim>\<open>Listen\<close> methods is called.\<close>

datatype 'p serve_tls =
    GeneratedTLS "'p tls_cert" "string list"
  | FileTLS string string
  | Cleartext

record ('p, 'h) http_server =
  svAddr :: string
  svHandler :: handler_options
  svService :: "'h service"
  svOrigins :: "string list"
  svReadTimeout :: nat
  svWriteTimeout :: nat
  svReadHeaderTimeout :: nat
  svTLS :: "'p serve_tls"

text \<open>How serving ends: the listener returns an error, or the context is done and the server shut down.\<close>

datatype serve_end = ListenerEnded go_error | ContextDone "go_error option"

subsection \<open>Operations\<close>

definition use_tls :: "'h serve_options \<Rightarrow> bool" where
  "use_tls opts \<longleftrightarrow> soTLSCert opts \<noteq> '''' \<and> soTLSKey opts \<noteq> ''''"

definition serve_certificate ::
    "'p tls_lib \<Rightarrow> env \<Rightarrow> 'p tls_entropy \<Rightarrow> 'h serve_options \<Rightarrow> 'p tls_cert option io" where
  "serve_certificate L env en opts =
     (if use_tls opts \<and> soTLSAuto opts then
        io_bind (LoadOrCreateTLSCert L env en (soTLSCert opts) (soTLSKey opts) (soTLSHosts opts)) (\<lambda>cert.
        io_bind (io_lift (LeafFingerprint (Some cert))) (\<lambda>fp.
        io_return (Some cert)))
      else io_return None)"

definition serve_setup ::
    "'p tls_lib \<Rightarrow> env \<Rightarrow> 'p tls_entropy \<Rightarrow> 'h serve_options \<Rightarrow> ('p, 'h) http_server io" where
  "serve_setup L env en opts w =
     (case soService opts of
        None \<Rightarrow> (Inl (errors_new ''a service is required''), w)
      | Some svc \<Rightarrow>
          if use_tls opts \<and> soH2C opts then
            (Inl (errors_new ''--h2c and --tls-cert are mutually exclusive''), w)
          else if \<not> use_tls opts \<and> \<not> soH2C opts then
            (Inl (errors_new (''no transport configured: pass --tls-cert and --tls-key, --tls-auto for a '' @
               ''self-signed certificate, or --h2c to serve cleartext behind an L4 proxy'')), w)
          else io_bind (serve_certificate L env en opts) (\<lambda>generated.
            io_return \<lparr>svAddr = soListen opts,
              svHandler = \<lparr>hoToken = soToken opts, hoH2C = soH2C opts\<rparr>, svService = svc, svOrigins = soWSOrigins opts,
              svReadTimeout = 0, svWriteTimeout = 0, svReadHeaderTimeout = 20,
              svTLS = (if use_tls opts then
                  (case generated of
                     Some c \<Rightarrow> GeneratedTLS c [''h2'', ''http/1.1'']
                   | None \<Rightarrow> FileTLS (soTLSCert opts) (soTLSKey opts))
                else Cleartext)\<rparr>) w)"

definition serve_return :: "serve_end \<Rightarrow> go_error option" where
  "serve_return x =
     (case x of
        ListenerEnded err \<Rightarrow> if errors_is err ErrServerClosed then None else Some err
      | ContextDone err \<Rightarrow> err)"

definition Serve ::
    "'p tls_lib \<Rightarrow> env \<Rightarrow> 'p tls_entropy \<Rightarrow> (('p, 'h) http_server \<Rightarrow> serve_end) \<Rightarrow> 'h serve_options \<Rightarrow> unit io" where
  "Serve L env en run opts =
     io_bind (serve_setup L env en opts) (\<lambda>sv.
     io_lift (case serve_return (run sv) of None \<Rightarrow> Inr () | Some err \<Rightarrow> Inl err))"

subsection \<open>Lemmas\<close>

lemma serve_setup_Inr:
  assumes "serve_setup L env en opts w = (Inr sv, w')"
  shows "use_tls opts \<noteq> soH2C opts"
    and "\<exists>svc g. soService opts = Some svc \<and> serve_certificate L env en opts w = (Inr g, w')
      \<and> sv = \<lparr>svAddr = soListen opts,
              svHandler = \<lparr>hoToken = soToken opts, hoH2C = soH2C opts\<rparr>, svService = svc, svOrigins = soWSOrigins opts,
              svReadTimeout = 0, svWriteTimeout = 0, svReadHeaderTimeout = 20,
              svTLS = (if use_tls opts then
                  (case g of Some c \<Rightarrow> GeneratedTLS c [''h2'', ''http/1.1''] | None \<Rightarrow> FileTLS (soTLSCert opts) (soTLSKey opts))
                else Cleartext)\<rparr>"
    and "svTLS sv = Cleartext \<longleftrightarrow> \<not> use_tls opts" and "hoToken (svHandler sv) = soToken opts"
proof -
  from assms obtain svc where svc: "soService opts = Some svc"
    by (cases "soService opts") (simp_all add: serve_setup_def)
  show xor: "use_tls opts \<noteq> soH2C opts"
    using assms svc by (cases "use_tls opts"; cases "soH2C opts") (simp_all add: serve_setup_def)
  with assms svc show ex: "\<exists>svc g. soService opts = Some svc \<and> serve_certificate L env en opts w = (Inr g, w')
      \<and> sv = \<lparr>svAddr = soListen opts,
              svHandler = \<lparr>hoToken = soToken opts, hoH2C = soH2C opts\<rparr>, svService = svc, svOrigins = soWSOrigins opts,
              svReadTimeout = 0, svWriteTimeout = 0, svReadHeaderTimeout = 20,
              svTLS = (if use_tls opts then
                  (case g of Some c \<Rightarrow> GeneratedTLS c [''h2'', ''http/1.1''] | None \<Rightarrow> FileTLS (soTLSCert opts) (soTLSKey opts))
                else Cleartext)\<rparr>"
    by (auto simp: serve_setup_def io_bind_Inr)
  from ex show "svTLS sv = Cleartext \<longleftrightarrow> \<not> use_tls opts" "hoToken (svHandler sv) = soToken opts"
    by (auto split: option.splits)
qed

subsection \<open>Properties\<close>

text \<open>
  The agent serves cleartext only when it was asked to and has no certificate, and what it serves
  over TLS with a generated certificate is a pair with a fingerprint; the handler then expects no
  cleartext upgrade. A configuration that names no transport, or both, is refused before any file is
  touched. Sessions are never cut by a read or write timeout.
\<close>

theorem Serve_transport:
  assumes "serve_setup L env en opts w = (r, w')"
  shows "case r of
      Inl e \<Rightarrow> soService opts = None \<or> use_tls opts = soH2C opts \<longrightarrow> w' = w
    | Inr sv \<Rightarrow>
        (svTLS sv = Cleartext \<longleftrightarrow> soH2C opts) \<and> (svTLS sv = Cleartext \<longleftrightarrow> \<not> use_tls opts)
        \<and> hoToken (svHandler sv) = soToken opts \<and> (hoH2C (svHandler sv) \<longleftrightarrow> svTLS sv = Cleartext)
        \<and> (\<forall>c ps. svTLS sv = GeneratedTLS c ps \<longrightarrow>
            (\<exists>fp. LeafFingerprint (Some c) = Inr fp) \<and> set ps = {''h2'', ''http/1.1''}
            \<and> LoadOrCreateTLSCert L env en (soTLSCert opts) (soTLSKey opts) (soTLSHosts opts) w = (Inr c, w'))
        \<and> svReadTimeout sv = 0 \<and> svWriteTimeout sv = 0"
proof (cases r)
  case (Inl e)
  with assms show ?thesis by (auto simp: serve_setup_def split: option.splits if_splits)
next
  case (Inr sv)
  note ready = serve_setup_Inr [OF assms [unfolded Inr]]
  note xor = ready(1)
  from ready(2) obtain svc g where g: "serve_certificate L env en opts w = (Inr g, w')"
    and sv: "sv = \<lparr>svAddr = soListen opts,
              svHandler = \<lparr>hoToken = soToken opts, hoH2C = soH2C opts\<rparr>, svService = svc, svOrigins = soWSOrigins opts,
              svReadTimeout = 0, svWriteTimeout = 0, svReadHeaderTimeout = 20,
              svTLS = (if use_tls opts then
                  (case g of Some c \<Rightarrow> GeneratedTLS c [''h2'', ''http/1.1''] | None \<Rightarrow> FileTLS (soTLSCert opts) (soTLSKey opts))
                else Cleartext)\<rparr>" by blast
  have "LoadOrCreateTLSCert L env en (soTLSCert opts) (soTLSKey opts) (soTLSHosts opts) w = (Inr c, w')
      \<and> (\<exists>fp. LeafFingerprint (Some c) = Inr fp)" if "g = Some c" for c
    using g that by (auto simp: serve_certificate_def io_bind_Inr split: if_splits)
  with Inr sv xor show ?thesis by (auto split: option.splits)
qed

definition demo_serve :: "unit serve_options" where
  "demo_serve = \<lparr>soListen = '':8443'', soToken = ''t'', soTLSCert = '''', soTLSKey = '''', soTLSAuto = False,
     soTLSHosts = [], soH2C = True, soWSOrigins = [], soService = Some demo_service\<rparr>"

lemma Serve_transport_witness:
  "\<exists>sv. serve_setup demo_tls_lib demo_env (demo_entropy ''k'') demo_serve empty_world = (Inr sv, empty_world)
    \<and> svTLS sv = Cleartext"
proof -
  obtain sv where sv: "serve_setup demo_tls_lib demo_env (demo_entropy ''k'') demo_serve empty_world = (Inr sv, empty_world)"
    by (simp add: serve_setup_def demo_serve_def use_tls_def serve_certificate_def io_bind_def)
  from Serve_transport [OF sv] sv show ?thesis by (auto simp: demo_serve_def)
qed

text \<open>
  \<^verbatim>\<open>Serve\<close> returns without an error only when the server was closed in order, or shut down
  without a failure after its context was done.
\<close>

theorem Serve_returns:
  "fst (Serve L env en run opts w) = Inr () \<longleftrightarrow>
     (\<exists>sv. fst (serve_setup L env en opts w) = Inr sv
        \<and> ((\<exists>e. run sv = ListenerEnded e \<and> errors_is e ErrServerClosed) \<or> run sv = ContextDone None))"
proof -
  obtain r w' where s: "serve_setup L env en opts w = (r, w')" by (metis surj_pair)
  show ?thesis
  proof (cases r)
    case (Inr sv)
    with s show ?thesis
      by (cases "run sv") (auto simp: Serve_def io_bind_def serve_return_def split: option.splits)
  qed (use s in \<open>simp add: Serve_def io_bind_def\<close>)
qed

end
