(* ===== verification/Keys.thy ===== *)
theory Keys
  imports Persist
begin

text \<open>
  \<^verbatim>\<open>internal/agent/keys.go\<close>: the agent's host key and its list of authorized keys. The SSH library
  (parsing and printing of keys) is a parameter; \<open>gen\<close> is the outcome of generating a key.
\<close>

subsection \<open>The host key\<close>

record ('p, 's) host_key_lib =
  parse_private :: "bytes \<Rightarrow> 's result"
  marshal_private :: "'p \<Rightarrow> bytes result"
  signer_from :: "'p \<Rightarrow> 's result"

text \<open>The second half of \<^verbatim>\<open>LoadOrCreateHostKey\<close>, when there is no file.\<close>

definition create_host_key :: "('p, 's) host_key_lib \<Rightarrow> 'p result \<Rightarrow> string \<Rightarrow> 's io" where
  "create_host_key L gen path =
     io_bind (wrap_err ''generate host key: %w'' [] (io_lift gen)) (\<lambda>priv.
     io_bind (wrap_err ''marshal host key: %w'' [] (io_lift (marshal_private L priv))) (\<lambda>block.
     io_bind (make_parent ''create key dir %s: %w'' path) (\<lambda>_.
     io_bind (wrap_err ''write host key %s: %w'' [path] (WriteFile path block mode_600)) (\<lambda>_.
     wrap_err ''build signer: %w'' [] (io_lift (signer_from L priv))))))"

definition LoadOrCreateHostKey :: "('p, 's) host_key_lib \<Rightarrow> 'p result \<Rightarrow> string \<Rightarrow> 's io" where
  "LoadOrCreateHostKey L gen path w =
     (case ReadFile path w of
        (Inr b, w') \<Rightarrow> wrap_err ''parse host key %s: %w'' [path] (io_lift (parse_private L b)) w'
      | (Inl err, w') \<Rightarrow>
          if \<not> errors_is err ErrNotExist then (Inl (Errorf ''read host key %s: %w'' [path] (Some err)), w')
          else create_host_key L gen path w')"

subsection \<open>Authorized keys\<close>

text \<open>\<open>parse_authorized\<close> is \<^verbatim>\<open>ParseAuthorizedKey\<close>: the first key of a text, and the text behind it.\<close>

record 'k key_lib =
  parse_authorized :: "bytes \<Rightarrow> ('k \<times> bytes) result"
  key_bytes :: "'k \<Rightarrow> bytes"

record 'k authorized =
  auPath :: string
  auKeys :: "'k list"

fun newline_from :: "int \<Rightarrow> bytes \<Rightarrow> int" where
  "newline_from i [] = -1"
| "newline_from i (c # b) = (if c = CHR 0x0A then i else newline_from (i + 1) b)"

definition indexNewline :: "bytes \<Rightarrow> int" where
  "indexNewline b = newline_from 0 b"

text \<open>The loop of \<^verbatim>\<open>Reload\<close>. That it ends depends on the parser, so not ending is a value.\<close>

partial_function (option) parse_keys :: "'k key_lib \<Rightarrow> 'k list \<Rightarrow> bytes \<Rightarrow> 'k list option" where
  "parse_keys L keys s =
     (if s = [] then Some keys
      else case parse_authorized L s of
          Inl err \<Rightarrow>
            (let i = indexNewline s in
             if i \<ge> 0 then parse_keys L keys (drop (nat (i + 1)) s) else Some keys)
        | Inr kr \<Rightarrow> parse_keys L (keys @ [fst kr]) (snd kr))"

definition authorized_Reload ::
    "'k key_lib \<Rightarrow> 'k authorized \<Rightarrow> world \<Rightarrow> ((unit result \<times> world) \<times> 'k authorized) option" where
  "authorized_Reload L a w =
     (case ReadFile (auPath a) w of
        (Inl err, w') \<Rightarrow>
          if errors_is err ErrNotExist then Some ((Inr (), w'), a\<lparr>auKeys := []\<rparr>)
          else Some ((Inl (Errorf ''read authorized keys %s: %w'' [auPath a] (Some err)), w'), a)
      | (Inr b, w') \<Rightarrow>
          map_option (\<lambda>keys. ((Inr (), w'), a\<lparr>auKeys := keys\<rparr>)) (parse_keys L [] b))"

definition LoadAuthorizedKeys :: "'k key_lib \<Rightarrow> string \<Rightarrow> world \<Rightarrow> ('k authorized result \<times> world) option" where
  "LoadAuthorizedKeys L path w =
     map_option (\<lambda>((r, w'), a). (case r of Inl err \<Rightarrow> Inl err | Inr u \<Rightarrow> Inr a, w'))
       (authorized_Reload L \<lparr>auPath = path, auKeys = []\<rparr> w)"

definition authorized_Has :: "'k key_lib \<Rightarrow> 'k authorized \<Rightarrow> 'k \<Rightarrow> bool" where
  "authorized_Has L a key = list_ex (\<lambda>k. key_bytes L k = key_bytes L key) (auKeys a)"

definition authorized_Len :: "'k authorized \<Rightarrow> nat" where
  "authorized_Len a = length (auKeys a)"

definition append_calls :: "string \<Rightarrow> bytes \<Rightarrow> unit io" where
  "append_calls p b =
     io_bind (make_parent ''create key dir %s: %w'' p) (\<lambda>_.
     io_bind (wrap_err ''open authorized keys %s: %w'' [p] (OpenAppend p mode_600)) (\<lambda>_.
     wrap_err ''write authorized keys: %w'' [] (WriteAppend p b)))"

definition authorized_Append ::
    "'k key_lib \<Rightarrow> 'k authorized \<Rightarrow> bytes \<Rightarrow> world \<Rightarrow> (unit result \<times> world) \<times> 'k authorized" where
  "authorized_Append L a line0 w =
     (let line = trim_space line0 in
      case parse_authorized L line of
        Inl err \<Rightarrow> ((Inl (Errorf ''not a valid authorized_keys line: %w'' [] (Some err)), w), a)
      | Inr kr \<Rightarrow>
          (case append_calls (auPath a) (line @ [CHR 0x0A]) w of
             (Inl err, w') \<Rightarrow> ((Inl err, w'), a)
           | (Inr u, w') \<Rightarrow> ((Inr (), w'), a\<lparr>auKeys := auKeys a @ [fst kr]\<rparr>)))"

subsection \<open>The format of the file\<close>

text \<open>
  What \<^verbatim>\<open>ParseAuthorizedKey\<close> documents: the file is read line by line, \<open>lk\<close> is the key on a line if
  there is one (blank lines, comments and lines it cannot read have none), and the first line with a
  key is the result, with the text behind that line.
\<close>

function first_key :: "(bytes \<Rightarrow> 'k option) \<Rightarrow> bytes \<Rightarrow> ('k \<times> bytes) option" where
  "first_key lk s =
     (case cut s (CHR 0x0A) of
        None \<Rightarrow> map_option (\<lambda>k. (k, [])) (lk s)
      | Some (l, r) \<Rightarrow> (case lk l of Some k \<Rightarrow> Some (k, r) | None \<Rightarrow> first_key lk r))"
  by auto
termination
  by (relation "measure (\<lambda>(lk, s). length s)") (auto dest!: cut_Some_dest)

declare first_key.simps [simp del]

definition line_format :: "'k key_lib \<Rightarrow> (bytes \<Rightarrow> 'k option) \<Rightarrow> bool" where
  "line_format L lk \<longleftrightarrow> lk [] = None
     \<and> (\<forall>s. case parse_authorized L s of Inl e \<Rightarrow> first_key lk s = None | Inr kr \<Rightarrow> first_key lk s = Some kr)"

fun split_lines :: "bytes \<Rightarrow> bytes list" where
  "split_lines [] = [[]]"
| "split_lines (c # s) =
     (if c = CHR 0x0A then [] # split_lines s
      else case split_lines s of [] \<Rightarrow> [[c]] | l # ls \<Rightarrow> (c # l) # ls)"

definition file_keys :: "(bytes \<Rightarrow> 'k option) \<Rightarrow> bytes \<Rightarrow> 'k list" where
  "file_keys lk s = List.map_filter lk (split_lines s)"

subsection \<open>Lemmas\<close>

lemma split_lines_nonempty [simp]: "split_lines s \<noteq> []"
  by (cases s) (auto split: list.splits)

lemma split_lines_append: "split_lines (a @ CHR 0x0A # b) = split_lines a @ split_lines b"
  by (induction a) (auto simp: append_eq_Cons_conv split: list.splits)

lemma split_lines_one: "CHR 0x0A \<notin> set a \<Longrightarrow> split_lines a = [a]"
  by (induction a) auto

lemma file_keys_append: "file_keys lk (a @ CHR 0x0A # b) = file_keys lk a @ file_keys lk b"
  by (simp add: file_keys_def split_lines_append map_filter_def)

lemma file_keys_line: "CHR 0x0A \<notin> set a \<Longrightarrow> file_keys lk a = (case lk a of None \<Rightarrow> [] | Some k \<Rightarrow> [k])"
  by (simp add: file_keys_def split_lines_one map_filter_def split: option.splits)

text \<open>A last line that is completed behind complete lines.\<close>

lemma file_keys_completed:
  assumes "lk [] = None" and "p = [] \<or> last p = CHR 0x0A" and "CHR 0x0A \<notin> set l"
  shows "file_keys lk (p @ l @ [CHR 0x0A]) = file_keys lk p @ (case lk l of None \<Rightarrow> [] | Some k \<Rightarrow> [k])"
proof -
  have line: "file_keys lk (l @ [CHR 0x0A]) = (case lk l of None \<Rightarrow> [] | Some k \<Rightarrow> [k])"
    using file_keys_append [of lk l "[]"] assms(1,3) by (simp add: file_keys_line)
  show ?thesis
  proof (cases "p = []")
    case True
    with line assms(1) show ?thesis by (simp add: file_keys_line)
  next
    case False
    with assms(2) obtain c where "p = c @ [CHR 0x0A]" by (metis append_butlast_last_id)
    with line assms(1) file_keys_append [of lk c "l @ [CHR 0x0A]"] file_keys_append [of lk c "[]"]
    show ?thesis by (simp add: file_keys_line)
  qed
qed

lemma first_key_file_keys:
  "case first_key lk s of None \<Rightarrow> file_keys lk s = []
    | Some (k, r) \<Rightarrow> (lk [] = None \<longrightarrow> file_keys lk s = k # file_keys lk r) \<and> length r \<le> length s \<and> (s \<noteq> [] \<longrightarrow> length r < length s)"
proof (induction lk s rule: first_key.induct)
  case (1 lk s)
  show ?case
  proof (cases "cut s (CHR 0x0A)")
    case None
    then have "CHR 0x0A \<notin> set s" by (simp add: cut_None)
    with None show ?thesis
      by (subst first_key.simps) (auto simp: file_keys_line split: option.splits)
  next
    case (Some lr)
    then obtain l r where lr: "cut s (CHR 0x0A) = Some (l, r)" by (cases lr) auto
    then have s: "s = l @ CHR 0x0A # r" and l: "CHR 0x0A \<notin> set l" using cut_Some_dest by auto
    show ?thesis
    proof (cases "lk l")
      case None
      with 1 [OF lr refl None] lr l show ?thesis
        by (subst first_key.simps) (auto simp: s file_keys_append file_keys_line split: option.splits)
    next
      case (Some k)
      with lr l show ?thesis
        by (subst first_key.simps) (simp add: s file_keys_append file_keys_line)
    qed
  qed
qed


lemma newline_from_range: "newline_from i b = -1 \<or> i \<le> newline_from i b"
  by (induction i b rule: newline_from.induct) auto

lemma newline_from_line: "0 \<le> i \<Longrightarrow> newline_from i s \<noteq> -1 \<Longrightarrow>
   \<exists>l. s = l @ CHR 0x0A # drop (nat (newline_from i s + 1 - i)) s"
proof (induction i s rule: newline_from.induct)
  case (2 i c b)
  show ?case
  proof (cases "c = CHR 0x0A")
    case False
    with 2 obtain l where l: "b = l @ CHR 0x0A # drop (nat (newline_from (i + 1) b + 1 - (i + 1))) b" by auto
    have "i + 1 \<le> newline_from (i + 1) b" using newline_from_range [of "i + 1" b] 2(3) False by simp
    then have "nat (newline_from (i + 1) b + 1 - i) = Suc (nat (newline_from (i + 1) b + 1 - (i + 1)))" by simp
    with l False show ?thesis by (auto intro: exI [of _ "c # l"])
  qed auto
qed simp

lemma indexNewline_line:
  "indexNewline s \<ge> 0 \<Longrightarrow> \<exists>l. s = l @ CHR 0x0A # drop (nat (indexNewline s + 1)) s"
  using newline_from_line [of 0 s] by (auto simp: indexNewline_def)

lemma line_formatD:
  assumes "line_format L lk"
  shows "lk [] = None" and "parse_authorized L s = Inl e \<Longrightarrow> first_key lk s = None"
    and "parse_authorized L s = Inr kr \<Longrightarrow> first_key lk s = Some kr"
proof -
  have "case parse_authorized L s of Inl e \<Rightarrow> first_key lk s = None | Inr kr \<Rightarrow> first_key lk s = Some kr"
    using assms by (simp only: line_format_def)
  then show "parse_authorized L s = Inl e \<Longrightarrow> first_key lk s = None"
    and "parse_authorized L s = Inr kr \<Longrightarrow> first_key lk s = Some kr" by simp_all
qed (use assms in \<open>simp only: line_format_def\<close>)

text \<open>The loop reads the file line by line.\<close>

lemma parse_keys_lines:
  assumes "line_format L lk"
  shows "parse_keys L keys s = Some (keys @ file_keys lk s)"
proof (induction s arbitrary: keys rule: measure_induct_rule [of length])
  case (less s)
  have nil: "lk [] = None" using assms by (simp add: line_format_def)
  show ?case
  proof (cases "s = []")
    case True
    then show ?thesis using nil by (subst parse_keys.simps) (simp add: file_keys_line)
  next
    case False
    show ?thesis
    proof (cases "parse_authorized L s")
      case (Inl e)
      then have "first_key lk s = None" by (rule line_formatD(2) [OF assms])
      then have none: "file_keys lk s = []" using first_key_file_keys [of lk s] by simp
      show ?thesis
      proof (cases "indexNewline s \<ge> 0")
        case True
        obtain l r where r: "drop (nat (indexNewline s + 1)) s = r" and l: "s = l @ CHR 0x0A # r"
          using indexNewline_line [OF True] by blast
        then have "length r < length s" by simp
        moreover have "file_keys lk r = []" using none by (simp add: l file_keys_append)
        ultimately have "parse_keys L keys r = Some keys" using less.IH [of r keys] by simp
        with False Inl True none r show ?thesis
          by (subst parse_keys.simps) (simp add: Let_def)
      qed (use False Inl none in \<open>subst parse_keys.simps, simp add: Let_def\<close>)
    next
      case (Inr kr)
      then have "first_key lk s = Some kr" by (rule line_formatD(3) [OF assms])
      then have "file_keys lk s = fst kr # file_keys lk (snd kr)" "length (snd kr) < length s"
        using first_key_file_keys [of lk s] nil False by (auto split: prod.splits)
      with False Inr less.IH [of "snd kr" "keys @ [fst kr]"] show ?thesis
        by (subst parse_keys.simps) simp
    qed
  qed
qed

lemma quiet_append_calls:
  assumes "faults w = []"
  shows "\<exists>w'. append_calls p b w = (Inr (), w') \<and> faults w' = []
    \<and> files w' = (files w)(p \<mapsto> ((case files w p of None \<Rightarrow> [] | Some (c, m) \<Rightarrow> c) @ b, file_mode w p mode_600))"
proof -
  obtain w1 where w1: "make_parent ''create key dir %s: %w'' p w = (Inr (), w1)" "faults w1 = []" "files w1 = files w"
    using quiet_make_parent [OF assms] by blast
  then show ?thesis
    by (cases "files w p")
      (auto simp: append_calls_def io_bind_def wrap_err_def OpenAppend_def WriteAppend_def take_fault_def
        append_file_def file_mode_def fun_eq_iff)
qed

lemma append_calls_Inr:
  assumes "append_calls p b w = (Inr (), w')"
  shows "files w' = (files w)(p \<mapsto> ((case files w p of None \<Rightarrow> [] | Some (c, m) \<Rightarrow> c) @ b, file_mode w p mode_600))"
proof -
  from assms obtain w1 w2 where c: "make_parent ''create key dir %s: %w'' p w = (Inr (), w1)"
    "OpenAppend p mode_600 w1 = (Inr (), w2)" "WriteAppend p b w2 = (Inr (), w')"
    by (auto simp: append_calls_def io_bind_Inr wrap_err_Inr)
  from make_parent_files [OF c(1)] c(2,3) show ?thesis
    by (cases "files w p")
      (auto simp: OpenAppend_def WriteAppend_def take_fault_def append_file_def put_file_def file_mode_def fun_eq_iff
        split: list.splits fault.splits if_splits)
qed

lemma Reload_lines:
  assumes "line_format L lk" and "faults w = []" and "files w (auPath a) = Some (b, m)"
  shows "authorized_Reload L a w = Some ((Inr (), w), a\<lparr>auKeys := file_keys lk b\<rparr>)"
  using assms by (simp add: authorized_Reload_def quiet_ReadFile parse_keys_lines)

text \<open>The host key is an identity that is made once, if the library reads back the keys it prints.\<close>

definition reads_back :: "('p, 's) host_key_lib \<Rightarrow> bool" where
  "reads_back L \<longleftrightarrow> (\<forall>p b. marshal_private L p = Inr b \<longrightarrow> parse_private L b = signer_from L p)"

definition held_signer :: "('p, 's) host_key_lib \<Rightarrow> string \<Rightarrow> (string \<Rightarrow> (bytes \<times> nat) option) \<Rightarrow> 's \<Rightarrow> bool" where
  "held_signer L path fs s \<longleftrightarrow> (\<exists>b m. fs path = Some (b, m) \<and> parse_private L b = Inr s)"

lemma ReadFile_absent: "ReadFile p w = (Inl e, w') \<Longrightarrow> errors_is e ErrNotExist \<Longrightarrow> files w p = None"
  by (auto simp: ReadFile_def take_fault_def split: list.splits fault.splits option.splits)

lemma LoadOrCreateHostKey_cases:
  assumes "LoadOrCreateHostKey L gen path w = (r, w')"
  obtains (loaded) b m where "files w path = Some (b, m)" and "files w' = files w"
      and "\<And>s. r = Inr s \<Longrightarrow> parse_private L b = Inr s"
    | (failed) e where "r = Inl e" and "files w' = files w"
    | (made) w1 where "files w path = None" and "files w1 = files w" and "create_host_key L gen path w1 = (r, w')"
proof -
  obtain rd w1 where rd: "ReadFile path w = (rd, w1)" by (metis surj_pair)
  then have f1: "files w1 = files w" by (rule ReadFile_files [THEN conjunct1])
  show thesis
  proof (cases rd)
    case (Inr b)
    with rd obtain m where m: "files w path = Some (b, m)" using ReadFile_Inr by blast
    from Inr rd assms have "wrap_err ''parse host key %s: %w'' [path] (io_lift (parse_private L b)) w1 = (r, w')"
      by (simp add: LoadOrCreateHostKey_def)
    then have "w' = w1" "r = Inr s \<Longrightarrow> parse_private L b = Inr s" for s
      by (auto simp: wrap_err_def io_lift_def split: sum.splits)
    with m f1 show thesis by (intro loaded) simp_all
  next
    case (Inl e)
    with rd assms f1 failed made ReadFile_absent [of path w e w1] show thesis
      by (cases "errors_is e ErrNotExist") (auto simp: LoadOrCreateHostKey_def)
  qed
qed

interpretation host_key: load_or_create "\<lambda>gen. LoadOrCreateHostKey L gen path" "held_signer L path" "reads_back L" for L path
proof
  show "held_signer L path (files w') s"
    if law: "reads_back L" and get: "LoadOrCreateHostKey L gen path w = (Inr s, w')" for gen w s w'
    using get
  proof (cases rule: LoadOrCreateHostKey_cases)
    case (loaded b m)
    then show ?thesis by (auto simp: held_signer_def)
  next
    case (made w1)
    then obtain priv b w3 where p: "marshal_private L priv = Inr b" "signer_from L priv = Inr s"
        and "WriteFile path b mode_600 w3 = (Inr (), w')"
      by (auto simp: create_host_key_def io_bind_Inr wrap_err_Inr)
    from WriteFile_Inr [OF this(3)] p law show ?thesis by (auto simp: held_signer_def reads_back_def)
  qed simp
  show "LoadOrCreateHostKey L gen path w = (Inr s, w)"
    if "held_signer L path (files w) s" "faults w = []" for w s gen
    using that by (auto simp: held_signer_def LoadOrCreateHostKey_def quiet_ReadFile wrap_err_def)
qed

text \<open>A file that is there is not written; one that is made is the user's alone.\<close>

lemma host_key_kept:
  assumes "LoadOrCreateHostKey L gen path w = (r, w')"
  shows "files w path \<noteq> None \<longrightarrow> files w' = files w"
  using assms by (cases rule: LoadOrCreateHostKey_cases) simp_all

lemma host_key_mode:
  assumes "LoadOrCreateHostKey L gen path w = (r, w')"
  shows "files w path = None \<longrightarrow> (\<forall>b m. files w' path = Some (b, m) \<longrightarrow> m = mode_600)"
  using assms
proof (cases rule: LoadOrCreateHostKey_cases)
  case (made w1)
  let ?Q = "\<lambda>fs. case fs path of None \<Rightarrow> True | Some (b :: bytes, m) \<Rightarrow> m = mode_600"
  have wf: "keeps (\<lambda>w. ?Q (files w)) (WriteFile path b mode_600)" for b
    by (rule keeps_WriteFile) (auto split: option.splits)
  have "keeps (\<lambda>w. ?Q (files w)) (create_host_key L gen path)"
    unfolding create_host_key_def by (rule io_keeps wf)+
  from keepsD [OF this _ made(3)] made(1,2) have "?Q (files w')" by simp
  then show ?thesis by auto
qed simp_all

subsection \<open>Properties\<close>

text \<open>
  C19: the host key is generated once. A file that is there is never written, whatever fails and
  whatever it holds. After a successful call, every later one that can read the file returns the same
  signer, whatever key it could have generated instead. A file that is made has the mode 0600. (The
  hypothesis is that the library reads back the keys it prints.)
\<close>

theorem host_key_stable:
  assumes "\<And>p b. marshal_private L p = Inr b \<Longrightarrow> parse_private L b = signer_from L p"
    and "LoadOrCreateHostKey L gen path w = (r, w')"
  shows "(files w path \<noteq> None \<longrightarrow> files w' = files w)
    \<and> (files w path = None \<longrightarrow> (\<forall>b m. files w' path = Some (b, m) \<longrightarrow> m = mode_600))
    \<and> (\<forall>s gen2 w2. r = Inr s \<longrightarrow> files w2 path = files w' path \<longrightarrow> faults w2 = [] \<longrightarrow>
         LoadOrCreateHostKey L gen2 path w2 = (Inr s, w2))"
proof -
  have "LoadOrCreateHostKey L gen2 path w2 = (Inr s, w2)"
    if "r = Inr s" "files w2 path = files w' path" "faults w2 = []" for s gen2 w2
  proof (rule host_key.stable)
    show "reads_back L" using assms(1) by (simp add: reads_back_def)
    show "LoadOrCreateHostKey L gen path w = (Inr s, w')" using assms(2) that(1) by simp
  qed (use that in \<open>simp_all add: held_signer_def\<close>)
  with host_key_kept [OF assms(2)] host_key_mode [OF assms(2)] show ?thesis by blast
qed

definition demo_host_key_lib :: "(bytes, bytes) host_key_lib" where
  "demo_host_key_lib = \<lparr>parse_private = Inr, marshal_private = Inr, signer_from = Inr\<rparr>"

lemma host_key_stable_witness:
  "\<exists>w'. LoadOrCreateHostKey demo_host_key_lib (Inr ''k1'') ''h'' \<lparr>files = Map.empty, dirs = Map.empty, faults = [],
        stdout = [], stderr = [], stdin = Inr []\<rparr> = (Inr ''k1'', w')
     \<and> LoadOrCreateHostKey demo_host_key_lib (Inr ''k2'') ''h'' w' = (Inr ''k1'', w')"
proof -
  let ?w = "\<lparr>files = Map.empty, dirs = Map.empty, faults = [], stdout = [], stderr = [], stdin = Inr []\<rparr> :: world"
  obtain w1 where w1: "make_parent ''create key dir %s: %w'' ''h'' ?w = (Inr (), w1)" "faults w1 = []"
    using quiet_make_parent [of ?w] by auto
  then have r: "LoadOrCreateHostKey demo_host_key_lib (Inr ''k1'') ''h'' ?w = (Inr ''k1'', put_file ''h'' ''k1'' mode_600 w1)"
    by (simp add: LoadOrCreateHostKey_def quiet_ReadFile demo_host_key_lib_def io_bind_def wrap_err_def quiet_WriteFile
        create_host_key_def)
  have "parse_private demo_host_key_lib b = signer_from demo_host_key_lib p" if "marshal_private demo_host_key_lib p = Inr b" for p b
    using that by (simp add: demo_host_key_lib_def)
  from host_key_stable [OF this r] r w1 show ?thesis by auto
qed

text \<open>
  C16: a key is accepted exactly when some line of the agent's own file holds a key of the same bytes;
  with no file nobody is. Loading the list writes nothing.
\<close>

theorem authorized_only:
  assumes "line_format L lk" and "LoadAuthorizedKeys L path w = Some (Inr a, w')"
  shows "(authorized_Has L a key \<longleftrightarrow>
      (\<exists>b m k. files w path = Some (b, m) \<and> k \<in> set (file_keys lk b) \<and> key_bytes L k = key_bytes L key))
    \<and> files w' = files w"
proof -
  obtain rd w1 where rd: "ReadFile path w = (rd, w1)" by (metis surj_pair)
  then have f1: "files w1 = files w" by (rule ReadFile_files [THEN conjunct1])
  show ?thesis
  proof (cases rd)
    case (Inl e)
    with rd assms(2) have "errors_is e ErrNotExist" and a: "auKeys a = []" "w' = w1"
      by (auto simp: LoadAuthorizedKeys_def authorized_Reload_def split: if_splits)
    with Inl rd have "files w path = None"
      by (auto simp: ReadFile_def take_fault_def split: list.splits fault.splits option.splits)
    with a f1 show ?thesis by (simp add: authorized_Has_def)
  next
    case (Inr b)
    with rd assms have "auKeys a = file_keys lk b" "w' = w1"
      by (auto simp: LoadAuthorizedKeys_def authorized_Reload_def parse_keys_lines)
    moreover obtain m where "files w path = Some (b, m)" using Inr rd ReadFile_Inr by blast
    ultimately show ?thesis using f1 by (auto simp: authorized_Has_def list_ex_iff)
  qed
qed

text \<open>A library whose keys are the lines that start with a key type.\<close>

definition demo_line_key :: "bytes \<Rightarrow> bytes option" where
  "demo_line_key l = (if has_prefix l ''ssh-'' then Some l else None)"

definition demo_key_lib :: "bytes key_lib" where
  "demo_key_lib = \<lparr>parse_authorized = (\<lambda>s. case first_key demo_line_key s of
       None \<Rightarrow> Inl (OsErr ''ssh: no key found'') | Some kr \<Rightarrow> Inr kr), key_bytes = (\<lambda>k. k)\<rparr>"

lemma demo_line_format: "line_format demo_key_lib demo_line_key"
proof -
  have "case parse_authorized demo_key_lib s of Inl e \<Rightarrow> first_key demo_line_key s = None
      | Inr kr \<Rightarrow> first_key demo_line_key s = Some kr" for s
    by (cases "first_key demo_line_key s") (simp_all add: demo_key_lib_def)
  then show ?thesis by (simp only: line_format_def) (simp add: demo_line_key_def has_prefix_def)
qed

definition keys_world :: "bytes \<Rightarrow> world" where
  "keys_world b = \<lparr>files = [''keys'' \<mapsto> (b, mode_600)], dirs = Map.empty, faults = [], stdout = [], stderr = [],
     stdin = Inr []\<rparr>"

lemma authorized_only_witness:
  "\<exists>a w'. LoadAuthorizedKeys demo_key_lib ''keys'' (keys_world ''ssh-a'') = Some (Inr a, w')
    \<and> authorized_Has demo_key_lib a ''ssh-a'' \<and> \<not> authorized_Has demo_key_lib a ''ssh-b''"
proof -
  have "file_keys demo_line_key ''ssh-a'' = [''ssh-a'']"
    by (simp add: file_keys_line demo_line_key_def has_prefix_def)
  moreover from this have l: "LoadAuthorizedKeys demo_key_lib ''keys'' (keys_world ''ssh-a'')
      = Some (Inr \<lparr>auPath = ''keys'', auKeys = [''ssh-a'']\<rparr>, keys_world ''ssh-a'')"
    by (simp add: LoadAuthorizedKeys_def authorized_Reload_def keys_world_def quiet_ReadFile
        parse_keys_lines [OF demo_line_format])
  ultimately show ?thesis
    using authorized_only [OF demo_line_format l, of "''ssh-a''"] authorized_only [OF demo_line_format l, of "''ssh-b''"]
    by (simp add: keys_world_def demo_key_lib_def)
qed

text \<open>
  C39: \<^verbatim>\<open>Reload\<close> returns, on every file and whatever the lines in it are, if the parser consumes
  something for every key it finds. When it reports an error the keys in force stay what they were.
\<close>

theorem Reload_terminates:
  assumes "\<And>s k r. parse_authorized L s = Inr (k, r) \<Longrightarrow> s \<noteq> [] \<Longrightarrow> length r < length s"
  shows "\<exists>res w' a'. authorized_Reload L a w = Some ((res, w'), a') \<and> (isl res \<longrightarrow> a' = a)
    \<and> auPath a' = auPath a"
proof -
  have "\<exists>keys'. parse_keys L keys s = Some keys'" for keys s
  proof (induction s arbitrary: keys rule: measure_induct_rule [of length])
    case (less s)
    show ?case
    proof (cases "s = []")
      case False
      show ?thesis
      proof (cases "parse_authorized L s")
        case (Inl e)
        show ?thesis
        proof (cases "indexNewline s \<ge> 0")
          case True
          then have "length (drop (nat (indexNewline s + 1)) s) < length s" using False by simp
          then obtain keys' where "parse_keys L keys (drop (nat (indexNewline s + 1)) s) = Some keys'"
            using less.IH by blast
          with Inl True False show ?thesis by (subst parse_keys.simps) (simp add: Let_def)
        qed (use Inl False in \<open>subst parse_keys.simps, simp add: Let_def\<close>)
      next
        case (Inr kr)
        then have "length (snd kr) < length s" using assms [of s "fst kr" "snd kr"] False by simp
        then obtain keys' where "parse_keys L (keys @ [fst kr]) (snd kr) = Some keys'" using less.IH by blast
        with Inr False show ?thesis by (subst parse_keys.simps) simp
      qed
    qed (subst parse_keys.simps, simp)
  qed
  then have parsed: "\<exists>keys'. parse_keys L [] b = Some keys'" for b by blast
  obtain rd w1 where "ReadFile (auPath a) w = (rd, w1)" by (metis surj_pair)
  then show ?thesis
  proof (cases rd)
    case (Inr b)
    with \<open>ReadFile (auPath a) w = (rd, w1)\<close> parsed [of b] show ?thesis by (auto simp: authorized_Reload_def)
  qed (auto simp: authorized_Reload_def)
qed

lemma Reload_terminates_witness:
  "\<exists>res w' a'. authorized_Reload demo_key_lib \<lparr>auPath = ''keys'', auKeys = []\<rparr> (keys_world ''junk'') = Some ((res, w'), a')"
proof -
  have "length r < length s" if "parse_authorized demo_key_lib s = Inr (k, r)" "s \<noteq> []" for s k r
    using line_formatD(3) [OF demo_line_format that(1)] first_key_file_keys [of demo_line_key s] that(2) by simp
  then have "\<exists>res w' a'. authorized_Reload demo_key_lib a w = Some ((res, w'), a') \<and> (isl res \<longrightarrow> a' = a)
      \<and> auPath a' = auPath a" for a :: "bytes authorized" and w by (rule Reload_terminates)
  then show ?thesis by blast
qed

text \<open>
  C15: what authorizing a key does, with and without failures of the file system. A line without a key is
  refused, and nothing is touched; a failure leaves the list in memory as it was; and \<^verbatim>\<open>Append\<close>
  fails only when the file system does. When it reports success, the list has grown by the key \<open>k\<close>, and the
  file by the line, whatever was in it: \<open>p\<close> are its complete lines and \<open>tail\<close> what stands behind the
  last newline. Whoever reads the file then finds the keys of the complete lines and the one of the last line with
  the new line run into it. So in a file that is new, empty or ends with a newline (\<open>tail\<close> is empty)
  the new key follows the old ones, and is found by every later \<^verbatim>\<open>Reload\<close>; in any other it is found
  only if that joint line holds it.
\<close>

theorem Append_grants:
  assumes "line_format L lk" and "CHR 0x0A \<notin> set (trim_space line)"
    and "(case files w (auPath a) of None \<Rightarrow> [] | Some (b, m) \<Rightarrow> b) = p @ tail"
    and "p = [] \<or> last p = CHR 0x0A" and "CHR 0x0A \<notin> set tail"
    and "authorized_Append L a line w = ((r, w'), a')"
  shows "(case lk (trim_space line) of
      None \<Rightarrow> isl r \<and> w' = w \<and> a' = a
    | Some k \<Rightarrow> (isl r \<longrightarrow> a' = a) \<and> (faults w = [] \<longrightarrow> r = Inr ())
        \<and> (r = Inr () \<longrightarrow> a' = a\<lparr>auKeys := auKeys a @ [k]\<rparr>
            \<and> (let found = file_keys lk p @ (case lk (tail @ trim_space line) of None \<Rightarrow> [] | Some k' \<Rightarrow> [k']) in
                map_option fst (files w' (auPath a)) = Some (p @ tail @ trim_space line @ [CHR 0x0A])
                \<and> (\<forall>w2. faults w2 = [] \<and> files w2 (auPath a) = files w' (auPath a) \<longrightarrow>
                    authorized_Reload L a' w2 = Some ((Inr (), w2), a'\<lparr>auKeys := found\<rparr>))
                \<and> (tail = [] \<longrightarrow> found = file_keys lk (p @ tail) @ [k]))))"
proof (cases "lk (trim_space line)")
  case None
  have "first_key lk (trim_space line) = None"
    using None assms(2) by (simp add: first_key.simps [of lk "trim_space line"] cut_None [THEN iffD2])
  then have "parse_authorized L (trim_space line) \<noteq> Inr kr" for kr
    using line_formatD(2) [OF assms(1), of "trim_space line"] line_formatD(3) [OF assms(1), of "trim_space line" kr] by auto
  then obtain e where "parse_authorized L (trim_space line) = Inl e" by (metis sumE)
  with assms(6) None show ?thesis by (auto simp: authorized_Append_def Let_def)
next
  case (Some k)
  let ?l = "trim_space line"
  let ?found = "file_keys lk p @ (case lk (tail @ ?l) of None \<Rightarrow> [] | Some k' \<Rightarrow> [k'])"
  have nil: "lk [] = None" by (rule line_formatD(1) [OF assms(1)])
  have "first_key lk ?l = Some (k, [])"
    using Some assms(2) by (simp add: first_key.simps [of lk ?l] cut_None [THEN iffD2])
  then obtain kr where kr: "parse_authorized L ?l = Inr kr" "fst kr = k"
    using line_formatD(2,3) [OF assms(1), of ?l] by (cases "parse_authorized L ?l") auto
  obtain q w1 where q: "append_calls (auPath a) (?l @ [CHR 0x0A]) w = (q, w1)" by (metis surj_pair)
  have out: "r = q \<and> w' = w1 \<and> (isl r \<longrightarrow> a' = a) \<and> (r = Inr () \<longrightarrow> a' = a\<lparr>auKeys := auKeys a @ [k]\<rparr>)"
    using kr q assms(6) by (cases q) (auto simp: authorized_Append_def Let_def)
  have quiet: "faults w = [] \<longrightarrow> r = Inr ()" using quiet_append_calls out q by (metis fst_conv)
  have found: "file_keys lk (p @ tail @ ?l @ [CHR 0x0A]) = ?found"
    using file_keys_completed [where lk = lk and p = p and l = "tail @ ?l"] nil assms(2,4,5) by simp
  have ended: "file_keys lk p @ (case lk ([] @ ?l) of None \<Rightarrow> [] | Some k' \<Rightarrow> [k']) = file_keys lk (p @ []) @ [k]"
    using Some by simp
  have written: "map_option fst (files w' (auPath a)) = Some (p @ tail @ ?l @ [CHR 0x0A])" if "r = Inr ()"
    using append_calls_Inr [of "auPath a" "?l @ [CHR 0x0A]" w w1] q out that assms(3) by simp
  have reads: "authorized_Reload L a' w2 = Some ((Inr (), w2), a'\<lparr>auKeys := ?found\<rparr>)"
    if "r = Inr ()" "faults w2 = []" "files w2 (auPath a) = files w' (auPath a)" for w2
  proof -
    have "map_option fst (files w2 (auPath a')) = Some (p @ tail @ ?l @ [CHR 0x0A])"
      using written [OF that(1)] that(1,3) out by simp
    then obtain m where "files w2 (auPath a') = Some (p @ tail @ ?l @ [CHR 0x0A], m)" by auto
    from Reload_lines [OF assms(1) that(2) this] found show ?thesis by simp
  qed
  show ?thesis using Some out quiet written reads ended by (auto simp: Let_def)
qed

lemma Append_grants_witness:
  "(\<exists>w' a'. authorized_Append demo_key_lib \<lparr>auPath = ''keys'', auKeys = []\<rparr> ''ssh-b'' (keys_world ''ssh-a\<newline>'') = ((Inr (), w'), a')
     \<and> auKeys a' = [''ssh-b''] \<and> map_option fst (files w' ''keys'') = Some ''ssh-a\<newline>ssh-b\<newline>'')
   \<and> (\<exists>w' a'. authorized_Append demo_key_lib \<lparr>auPath = ''keys'', auKeys = []\<rparr> ''ssh-b'' (keys_world ''#'') = ((Inr (), w'), a')
     \<and> auKeys a' = [''ssh-b''] \<and> (\<forall>w2. faults w2 = [] \<and> files w2 ''keys'' = files w' ''keys'' \<longrightarrow>
         authorized_Reload demo_key_lib a' w2 = Some ((Inr (), w2), a'\<lparr>auKeys := []\<rparr>)))"
proof -
  let ?a = "\<lparr>auPath = ''keys'', auKeys = []\<rparr>"
  have t: "trim_space ''ssh-b'' = ''ssh-b''" by (rule trim_space_id) (simp add: ascii_def is_space_def)
  have k: "demo_line_key ''ssh-b'' = Some ''ssh-b''" "demo_line_key (''#'' @ ''ssh-b'') = None" "file_keys demo_line_key [] = []"
    by (simp_all add: demo_line_key_def has_prefix_def file_keys_line)
  obtain r w' a' where r: "authorized_Append demo_key_lib ?a ''ssh-b'' (keys_world ''ssh-a\<newline>'') = ((r, w'), a')" by (metis surj_pair)
  obtain q v b where q: "authorized_Append demo_key_lib ?a ''ssh-b'' (keys_world ''#'') = ((q, v), b)" by (metis surj_pair)
  have "r = Inr () \<and> auKeys a' = [''ssh-b''] \<and> map_option fst (files w' ''keys'') = Some ''ssh-a\<newline>ssh-b\<newline>''"
    using Append_grants [OF demo_line_format _ _ _ _ r, of "''ssh-a\<newline>''" "[]"] by (simp add: t k keys_world_def Let_def)
  moreover have "q = Inr () \<and> auKeys b = [''ssh-b''] \<and> (\<forall>w2. faults w2 = [] \<and> files w2 ''keys'' = files v ''keys'' \<longrightarrow>
         authorized_Reload demo_key_lib b w2 = Some ((Inr (), w2), b\<lparr>auKeys := []\<rparr>))"
    using Append_grants [OF demo_line_format _ _ _ _ q, of "[]" "''#''"] k(2) by (auto simp: t k(1,3) keys_world_def Let_def)
  ultimately show ?thesis using r q by blast
qed

text \<open>So it is with a file without a newline at its end, where the joint line is no key: both are lost.\<close>

lemma Append_merges_lines:
  assumes "line_format L lk" and "faults w = []" and "files w (auPath a) = Some (b, m)"
    and "CHR 0x0A \<notin> set b" and "CHR 0x0A \<notin> set (trim_space line)"
    and "lk (trim_space line) \<noteq> None" and "lk (b @ trim_space line) = None"
    and "authorized_Append L a line w = ((r, w'), a')"
  shows "r = Inr () \<and> (\<exists>m. files w' (auPath a) = Some (b @ trim_space line @ [CHR 0x0A], m))
    \<and> file_keys lk (b @ trim_space line @ [CHR 0x0A]) = []"
proof -
  let ?l = "trim_space line"
  obtain k where "lk ?l = Some k" using assms(6) by blast
  then have "first_key lk ?l = Some (k, [])"
    using assms(5) by (simp add: first_key.simps [of lk ?l] cut_None [THEN iffD2])
  then obtain kr where kr: "parse_authorized L ?l = Inr kr"
    using line_formatD(2,3) [OF assms(1), of ?l] by (cases "parse_authorized L ?l") auto
  obtain w1 where w1: "append_calls (auPath a) (?l @ [CHR 0x0A]) w = (Inr (), w1)"
    "files w1 = (files w)(auPath a \<mapsto> (b @ ?l @ [CHR 0x0A], file_mode w (auPath a) mode_600))"
    using quiet_append_calls [OF assms(2), of "auPath a" "?l @ [CHR 0x0A]"] assms(3) by auto
  have "file_keys lk ((b @ ?l) @ CHR 0x0A # []) = []"
    using assms(4,5,7) line_formatD(1) [OF assms(1)]
    by (simp only: file_keys_append) (simp add: file_keys_line)
  with kr w1 assms(8) show ?thesis by (auto simp: authorized_Append_def Let_def)
qed

end
