(* ===== verification/Sshd.thy ===== *)
theory Sshd
  imports Keys Service
begin

text \<open>
  \<^verbatim>\<open>internal/agent/sshd.go\<close>: the embedded SSH server. The protocol is the library's; modelled is
  what the agent gives it: who may log in, what is run for a session, and how a session ends. The
  operating system's answers (starting a process, its output, its exit) are arguments.

  A session is a state machine, with a terminal (\<open>pty_step\<close>) and without (\<open>exec_step\<close>): the window
  changes, the copies and the waiting for the process are goroutines, interleaved in any order.
\<close>

subsection \<open>The server\<close>

text \<open>The handler maps of the library, by name of channel type, request and subsystem.\<close>

record ('c, 'r, 'u) handler_maps =
  channelHandlers :: "(string \<times> 'c) list"
  requestHandlers :: "(string \<times> 'r) list"
  subsystemHandlers :: "(string \<times> 'u) list"

definition cloneChannelHandlers :: "('c, 'r, 'u) handler_maps \<Rightarrow> (string \<times> 'c) list" where
  "cloneChannelHandlers dflt = copy_map (channelHandlers dflt) []"

definition cloneRequestHandlers :: "('c, 'r, 'u) handler_maps \<Rightarrow> (string \<times> 'r) list" where
  "cloneRequestHandlers dflt = copy_map (requestHandlers dflt) []"

definition cloneSubsystemHandlers :: "('c, 'r, 'u) handler_maps \<Rightarrow> (string \<times> 'u) list" where
  "cloneSubsystemHandlers dflt = copy_map (subsystemHandlers dflt) []"

record ('s, 'k) ssh_options =
  shHostKey :: "'s option"
  shAuthorized :: "'k authorized option"
  shShell :: string

record ('s, 'k, 'c, 'r, 'u) ssh_server =
  srvShell :: string
  srvHostSigners :: "'s list"
  srvAuthorized :: "'k authorized"
  srvHandlers :: "('c, 'r, 'u) handler_maps"

record os_host =
  goos :: string
  getenv :: "string \<Rightarrow> string"
  environ :: "string list"

definition defaultShell :: "os_host \<Rightarrow> string" where
  "defaultShell h =
     (if goos h = ''windows'' then (if getenv h ''COMSPEC'' \<noteq> '''' then getenv h ''COMSPEC'' else ''cmd.exe'')
      else if getenv h ''SHELL'' \<noteq> '''' then getenv h ''SHELL'' else ''/bin/sh'')"

definition NewSSHServer ::
    "os_host \<Rightarrow> ('c, 'r, 'u) handler_maps \<Rightarrow> ('s, 'k) ssh_options \<Rightarrow> ('s, 'k, 'c, 'r, 'u) ssh_server result" where
  "NewSSHServer h dflt opts =
     (case shHostKey opts of
        None \<Rightarrow> Inl (errors_new ''a host key is required'')
      | Some key \<Rightarrow>
          (case shAuthorized opts of
             None \<Rightarrow> Inl (errors_new ''an authorized key list is required'')
           | Some auth \<Rightarrow>
               Inr \<lparr>srvShell = (if shShell opts = '''' then defaultShell h else shShell opts),
                 srvHostSigners = [key], srvAuthorized = auth,
                 srvHandlers = \<lparr>channelHandlers = cloneChannelHandlers dflt,
                   requestHandlers = cloneRequestHandlers dflt,
                   subsystemHandlers = cloneSubsystemHandlers dflt\<rparr>\<rparr>))"

text \<open>The \<^verbatim>\<open>PublicKeyHandler\<close>; the list is shared, so it is the one in force at the login.\<close>

definition PublicKeyHandler :: "'k key_lib \<Rightarrow> ('s, 'k, 'c, 'r, 'u) ssh_server \<Rightarrow> 'k \<Rightarrow> bool" where
  "PublicKeyHandler L srv key = authorized_Has L (srvAuthorized srv) key"

subsection \<open>Commands\<close>

record pty_request =
  prTerm :: string
  prWindow :: "int \<times> int"

record ssh_session =
  seUser :: string
  seRawCommand :: string
  sePty :: "pty_request option"
  seWindows :: "(int \<times> int) list"
  seInput :: "bytes list"
  seInputEof :: bool

text \<open>What a session has been sent: formatted messages, the output of the process, the exit status.\<close>

datatype ssh_out =
    Message string "string list" "go_error option"
  | Stdout_bytes bytes
  | Stderr_bytes bytes
  | ExitStatus int

record command =
  cmPath :: string
  cmArgs :: "string list"
  cmEnv :: "string list"

definition ssh_command :: "os_host \<Rightarrow> string \<Rightarrow> ssh_session \<Rightarrow> string \<times> string list" where
  "ssh_command h shell sess =
     (let raw = seRawCommand sess in
      if raw = '''' then (shell, [])
      else if goos h = ''windows'' then (shell, [''/c'', raw])
      else (shell, [''-c'', raw]))"

definition ssh_fail :: "string \<Rightarrow> go_error \<Rightarrow> ssh_out list" where
  "ssh_fail what err = [Message (''san_tunnels: %s: %v'' @ [CHR 0x0A]) [what] (Some err), ExitStatus 1]"

text \<open>\<^verbatim>\<open>errors.As\<close> to an \<^verbatim>\<open>exec.ExitError\<close>, and its code.\<close>

fun as_exit_error :: "go_error \<Rightarrow> int option" where
  "as_exit_error (ExitErr n) = Some n"
| "as_exit_error (Errorf f a (Some e)) = as_exit_error e"
| "as_exit_error (ConnectErr c e) = as_exit_error e"
| "as_exit_error _ = None"

definition exitCode :: "go_error option \<Rightarrow> int" where
  "exitCode err =
     (case err of
        None \<Rightarrow> 0
      | Some e \<Rightarrow> (case as_exit_error e of Some n \<Rightarrow> n | None \<Rightarrow> 1))"

subsection \<open>Sessions with a terminal\<close>

datatype pty_phase = Waiting | Draining | Left

text \<open>
  \<open>ptPending\<close> is the output that is still to be read from the terminal, and \<open>ptEof\<close> says whether an end
  of file follows it (on Windows none does); \<open>ptProc\<close> is what \<^verbatim>\<open>Wait\<close> will return, once the process
  has exited; \<open>ptTimedOut\<close> records that the grace period ran out, and \<open>ptGone\<close> that the client hung up,
  after which writing to it fails and the copy of the output ends.
\<close>

record pty_state =
  ptWindows :: "(int \<times> int) list"
  ptSizes :: "(int \<times> int) list"
  ptPending :: "bytes list"
  ptEof :: bool
  ptOut :: bytes
  ptInput :: "bytes list"
  ptTyped :: bytes
  ptDrained :: bool
  ptProc :: "go_error option option"
  ptPhase :: pty_phase
  ptTimedOut :: bool
  ptExits :: "int list"
  ptClosed :: bool
  ptGone :: bool

definition pty_start :: "bytes list \<Rightarrow> bool \<Rightarrow> pty_request \<Rightarrow> ssh_session \<Rightarrow> pty_state" where
  "pty_start output eof req sess =
     \<lparr>ptWindows = seWindows sess,
      ptSizes = (case prWindow req of (w, h) \<Rightarrow> if w > 0 \<and> h > 0 then [(w, h)] else []),
      ptPending = output, ptEof = eof, ptOut = [], ptInput = seInput sess, ptTyped = [], ptDrained = False,
      ptProc = None, ptPhase = Waiting, ptTimedOut = False, ptExits = [], ptClosed = False,
      ptGone = False\<rparr>"

text \<open>\<^verbatim>\<open>sess.Exit\<close>, and the deferred close of the terminal.\<close>

definition pty_leave :: "bool \<Rightarrow> pty_state \<Rightarrow> pty_state" where
  "pty_leave timeout s =
     s\<lparr>ptPhase := Left, ptTimedOut := timeout, ptExits := ptExits s @ [exitCode (the (ptProc s))], ptClosed := True\<rparr>"

inductive pty_step :: "pty_state \<Rightarrow> pty_state \<Rightarrow> bool" where
  resize: "ptWindows s = x # xs \<Longrightarrow>
    pty_step s (s\<lparr>ptWindows := xs, ptSizes := (if ptClosed s then ptSizes s else ptSizes s @ [x])\<rparr>)"
| hangup: "pty_step s (s\<lparr>ptGone := True\<rparr>)"
| sent: "ptPending s = b # bs \<Longrightarrow> \<not> ptClosed s \<Longrightarrow> \<not> ptDrained s \<Longrightarrow> \<not> ptGone s \<Longrightarrow>
    pty_step s (s\<lparr>ptPending := bs, ptOut := ptOut s @ b\<rparr>)"
| drained: "\<not> ptDrained s \<Longrightarrow> (ptPending s = [] \<and> ptEof s) \<or> ptClosed s \<or> ptGone s \<Longrightarrow>
    pty_step s (s\<lparr>ptDrained := True\<rparr>)"
| typed: "ptInput s = b # bs \<Longrightarrow> \<not> ptClosed s \<Longrightarrow>
    pty_step s (s\<lparr>ptInput := bs, ptTyped := ptTyped s @ b\<rparr>)"
| exits: "ptProc s = None \<Longrightarrow> pty_step s (s\<lparr>ptProc := Some r\<rparr>)"
| waited: "ptPhase s = Waiting \<Longrightarrow> ptProc s \<noteq> None \<Longrightarrow> pty_step s (s\<lparr>ptPhase := Draining\<rparr>)"
| leave: "ptPhase s = Draining \<Longrightarrow> ptDrained s \<Longrightarrow> pty_step s (pty_leave False s)"
| timeout: "ptPhase s = Draining \<Longrightarrow> pty_step s (pty_leave True s)"

inductive_cases pty_stepE: "pty_step s s'"

text \<open>
  What the system does with a command: the error of each call, and what is written to its two outputs. On each
  an end of file follows, unless something that the command has left behind holds the pipe open.
\<close>

record process =
  pcPty :: "go_error option"
  pcStdinPipe :: "go_error option"
  pcStart :: "go_error option"
  pcStdout :: "bytes list"
  pcStdoutEof :: bool
  pcStderr :: "bytes list"
  pcStderrEof :: bool

subsection \<open>Sessions without a terminal\<close>

text \<open>
  A command that runs: the copies of its two outputs, which \<^verbatim>\<open>os/exec\<close> makes because the session is
  no file, the goroutine of \<^verbatim>\<open>handleExec\<close> that copies the client's input into the pipe, the command itself, and
  \<^verbatim>\<open>Wait\<close>, in any order. \<open>exOut\<close> and \<open>exErr\<close> are still to be copied, and \<open>exSent\<close> is what the
  session has been given. \<open>exInput\<close> is what the client has typed or will type; an end follows it if
  \<open>exInputEof\<close>, otherwise the client keeps its side open and a read of it blocks. \<open>exProc\<close> is how the command
  exited, \<open>exCopyErr\<close> the first error of a copy of the outputs, and \<open>exGone\<close> says that the client hung up.
\<close>

record exec_state =
  exOut :: "bytes list"
  exOutEof :: bool
  exOutDone :: bool
  exErr :: "bytes list"
  exErrEof :: bool
  exErrDone :: bool
  exCopyErr :: "go_error option"
  exSent :: "ssh_out list"
  exInput :: "bytes list"
  exInputEof :: bool
  exFed :: bytes
  exStdinOpen :: bool
  exStdinDone :: bool
  exProc :: "go_error option option"
  exGone :: bool
  exReturned :: bool

definition exec_start :: "process \<Rightarrow> ssh_session \<Rightarrow> exec_state" where
  "exec_start p sess =
     \<lparr>exOut = pcStdout p, exOutEof = pcStdoutEof p, exOutDone = False, exErr = pcStderr p, exErrEof = pcStderrEof p,
      exErrDone = False, exCopyErr = None, exSent = [], exInput = seInput sess, exInputEof = seInputEof sess, exFed = [],
      exStdinOpen = True, exStdinDone = False, exProc = None, exGone = False, exReturned = False\<rparr>"

text \<open>\<^verbatim>\<open>Wait\<close> prefers the error of the command to that of a copy.\<close>

definition wait_error :: "go_error option \<Rightarrow> go_error option \<Rightarrow> go_error option" where
  "wait_error proc copy = (case proc of None \<Rightarrow> copy | Some e \<Rightarrow> Some e)"

definition first_error :: "go_error option \<Rightarrow> go_error \<Rightarrow> go_error option" where
  "first_error old e = (case old of None \<Rightarrow> Some e | Some d \<Rightarrow> Some d)"

text \<open>
  \<^verbatim>\<open>Wait\<close> returns when the command has exited and both outputs are copied; it closes the pipe of the
  input and does not ask for that copy. Its result is the status that \<^verbatim>\<open>sess.Exit\<close> sends, which also ends
  what the goroutine reads. A write to the pipe fails once it is closed or the command is gone.
\<close>

inductive exec_step :: "exec_state \<Rightarrow> exec_state \<Rightarrow> bool" where
  out: "exOut s = b # bs \<Longrightarrow> \<not> exOutDone s \<Longrightarrow> \<not> exGone s \<Longrightarrow>
    exec_step s (s\<lparr>exOut := bs, exSent := exSent s @ [Stdout_bytes b]\<rparr>)"
| out_end: "exOut s = [] \<Longrightarrow> exOutEof s \<Longrightarrow> \<not> exOutDone s \<Longrightarrow> exec_step s (s\<lparr>exOutDone := True\<rparr>)"
| out_fails: "exOut s = b # bs \<Longrightarrow> \<not> exOutDone s \<Longrightarrow> exGone s \<Longrightarrow>
    exec_step s (s\<lparr>exOut := bs, exOutDone := True, exCopyErr := first_error (exCopyErr s) e\<rparr>)"
| err: "exErr s = b # bs \<Longrightarrow> \<not> exErrDone s \<Longrightarrow> \<not> exGone s \<Longrightarrow>
    exec_step s (s\<lparr>exErr := bs, exSent := exSent s @ [Stderr_bytes b]\<rparr>)"
| err_end: "exErr s = [] \<Longrightarrow> exErrEof s \<Longrightarrow> \<not> exErrDone s \<Longrightarrow> exec_step s (s\<lparr>exErrDone := True\<rparr>)"
| err_fails: "exErr s = b # bs \<Longrightarrow> \<not> exErrDone s \<Longrightarrow> exGone s \<Longrightarrow>
    exec_step s (s\<lparr>exErr := bs, exErrDone := True, exCopyErr := first_error (exCopyErr s) e\<rparr>)"
| fed: "exInput s = b # bs \<Longrightarrow> \<not> exStdinDone s \<Longrightarrow> exStdinOpen s \<Longrightarrow>
    exec_step s (s\<lparr>exInput := bs, exFed := exFed s @ b\<rparr>)"
| fed_fails: "exInput s = b # bs \<Longrightarrow> \<not> exStdinDone s \<Longrightarrow> \<not> exStdinOpen s \<or> exProc s \<noteq> None \<Longrightarrow>
    exec_step s (s\<lparr>exInput := bs, exStdinDone := True, exStdinOpen := False\<rparr>)"
| fed_end: "exInput s = [] \<Longrightarrow> \<not> exStdinDone s \<Longrightarrow> exInputEof s \<or> exGone s \<or> exReturned s \<Longrightarrow>
    exec_step s (s\<lparr>exStdinDone := True, exStdinOpen := False\<rparr>)"
| exits: "exProc s = None \<Longrightarrow> exec_step s (s\<lparr>exProc := Some r\<rparr>)"
| waited: "exProc s = Some r \<Longrightarrow> exOutDone s \<Longrightarrow> exErrDone s \<Longrightarrow> \<not> exReturned s \<Longrightarrow>
    exec_step s (s\<lparr>exStdinOpen := False, exReturned := True,
      exSent := exSent s @ [ExitStatus (exitCode (wait_error r (exCopyErr s)))]\<rparr>)"
| hangup: "\<not> exGone s \<Longrightarrow> exec_step s (s\<lparr>exGone := True\<rparr>)"

text \<open>
  \<^verbatim>\<open>handleExec\<close>: the command it started and the state it began in, or what the session was sent instead, with
  whether the goroutine that copies the input had been started.
\<close>

datatype ssh_handled =
    SshEnded bool "ssh_out list"
  | SshExec command exec_state
  | SshTerminal command pty_state

definition handleExec :: "os_host \<Rightarrow> string \<Rightarrow> process \<Rightarrow> ssh_session \<Rightarrow> ssh_handled" where
  "handleExec h shell p sess =
     (case ssh_command h shell sess of (path, args) \<Rightarrow>
        if seRawCommand sess = '''' then
          SshEnded False [Message (''san_tunnels: no command given and no pty requested; use ssh -t for a shell'' @ [CHR 0x0A])
             [] None, ExitStatus 1]
        else (case pcStdinPipe p of
            Some err \<Rightarrow> SshEnded False (ssh_fail ''open stdin pipe'' err)
          | None \<Rightarrow>
              (case pcStart p of
                 Some err \<Rightarrow> SshEnded True (ssh_fail ''start command'' err)
               | None \<Rightarrow> SshExec \<lparr>cmPath = path, cmArgs = args, cmEnv = environ h\<rparr> (exec_start p sess))))"

definition handleSession ::
    "os_host \<Rightarrow> string \<Rightarrow> process \<Rightarrow> bytes list \<Rightarrow> bool \<Rightarrow> ssh_session \<Rightarrow> ssh_handled" where
  "handleSession h shell p output eof sess =
     (case sePty sess of
        None \<Rightarrow> handleExec h shell p sess
      | Some req \<Rightarrow>
          (case pcPty p of
             Some err \<Rightarrow> SshEnded False (ssh_fail ''allocate pty'' err)
           | None \<Rightarrow>
               (case ssh_command h shell sess of (path, args) \<Rightarrow>
                  case pcStart p of
                    Some err \<Rightarrow> SshEnded False (ssh_fail ''start shell'' err)
                  | None \<Rightarrow>
                      SshTerminal \<lparr>cmPath = path, cmArgs = args, cmEnv = environ h @ [''TERM='' @ prTerm req]\<rparr>
                        (pty_start output eof req sess))))"

subsection \<open>Lemmas\<close>

text \<open>What the client has been sent of the two outputs, and the statuses; and a measure of what a command can still do.\<close>

definition sent_stdout :: "ssh_out list \<Rightarrow> bytes" where
  "sent_stdout out = concat (map (\<lambda>m. case m of Stdout_bytes b \<Rightarrow> b | _ \<Rightarrow> []) out)"

definition sent_stderr :: "ssh_out list \<Rightarrow> bytes" where
  "sent_stderr out = concat (map (\<lambda>m. case m of Stderr_bytes b \<Rightarrow> b | _ \<Rightarrow> []) out)"

definition no_status :: "ssh_out list \<Rightarrow> bool" where
  "no_status out \<longleftrightarrow> list_all (\<lambda>m. case m of ExitStatus c \<Rightarrow> False | _ \<Rightarrow> True) out"

lemma sent_simps [simp]:
  "sent_stdout [] = []" "sent_stdout (out @ [Stdout_bytes b]) = sent_stdout out @ b"
  "sent_stdout (out @ [Stderr_bytes b]) = sent_stdout out" "sent_stdout (out @ [ExitStatus c]) = sent_stdout out"
  "sent_stderr [] = []" "sent_stderr (out @ [Stdout_bytes b]) = sent_stderr out"
  "sent_stderr (out @ [Stderr_bytes b]) = sent_stderr out @ b" "sent_stderr (out @ [ExitStatus c]) = sent_stderr out"
  "no_status []" "no_status (out @ [Stdout_bytes b]) = no_status out" "no_status (out @ [Stderr_bytes b]) = no_status out"
  by (simp_all add: sent_stdout_def sent_stderr_def no_status_def)

definition exec_left :: "exec_state \<Rightarrow> nat" where
  "exec_left s = length (exOut s) + length (exErr s) + length (exInput s) + of_bool (\<not> exOutDone s) + of_bool (\<not> exErrDone s)
     + of_bool (\<not> exStdinDone s) + of_bool (exProc s = None) + of_bool (\<not> exReturned s) + of_bool (\<not> exGone s)"

lemma exec_step_left: "exec_step s s' \<Longrightarrow> exec_left s' < exec_left s"
  by (induction rule: exec_step.induct) (simp_all add: exec_left_def)

lemma exec_bounded: "(exec_step ^^ n) s s' \<Longrightarrow> n + exec_left s' \<le> exec_left s"
proof (induction n arbitrary: s')
  case (Suc n)
  then obtain t where "(exec_step ^^ n) s t" "exec_step t s'" by auto
  with Suc.IH [of t] exec_step_left [of t s'] show ?case by simp
qed simp

text \<open>The invariant of a command, from what it writes, what the client types, and whether its outputs end.\<close>

definition exec_inv :: "bytes \<Rightarrow> bytes \<Rightarrow> bytes \<Rightarrow> exec_state \<Rightarrow> bool" where
  "exec_inv so se si s \<longleftrightarrow>
     (\<exists>lost. so = sent_stdout (exSent s) @ lost @ concat (exOut s) \<and> (exGone s \<or> lost = []))
     \<and> (\<exists>lost. se = sent_stderr (exSent s) @ lost @ concat (exErr s) \<and> (exGone s \<or> lost = []))
     \<and> (\<exists>lost. si = exFed s @ lost @ concat (exInput s) \<and> (exStdinDone s \<or> lost = []))
     \<and> (exOutDone s \<and> \<not> exGone s \<longrightarrow> exOut s = []) \<and> (exErrDone s \<and> \<not> exGone s \<longrightarrow> exErr s = [])
     \<and> (exStdinDone s \<longrightarrow> \<not> exStdinOpen s)
     \<and> (\<not> exGone s \<longrightarrow> exCopyErr s = None)
     \<and> (if exReturned s then exOutDone s \<and> exErrDone s \<and> (\<exists>r out. exProc s = Some r \<and> no_status out
          \<and> exSent s = out @ [ExitStatus (exitCode (wait_error r (exCopyErr s)))])
        else no_status (exSent s))"

lemma exec_inv_start: "exec_inv (concat (pcStdout p)) (concat (pcStderr p)) (concat (seInput sess)) (exec_start p sess)"
  by (simp add: exec_inv_def exec_start_def)

lemma exec_inv_step:
  assumes "exec_step s s'" and "exec_inv so se si s"
  shows "exec_inv so se si s'"
  using assms
proof (induction rule: exec_step.induct)
  case (out_fails s b bs e)
  then obtain lost where "so = sent_stdout (exSent s) @ lost @ b @ concat bs" by (auto simp: exec_inv_def)
  then have "\<exists>lost. so = sent_stdout (exSent s) @ lost @ concat bs" by (intro exI [of _ "lost @ b"]) simp
  with out_fails show ?case by (auto simp: exec_inv_def)
next
  case (err_fails s b bs e)
  then obtain lost where "se = sent_stderr (exSent s) @ lost @ b @ concat bs" by (auto simp: exec_inv_def)
  then have "\<exists>lost. se = sent_stderr (exSent s) @ lost @ concat bs" by (intro exI [of _ "lost @ b"]) simp
  with err_fails show ?case by (auto simp: exec_inv_def)
next
  case (fed_fails s b bs)
  then obtain lost where "si = exFed s @ lost @ b @ concat bs" by (auto simp: exec_inv_def)
  then have "\<exists>lost. si = exFed s @ lost @ concat bs" by (intro exI [of _ "lost @ b"]) simp
  with fed_fails show ?case by (auto simp: exec_inv_def)
qed (auto simp: exec_inv_def)

lemma exec_inv_reach:
  "exec_step\<^sup>*\<^sup>* (exec_start p sess) s \<Longrightarrow> exec_inv (concat (pcStdout p)) (concat (pcStderr p)) (concat (seInput sess)) s"
  by (induction rule: rtranclp_induct) (auto intro: exec_inv_start exec_inv_step)

lemma exec_eofs: "exec_step\<^sup>*\<^sup>* s s' \<Longrightarrow> exOutEof s' = exOutEof s \<and> exErrEof s' = exErrEof s"
  by (induction rule: rtranclp_induct) (auto elim: exec_step.cases)

text \<open>A command whose outputs end cannot come to a halt before the session has ended, whatever its input does.\<close>

lemma exec_progress:
  assumes "exOutEof s" and "exErrEof s" and "\<not> exReturned s"
  shows "\<exists>s'. exec_step s s' \<and> exInput s' = exInput s \<and> exStdinDone s' = exStdinDone s"
proof (cases "exOutDone s \<and> exErrDone s")
  case True
  with assms(3) exec_step.waited [of s] exec_step.exits [of s None] show ?thesis
    by (cases "exProc s") (fastforce simp del: exec_state.update_convs)+
next
  case False
  then consider "\<not> exOutDone s" | "\<not> exErrDone s" by blast
  then show ?thesis
  proof cases
    case 1
    with assms(1) exec_step.out [of s] exec_step.out_end [of s] exec_step.out_fails [of s _ _ EOF] show ?thesis
      by (cases "exOut s"; cases "exGone s") (fastforce simp del: exec_state.update_convs)+
  next
    case 2
    with assms(2) exec_step.err [of s] exec_step.err_end [of s] exec_step.err_fails [of s _ _ EOF] show ?thesis
      by (cases "exErr s"; cases "exGone s") (fastforce simp del: exec_state.update_convs)+
  qed
qed

lemma exec_ends:
  assumes "exOutEof s" and "exErrEof s"
  shows "\<exists>s'. exec_step\<^sup>*\<^sup>* s s' \<and> exReturned s' \<and> exInput s' = exInput s \<and> exStdinDone s' = exStdinDone s"
  using assms
proof (induction s rule: measure_induct_rule [of exec_left])
  case (less s)
  show ?case
  proof (cases "exReturned s")
    case False
    then obtain t where t: "exec_step s t" "exInput t = exInput s" "exStdinDone t = exStdinDone s"
      using exec_progress [OF less.prems] by blast
    with exec_eofs [of s t] less.prems have "exOutEof t" "exErrEof t" by auto
    from less.IH [OF exec_step_left [OF t(1)] this] t show ?thesis by (metis converse_rtranclp_into_rtranclp)
  qed blast
qed

text \<open>The invariant of a session with a terminal, from the output it will have and the windows it began with.\<close>

definition pty_inv :: "bytes \<Rightarrow> (int \<times> int) list \<Rightarrow> pty_state \<Rightarrow> bool" where
  "pty_inv written sizes s \<longleftrightarrow>
     ptOut s @ concat (ptPending s) = written
     \<and> (\<exists>dropped. ptSizes s @ dropped @ ptWindows s = sizes \<and> (ptClosed s \<or> dropped = []))
     \<and> (ptClosed s \<longleftrightarrow> ptPhase s = Left) \<and> (ptPhase s \<noteq> Waiting \<longrightarrow> ptProc s \<noteq> None)
     \<and> (if ptPhase s = Left then ptExits s = [exitCode (the (ptProc s))] else ptExits s = [])
     \<and> (ptDrained s \<and> \<not> ptClosed s \<and> \<not> ptGone s \<longrightarrow> ptPending s = [])
     \<and> (ptPhase s = Left \<and> \<not> ptTimedOut s \<and> \<not> ptGone s \<longrightarrow> ptPending s = [])"

lemma pty_inv_start:
  "pty_inv (concat output) (ptSizes (pty_start output eof req sess) @ seWindows sess) (pty_start output eof req sess)"
  by (simp add: pty_inv_def pty_start_def)

lemma pty_inv_step:
  assumes "pty_step s s'" and "pty_inv written sizes s"
  shows "pty_inv written sizes s'"
  using assms
proof (induction rule: pty_step.induct)
  case (resize s x xs)
  then obtain d where "ptSizes s @ d @ x # xs = sizes" "ptClosed s \<or> d = []" by (auto simp: pty_inv_def)
  then have "\<exists>d'. (if ptClosed s then ptSizes s else ptSizes s @ [x]) @ d' @ xs = sizes \<and> (ptClosed s \<or> d' = [])"
    by (cases "ptClosed s") (auto intro: exI [of _ "d @ [x]"])
  with resize show ?case by (simp add: pty_inv_def)
qed (auto simp: pty_inv_def pty_leave_def)

lemma pty_inv_reach:
  "pty_step\<^sup>*\<^sup>* (pty_start output eof req sess) s \<Longrightarrow>
   pty_inv (concat output) (ptSizes (pty_start output eof req sess) @ seWindows sess) s"
  by (induction rule: rtranclp_induct) (auto intro: pty_inv_start pty_inv_step)

lemma pty_ends:
  assumes "ptProc s \<noteq> None"
  shows "\<exists>s'. pty_step\<^sup>*\<^sup>* s s' \<and> ptPhase s' = Left"
proof -
  have drain: "\<exists>s'. pty_step\<^sup>*\<^sup>* s s' \<and> ptPhase s' = Left" if "ptPhase s = Draining" for s
    using pty_step.timeout [OF that] by (auto simp: pty_leave_def intro!: exI [of _ "pty_leave True s"])
  show ?thesis
  proof (cases "ptPhase s")
    case Waiting
    from pty_step.waited [OF this assms] drain [of "s\<lparr>ptPhase := Draining\<rparr>"] show ?thesis
      by (auto intro: converse_rtranclp_into_rtranclp)
  qed (use drain in auto)
qed

subsection \<open>Properties\<close>

text \<open>
  C25: a session with a terminal, in every interleaving: the client has received a prefix of what the
  shell wrote, and the terminal has had a prefix of the window sizes, in order; the session's exit
  status is sent at most once, after the process exited, and is its status; all output precedes it
  unless the grace period ran out or the client hung up. Once the process has exited the session can end, even on a
  terminal that never reports end of file.
\<close>

theorem pty_session:
  assumes "pty_step\<^sup>*\<^sup>* (pty_start output eof req sess) s"
  shows "(\<exists>more. concat output = ptOut s @ more)
    \<and> (\<exists>more. ptSizes (pty_start output eof req sess) @ seWindows sess = ptSizes s @ more)
    \<and> (if ptPhase s = Left then ptProc s \<noteq> None \<and> ptExits s = [exitCode (the (ptProc s))] \<and> ptClosed s
       else ptExits s = [] \<and> \<not> ptClosed s)
    \<and> (ptPhase s = Left \<and> \<not> ptTimedOut s \<and> \<not> ptGone s \<longrightarrow> ptOut s = concat output)
    \<and> (ptProc s \<noteq> None \<longrightarrow> (\<exists>s'. pty_step\<^sup>*\<^sup>* s s' \<and> ptPhase s' = Left))"
proof -
  have inv:
    "pty_inv (concat output) (ptSizes (pty_start output eof req sess) @ seWindows sess) s"
    by (rule pty_inv_reach [OF assms])
  have "concat output = ptOut s @ concat (ptPending s)" using inv by (simp add: pty_inv_def)
  moreover have "\<exists>d. ptSizes (pty_start output eof req sess) @ seWindows sess = ptSizes s @ d @ ptWindows s"
    using inv unfolding pty_inv_def by metis
  moreover have "if ptPhase s = Left then ptProc s \<noteq> None \<and> ptExits s = [exitCode (the (ptProc s))] \<and> ptClosed s
       else ptExits s = [] \<and> \<not> ptClosed s"
    using inv by (cases "ptPhase s") (simp_all add: pty_inv_def)
  moreover have "ptPhase s = Left \<and> \<not> ptTimedOut s \<and> \<not> ptGone s \<longrightarrow> ptPending s = []"
    using inv by (simp add: pty_inv_def)
  ultimately show ?thesis using pty_ends [of s] by auto
qed

definition demo_session :: ssh_session where
  "demo_session = \<lparr>seUser = ''me'', seRawCommand = '''', sePty = Some \<lparr>prTerm = ''xterm'', prWindow = (80, 24)\<rparr>,
     seWindows = [(100, 30)], seInput = [], seInputEof = False\<rparr>"

lemma pty_session_witness:
  "\<exists>s. pty_step\<^sup>*\<^sup>* (pty_start [''hi''] False \<lparr>prTerm = ''xterm'', prWindow = (80, 24)\<rparr> demo_session) s
    \<and> ptPhase s = Left \<and> ptExits s = [exitCode (the (ptProc s))]"
proof -
  let ?s = "pty_start [''hi''] False \<lparr>prTerm = ''xterm'', prWindow = (80, 24)\<rparr> demo_session"
  have exit: "pty_step ?s (?s\<lparr>ptProc := Some None\<rparr>)" by (rule pty_step.exits) (simp add: pty_start_def)
  obtain s where s: "pty_step\<^sup>*\<^sup>* (?s\<lparr>ptProc := Some None\<rparr>) s" "ptPhase s = Left"
    using pty_ends [of "?s\<lparr>ptProc := Some None\<rparr>"] by auto
  from converse_rtranclp_into_rtranclp [OF exit s(1)] have "pty_step\<^sup>*\<^sup>* ?s s" .
  with pty_session [OF this] s(2) show ?thesis by auto
qed

text \<open>
  C31: a session without a terminal runs what the client asked for and ends with its status, whatever the
  client does with its input. What cannot be run ends with a message and status 1. Otherwise the login shell is
  started on the client's text as one argument, and in every interleaving: the client has received a prefix of
  each output and the command a prefix of the input; no status is sent before the command has exited and
  both outputs are copied, then exactly one, last; a client that did not hang up has then had all the
  output, and the status is that of the command. Runs are bounded, and one that cannot go on has ended the session, if
  the outputs of the command end: it can always end so without another byte, or the end, of the input.
\<close>

theorem exec_session:
  assumes "sePty sess = None"
  shows "case handleSession h shell p written eof sess of
      SshEnded feeding out \<Rightarrow> (\<exists>msg args err. out = [Message msg args err, ExitStatus 1])
        \<and> (seRawCommand sess = [] \<or> pcStdinPipe p \<noteq> None \<or> pcStart p \<noteq> None)
        \<and> (feeding \<longleftrightarrow> seRawCommand sess \<noteq> [] \<and> pcStdinPipe p = None)
    | SshTerminal c t \<Rightarrow> False
    | SshExec c s0 \<Rightarrow> seRawCommand sess \<noteq> [] \<and> cmPath c = shell \<and> cmEnv c = environ h
        \<and> cmArgs c = [if goos h = ''windows'' then ''/c'' else ''-c'', seRawCommand sess]
        \<and> (\<forall>s. exec_step\<^sup>*\<^sup>* s0 s \<longrightarrow>
             (\<exists>more. concat (pcStdout p) = sent_stdout (exSent s) @ more)
           \<and> (\<exists>more. concat (pcStderr p) = sent_stderr (exSent s) @ more)
           \<and> (\<exists>more. concat (seInput sess) = exFed s @ more)
           \<and> (if exReturned s then
                (\<exists>r before code. exProc s = Some r \<and> exSent s = before @ [ExitStatus code] \<and> no_status before
                  \<and> (\<not> exGone s \<longrightarrow> code = exitCode r
                      \<and> sent_stdout before = concat (pcStdout p) \<and> sent_stderr before = concat (pcStderr p)))
              else no_status (exSent s))
           \<and> (\<exists>bound. \<forall>n s'. (exec_step ^^ n) s s' \<longrightarrow> n \<le> bound)
           \<and> (pcStdoutEof p \<and> pcStderrEof p \<longrightarrow>
                ((\<nexists>s'. exec_step s s') \<longrightarrow> exReturned s)
                \<and> (\<exists>s'. exec_step\<^sup>*\<^sup>* s s' \<and> exReturned s' \<and> exInput s' = exInput s \<and> exStdinDone s' = exStdinDone s)))"
proof -
  have reach: "(\<exists>more. concat (pcStdout p) = sent_stdout (exSent s) @ more)
           \<and> (\<exists>more. concat (pcStderr p) = sent_stderr (exSent s) @ more)
           \<and> (\<exists>more. concat (seInput sess) = exFed s @ more)
           \<and> (if exReturned s then
                (\<exists>r before code. exProc s = Some r \<and> exSent s = before @ [ExitStatus code] \<and> no_status before
                  \<and> (\<not> exGone s \<longrightarrow> code = exitCode r
                      \<and> sent_stdout before = concat (pcStdout p) \<and> sent_stderr before = concat (pcStderr p)))
              else no_status (exSent s))" if "exec_step\<^sup>*\<^sup>* (exec_start p sess) s" for s
  proof -
    note inv = exec_inv_reach [OF that, unfolded exec_inv_def]
    show ?thesis
    proof (cases "exReturned s")
      case True
      with inv obtain r before where r: "exProc s = Some r" "no_status before"
        "exSent s = before @ [ExitStatus (exitCode (wait_error r (exCopyErr s)))]" by auto
      moreover have "exitCode (wait_error r (exCopyErr s)) = exitCode r
          \<and> sent_stdout before = concat (pcStdout p) \<and> sent_stderr before = concat (pcStderr p)" if "\<not> exGone s"
        using inv that True r(3) by (cases r) (auto simp: wait_error_def)
      ultimately show ?thesis using True inv by auto
    qed (use inv in auto)
  qed
  have bound: "\<exists>bound. \<forall>n s'. (exec_step ^^ n) s s' \<longrightarrow> n \<le> bound" for s
    by (rule exI [of _ "exec_left s"]) (auto dest: exec_bounded)
  have eofs: "exOutEof s = pcStdoutEof p" "exErrEof s = pcStderrEof p" if "exec_step\<^sup>*\<^sup>* (exec_start p sess) s" for s
    using exec_eofs [OF that] by (simp_all add: exec_start_def)
  have live: "((\<nexists>s'. exec_step s s') \<longrightarrow> exReturned s)
      \<and> (\<exists>s'. exec_step\<^sup>*\<^sup>* s s' \<and> exReturned s' \<and> exInput s' = exInput s \<and> exStdinDone s' = exStdinDone s)"
    if "exec_step\<^sup>*\<^sup>* (exec_start p sess) s" "pcStdoutEof p \<and> pcStderrEof p" for s
    using exec_progress [of s] exec_ends [of s] eofs [OF that(1)] that(2) by blast
  consider (none) "seRawCommand sess = []" | (pipe) e where "seRawCommand sess \<noteq> []" "pcStdinPipe p = Some e"
    | (start) e where "seRawCommand sess \<noteq> []" "pcStdinPipe p = None" "pcStart p = Some e"
    | (run) "seRawCommand sess \<noteq> []" "pcStdinPipe p = None" "pcStart p = None" by (metis option.exhaust)
  then show ?thesis
  proof cases
    case run
    let ?c = "\<lparr>cmPath = shell, cmArgs = [if goos h = ''windows'' then ''/c'' else ''-c'', seRawCommand sess], cmEnv = environ h\<rparr>"
    from run(1) have "ssh_command h shell sess = (shell, cmArgs ?c)" by (simp add: ssh_command_def Let_def)
    with run assms have c: "handleSession h shell p written eof sess = SshExec ?c (exec_start p sess)"
      by (simp add: handleSession_def handleExec_def)
    show ?thesis
      unfolding c ssh_handled.case
      by (intro conjI allI impI; (simp add: run(1); fail)?; use reach bound live in blast)
  qed (use assms in \<open>auto simp: handleSession_def handleExec_def ssh_command_def ssh_fail_def Let_def\<close>)
qed

lemma exec_session_witness:
  "\<exists>c s0 s before. handleSession \<lparr>goos = ''linux'', getenv = (\<lambda>v. ''''), environ = []\<rparr> ''/bin/sh''
      \<lparr>pcPty = None, pcStdinPipe = None, pcStart = None, pcStdout = [''hi''], pcStdoutEof = True, pcStderr = [], pcStderrEof = True\<rparr>
      [] True (demo_session\<lparr>seRawCommand := ''echo hi'', sePty := None\<rparr>) = SshExec c s0
    \<and> exec_step\<^sup>*\<^sup>* s0 s \<and> exReturned s \<and> \<not> exStdinDone s \<and> (\<exists>code. exSent s = before @ [ExitStatus code])"
proof -
  let ?h = "\<lparr>goos = ''linux'', getenv = (\<lambda>v. ''''), environ = []\<rparr> :: os_host"
    and ?p = "\<lparr>pcPty = None, pcStdinPipe = None, pcStart = None, pcStdout = [''hi''], pcStdoutEof = True,
      pcStderr = [], pcStderrEof = True\<rparr> :: process"
    and ?e = "demo_session\<lparr>seRawCommand := ''echo hi'', sePty := None\<rparr>"
  obtain c where c: "handleSession ?h ''/bin/sh'' ?p [] True ?e = SshExec c (exec_start ?p ?e)"
    by (simp add: handleSession_def handleExec_def ssh_command_def Let_def)
  have "sePty ?e = None" by simp
  note all = exec_session [OF this, where h = ?h and shell = "''/bin/sh''" and p = ?p and written = "[]" and eof = True, unfolded c, simplified]
  obtain s where s: "exec_step\<^sup>*\<^sup>* (exec_start ?p ?e) s" "exReturned s" "exStdinDone s = exStdinDone (exec_start ?p ?e)"
    using all by blast
  moreover obtain before code where "exSent s = before @ [ExitStatus code]" using all s(1,2) by metis
  ultimately show ?thesis using c by (auto simp: exec_start_def)
qed

end
