(* ===== verification/Invite.thy ===== *)
theory Invite
  imports Gostruct
begin

text \<open>
  \<^verbatim>\<open>internal/invite/invite.go\<close>: everything an entry host needs to reach an agent, in one string
  that survives being pasted.
\<close>

subsection \<open>Data\<close>

definition invite_Prefix :: bytes where "invite_Prefix = ''san1_''"

record invite =
  invURL :: bytes
  invToken :: bytes
  invTLSFingerprint :: bytes
  invHostKey :: bytes
  invUser :: bytes

definition zero_invite :: invite where
  "zero_invite = \<lparr>invURL = [], invToken = [], invTLSFingerprint = [], invHostKey = [], invUser = []\<rparr>"

definition invite_fields :: "bytes list" where
  "invite_fields = [''url'', ''token'', ''tls_fingerprint'', ''host_key'', ''user'']"

definition set_invite_field :: "bytes \<Rightarrow> json \<Rightarrow> invite \<Rightarrow> invite option" where
  "set_invite_field n v i =
     (if v = JNull then Some i
      else if n = ''url'' then map_option (\<lambda>s. i\<lparr>invURL := s\<rparr>) (as_string v)
      else if n = ''token'' then map_option (\<lambda>s. i\<lparr>invToken := s\<rparr>) (as_string v)
      else if n = ''tls_fingerprint'' then map_option (\<lambda>s. i\<lparr>invTLSFingerprint := s\<rparr>) (as_string v)
      else if n = ''host_key'' then map_option (\<lambda>s. i\<lparr>invHostKey := s\<rparr>) (as_string v)
      else map_option (\<lambda>s. i\<lparr>invUser := s\<rparr>) (as_string v))"

definition invite_of_json :: "json \<Rightarrow> invite option" where
  "invite_of_json v = unmarshal_struct invite_fields set_invite_field v zero_invite"

definition invite_json :: "invite \<Rightarrow> json" where
  "invite_json i = JObj
     ([(''url'', JStr (invURL i))] @ opt_str ''token'' (invToken i)
      @ opt_str ''tls_fingerprint'' (invTLSFingerprint i) @ opt_str ''host_key'' (invHostKey i)
      @ opt_str ''user'' (invUser i))"

subsection \<open>Operations\<close>

definition invite_Encode :: "invite \<Rightarrow> bytes result" where
  "invite_Encode i =
     (if invURL i = [] then Inl (errors_new ''an invite needs a url'')
      else Inr (invite_Prefix @ b64_encode url_alphabet (marshal (invite_json i))))"

definition invite_Decode :: "bytes \<Rightarrow> invite result" where
  "invite_Decode s0 =
     (let s = trim_space s0 in
      if \<not> has_prefix s invite_Prefix then
        Inl (Errorf ''not an invite: expected it to start with %q'' [invite_Prefix] None)
      else (case b64_decode url_alphabet (trim_prefix s invite_Prefix) of
          None \<Rightarrow> Inl (Errorf ''decode invite: %w'' [] (Some (OsErr ''illegal base64 data'')))
        | Some b \<Rightarrow>
            (case Option.bind (json_parse b) invite_of_json of
               None \<Rightarrow> Inl (Errorf ''parse invite: %w'' [] (Some json_error))
             | Some i \<Rightarrow>
                 if invURL i = [] then Inl (errors_new ''invite carries no url'') else Inr i)))"

definition invite_Redact :: "invite \<Rightarrow> invite" where
  "invite_Redact i = (if invToken i \<noteq> [] then i\<lparr>invToken := ''(redacted)''\<rparr> else i)"

subsection \<open>Lemmas\<close>

text \<open>An invite that JSON can carry, as every Go string that is valid UTF-8 is.\<close>

definition invite_ok :: "invite \<Rightarrow> bool" where
  "invite_ok i \<longleftrightarrow>
     list_all valid_utf8 [invURL i, invToken i, invTLSFingerprint i, invHostKey i, invUser i]"

lemma invite_of_json_json: "invite_of_json (invite_json i) = Some i"
  by (cases i)
    (simp add: invite_of_json_def invite_json_def unmarshal_struct_def fill_append fill_omit opt_str_def
      invite_fields_def set_invite_field_def zero_invite_def fill_member_def find_field_exact)

lemma jok_invite: "invite_ok i \<Longrightarrow> jok 0 (invite_json i)"
  by (auto simp: invite_json_def invite_ok_def opt_str_def omit_def max_depth_def valid_utf8_all_ascii ascii_def)

lemma parse_invite: "invite_ok i \<Longrightarrow> json_parse (marshal (invite_json i)) = Some (invite_json i)"
  using json_parse_print [OF jok_invite, of i "[]" False 0] by (simp add: marshal_def)

lemma plain_invite: "list_all plain (invite_Prefix @ b64_encode url_alphabet s)"
  using plain_b64_encode [OF _ plain_url]
  by (simp add: invite_Prefix_def url_alphabet_def plain_def ascii_def is_space_def)

lemma invite_Decode_around:
  assumes "invite_Encode i = Inr blob" and "invite_ok i"
    and "list_all (\<lambda>c. ascii c \<and> is_space (code c)) a" and "list_all (\<lambda>c. ascii c \<and> is_space (code c)) b"
  shows "invite_Decode (a @ blob @ b) = Inr i"
proof -
  from assms(1) have url: "invURL i \<noteq> []" and blob: "blob = invite_Prefix @ b64_encode url_alphabet (marshal (invite_json i))"
    by (auto simp: invite_Encode_def split: if_splits)
  have "trim_space (a @ blob @ b) = blob"
    unfolding blob
    using assms(3,4) plain_invite by (intro trim_space_around) (simp_all only: plain_def [abs_def, symmetric])
  with assms(2) url blob show ?thesis
    by (simp add: invite_Decode_def b64_decode_encode alphabet_url parse_invite invite_of_json_json)
qed

lemma invite_Decode_URL: "invite_Decode s = Inr i \<Longrightarrow> invURL i \<noteq> []"
  by (auto simp: invite_Decode_def Let_def split: option.splits if_splits)

subsection \<open>Properties\<close>

text \<open>
  C18: an invite decodes to what was encoded, whatever white space is pasted around it; the text is
  of printable characters without white space and starts with the prefix.
\<close>

theorem invite_Decode_Encode:
  assumes "invite_ok i" and "invURL i \<noteq> []"
    and "list_all (\<lambda>c. ascii c \<and> is_space (code c)) a" and "list_all (\<lambda>c. ascii c \<and> is_space (code c)) b"
  shows "\<exists>blob. invite_Encode i = Inr blob \<and> has_prefix blob invite_Prefix \<and> list_all plain blob
    \<and> invite_Decode (a @ blob @ b) = Inr i"
proof -
  from assms(2) have e: "invite_Encode i = Inr (invite_Prefix @ b64_encode url_alphabet (marshal (invite_json i)))"
    by (simp add: invite_Encode_def)
  with invite_Decode_around [OF e assms(1,3,4)] plain_invite has_prefix_append show ?thesis by metis
qed

definition demo_invite :: invite where
  "demo_invite = zero_invite\<lparr>invURL := ''https://box:8443'', invToken := ''s3cret''\<rparr>"

lemma invite_Decode_Encode_witness:
  "\<exists>blob. invite_Encode demo_invite = Inr blob \<and> invite_Decode ('' '' @ blob @ [CHR 0x0D, CHR 0x0A]) = Inr demo_invite"
proof -
  have "invite_ok demo_invite"
    by (simp add: invite_ok_def demo_invite_def zero_invite_def valid_utf8_all_ascii ascii_def)
  from invite_Decode_Encode [OF this, of "'' ''" "[CHR 0x0D, CHR 0x0A]"] show ?thesis
    by (auto simp: demo_invite_def ascii_def is_space_def)
qed

text \<open>
  \<^verbatim>\<open>Decode\<close> returns an invite only for a text with the prefix, and only one with a URL; every
  invite it returns can be encoded again. Without the prefix the error says so, whatever follows.
\<close>

theorem invite_Decode_sound:
  "(case invite_Decode s of
      Inr i \<Rightarrow> has_prefix (trim_space s) invite_Prefix \<and> invURL i \<noteq> [] \<and> \<not> isl (invite_Encode i)
    | Inl e \<Rightarrow> has_prefix (trim_space s) invite_Prefix
        \<or> e = Errorf ''not an invite: expected it to start with %q'' [invite_Prefix] None)"
proof (cases "has_prefix (trim_space s) invite_Prefix")
  case True
  have "invURL i \<noteq> [] \<and> \<not> isl (invite_Encode i)" if "invite_Decode s = Inr i" for i
    using that True
    by (auto simp: invite_Decode_def Let_def invite_Encode_def split: option.splits if_splits)
  with True show ?thesis by (auto split: sum.splits)
qed (simp add: invite_Decode_def)

text \<open>
  What is logged of an invite says nothing of its token but whether there is one: two invites
  that differ in a token they both have are redacted alike, and nothing else is changed.
\<close>

theorem invite_Redact_hides:
  assumes "t1 \<noteq> []" and "t2 \<noteq> []"
  shows "invite_Redact (i\<lparr>invToken := t1\<rparr>) = invite_Redact (i\<lparr>invToken := t2\<rparr>)
    \<and> (invite_Redact i)\<lparr>invToken := invToken i\<rparr> = i
    \<and> (invToken (invite_Redact i) = [] \<longleftrightarrow> invToken i = [])"
  using assms by (simp add: invite_Redact_def)

lemma invite_Redact_hides_witness:
  "invite_Redact (demo_invite\<lparr>invToken := ''a''\<rparr>) = invite_Redact (demo_invite\<lparr>invToken := ''b''\<rparr>)"
  using invite_Redact_hides [of "''a''" "''b''" demo_invite] by simp

end
