(* ===== verification/Cli_Agent.thy ===== *)
theory Cli_Agent
  imports Serve Sshd Invite
begin

text \<open>
  The commands of \<^verbatim>\<open>san_tunnels server\<close> in \<^verbatim>\<open>cmd/san_tunnels/main.go\<close>. The flags of the command
  line library are lookup functions; logging is not modelled. Random values, clock, host and the
  libraries below the agent's components are the fields of \<open>agent_host\<close>.
\<close>

subsection \<open>Flags and surroundings\<close>

record flags =
  flagString :: "string \<Rightarrow> string"
  flagBool :: "string \<Rightarrow> bool"
  flagInt :: "string \<Rightarrow> int"
  flagDuration :: "string \<Rightarrow> int"
  flagSlice :: "string \<Rightarrow> string list"
  flagIsSet :: "string \<Rightarrow> bool"
  flagArgs :: "string list"

definition arg :: "flags \<Rightarrow> nat \<Rightarrow> string" where
  "arg cmd n = (if n < length (flagArgs cmd) then flagArgs cmd ! n else '''')"

record ('p, 's, 'k, 't, 'c, 'r, 'u) agent_host =
  ahEnv :: env
  ahOs :: os_host
  ahHostKeys :: "('p, 's) host_key_lib"
  ahKeys :: "'k key_lib"
  ahTLS :: "'t tls_lib"
  ahMaps :: "('c, 'r, 'u) handler_maps"
  ahGenHost :: "'p result"
  ahGenTLS :: "'t tls_entropy"
  ahGenToken :: "bytes result"
  ahKeyType :: "'s \<Rightarrow> string"
  ahFingerprint :: "'s \<Rightarrow> string"

definition nl :: string where "nl = [CHR 0x0A]"

subsection \<open>Resolving flags\<close>

definition agentPath :: "env \<Rightarrow> string \<Rightarrow> string \<Rightarrow> string result" where
  "agentPath env flag name =
     (if flag \<noteq> '''' then Inr flag
      else case userConfigDir env of
        Inl err \<Rightarrow> Inl (Errorf ''locate user config dir: %w'' [] (Some err))
      | Inr dir \<Rightarrow> Inr (path_join [dir, ''san_tunnels'', name]))"

definition resolveToken :: "string \<Rightarrow> string \<Rightarrow> string io" where
  "resolveToken token file w =
     (if token \<noteq> '''' \<and> file \<noteq> '''' then
        (Inl (errors_new ''--token and --token-file are mutually exclusive''), w)
      else if file = '''' then (Inr token, w)
      else io_bind (wrap_err ''read token file %s: %w'' [file] (ReadFile file)) (\<lambda>b.
        io_return (trim_space b)) w)"

definition resolveTLS :: "env \<Rightarrow> flags \<Rightarrow> (string \<times> string \<times> bool) result" where
  "resolveTLS env cmd =
     (let certPath = flagString cmd ''tls-cert''; keyPath = flagString cmd ''tls-key'';
          explicit = (certPath \<noteq> '''' \<and> keyPath \<noteq> '''') in
      if (certPath = '''') \<noteq> (keyPath = '''') then
        Inl (errors_new ''--tls-cert and --tls-key must be given together'')
      else
        let auto = (flagBool cmd ''tls-auto'' \<or> \<not> explicit \<and> \<not> flagBool cmd ''h2c'') in
        if auto \<and> \<not> explicit then
          bind_result (agentPath env '''' ''tls_cert.pem'') (\<lambda>cert.
          bind_result (agentPath env '''' ''tls_key.pem'') (\<lambda>key.
          Inr (cert, key, auto)))
        else Inr (certPath, keyPath, auto))"

fun parse_endpoints :: "string list \<Rightarrow> (string \<times> string) list \<Rightarrow> (string \<times> string) list result" where
  "parse_endpoints [] out = Inr out"
| "parse_endpoints (v # vs) out =
     (case cut v (CHR ''='') of
        None \<Rightarrow> Inl (Errorf ''bad --endpoint %q: want name=host:port'' [v] None)
      | Some (name, addr) \<Rightarrow>
          if name = '''' \<or> addr = '''' then Inl (Errorf ''bad --endpoint %q: want name=host:port'' [v] None)
          else if name = ShellEndpoint then
            Inl (Errorf ''endpoint %q is reserved for the embedded ssh server'' [name] None)
          else parse_endpoints vs (AList.update name addr out))"

definition parseEndpoints :: "string list \<Rightarrow> (string \<times> string) list result" where
  "parseEndpoints vals = parse_endpoints vals []"

text \<open>\<open>rnd\<close>: the outcome of reading 32 random bytes.\<close>

definition ensureToken :: "bytes result \<Rightarrow> string \<Rightarrow> bool \<Rightarrow> bool io" where
  "ensureToken rnd path force w =
     (let create = io_bind (wrap_err ''generate token: %w'' [] (io_lift rnd)) (\<lambda>buf.
            io_bind (wrap_err ''create agent directory: %w'' [] (MkdirAll (path_dir path) mode_700)) (\<lambda>_.
            io_bind (wrap_err ''write token file %s: %w'' [path]
              (WriteFile path (b64_encode url_alphabet buf @ nl) mode_600)) (\<lambda>_.
            io_return True)))
      in if force then create w
         else case Stat path w of
             (Inr u, w') \<Rightarrow> (Inr False, w')
           | (Inl e, w') \<Rightarrow>
               if errors_is e ErrNotExist then create w'
               else (Inl (Errorf ''check token file %s: %w'' [path] (Some e)), w'))"

subsection \<open>server\<close>

definition runServer ::
    "('p, 's, 'k, 't, 'c, 'r, 'u) agent_host \<Rightarrow> (('t, ('s, 'k, 'c, 'r, 'u) ssh_server) http_server \<Rightarrow> serve_end)
     \<Rightarrow> flags \<Rightarrow> unit prog" where
  "runServer H run cmd =
     prog_bind (pure (agentPath (ahEnv H) (flagString cmd ''host-key'') ''host_key'')) (\<lambda>hostKeyPath.
     prog_bind (pure (agentPath (ahEnv H) (flagString cmd ''authorized-keys'') ''authorized_keys'')) (\<lambda>authPath.
     prog_bind (call (resolveToken (flagString cmd ''token'') (flagString cmd ''token-file''))) (\<lambda>token.
     prog_bind (pure (parseEndpoints (flagSlice cmd ''endpoint''))) (\<lambda>endpoints.
     prog_bind (pure (resolveTLS (ahEnv H) cmd)) (\<lambda>(tlsCert, tlsKey, tlsAuto).
     prog_bind (call (LoadOrCreateHostKey (ahHostKeys H) (ahGenHost H) hostKeyPath)) (\<lambda>hostKey.
     prog_bind (LoadAuthorizedKeys (ahKeys H) authPath) (\<lambda>authorized.
     prog_bind (pure (NewSSHServer (ahOs H) (ahMaps H)
       \<lparr>shHostKey = Some hostKey, shAuthorized = Some authorized, shShell = flagString cmd ''shell''\<rparr>)) (\<lambda>sshServer.
     prog_bind (pure (NewService (Some sshServer) endpoints)) (\<lambda>svc.
     call (Serve (ahTLS H) (ahEnv H) (ahGenTLS H) run
       \<lparr>soListen = flagString cmd ''listen'', soToken = token, soTLSCert = tlsCert, soTLSKey = tlsKey,
        soTLSAuto = tlsAuto, soTLSHosts = flagSlice cmd ''tls-host'', soH2C = flagBool cmd ''h2c'',
        soWSOrigins = flagSlice cmd ''ws-origin'', soService = Some svc\<rparr>))))))))))"

definition readAll :: "bytes io" where
  "readAll = ReadStdin"

definition runAuthorize :: "('p, 's, 'k, 't, 'c, 'r, 'u) agent_host \<Rightarrow> flags \<Rightarrow> unit prog" where
  "runAuthorize H cmd =
     (if arg cmd 0 = '''' then
        pure (Inl (errors_new ''give an authorized_keys line, or - to read one from stdin''))
      else
        prog_bind (call (if arg cmd 0 = ''-'' then
            io_bind (wrap_err ''read key from stdin: %w'' [] readAll) (\<lambda>b. io_return (trim_space b))
          else io_return (arg cmd 0))) (\<lambda>line.
        prog_bind (pure (agentPath (ahEnv H) (flagString cmd ''authorized-keys'') ''authorized_keys'')) (\<lambda>authPath.
        prog_bind (LoadAuthorizedKeys (ahKeys H) authPath) (\<lambda>authorized w.
          (case authorized_Append (ahKeys H) authorized line w of
             ((Inl err, w'), a) \<Rightarrow> Some (Inl err, w')
           | ((Inr u, w'), a) \<Rightarrow>
               call (Stdout (''authorized; %s now holds %d key(s)'' @ nl) [authPath, utoa (authorized_Len a)]) w')))))"

definition runHostKey :: "('p, 's, 'k, 't, 'c, 'r, 'u) agent_host \<Rightarrow> flags \<Rightarrow> unit io" where
  "runHostKey H cmd =
     io_bind (io_lift (agentPath (ahEnv H) (flagString cmd ''host-key'') ''host_key'')) (\<lambda>path.
     io_bind (LoadOrCreateHostKey (ahHostKeys H) (ahGenHost H) path) (\<lambda>signer.
     Stdout (''%s'' @ nl @ ''%s %s'' @ nl) [path, ahKeyType H signer, ahFingerprint H signer]))"

text \<open>The certificate's fingerprint, when there is a certificate.\<close>

definition cert_fingerprint ::
    "('p, 's, 'k, 't, 'c, 'r, 'u) agent_host \<Rightarrow> flags \<Rightarrow> string \<Rightarrow> string \<Rightarrow> bytes io" where
  "cert_fingerprint H cmd certPath keyPath =
     io_bind (LoadOrCreateTLSCert (ahTLS H) (ahEnv H) (ahGenTLS H) certPath keyPath (flagSlice cmd ''tls-host'')) (\<lambda>cert.
     io_lift (LeafFingerprint (Some cert)))"

definition init_token_path :: "env \<Rightarrow> flags \<Rightarrow> string result" where
  "init_token_path env cmd =
     (if flagString cmd ''token-file'' = '''' then agentPath env '''' ''token'' else Inr (flagString cmd ''token-file''))"

definition runInit :: "('p, 's, 'k, 't, 'c, 'r, 'u) agent_host \<Rightarrow> flags \<Rightarrow> unit prog" where
  "runInit H cmd =
     prog_bind (pure (agentPath (ahEnv H) (flagString cmd ''host-key'') ''host_key'')) (\<lambda>hostKeyPath.
     prog_bind (pure (agentPath (ahEnv H) (flagString cmd ''authorized-keys'') ''authorized_keys'')) (\<lambda>authPath.
     prog_bind (pure (init_token_path (ahEnv H) cmd)) (\<lambda>tokenPath.
     prog_bind (call (LoadOrCreateHostKey (ahHostKeys H) (ahGenHost H) hostKeyPath)) (\<lambda>signer.
     prog_bind (call (Stdout (''ssh host key    %s'' @ nl) [ahFingerprint H signer])) (\<lambda>_.
     prog_bind (pure (resolveTLS (ahEnv H) cmd)) (\<lambda>(certPath, keyPath, auto).
     prog_bind (call (if certPath \<noteq> '''' \<and> keyPath \<noteq> '''' then
         io_bind (cert_fingerprint H cmd certPath keyPath) (\<lambda>fp. Stdout (''tls certificate %s'' @ nl) [fp])
       else Stdout (''tls certificate (none: --h2c, cleartext behind an L4 proxy)'' @ nl) [])) (\<lambda>_.
     prog_bind (call (ensureToken (ahGenToken H) tokenPath (flagBool cmd ''force''))) (\<lambda>created.
     prog_bind (call (if created then Stdout (''token           written to %s'' @ nl) [tokenPath]
       else Stdout (''token           kept, already at %s (--force to replace)'' @ nl) [tokenPath])) (\<lambda>_.
     prog_bind (LoadAuthorizedKeys (ahKeys H) authPath) (\<lambda>authorized.
     prog_bind (call (Stdout nl [])) (\<lambda>_.
     prog_bind (call (if authorized_Len authorized = 0 then
         Stdout (''No keys are authorized yet, so every session will be refused:'' @ nl @
           ''  san_tunnels server authorize '' @ [CHR 0x22] @ ''$(cat ~/.ssh/id_ed25519.pub)'' @ [CHR 0x22] @ nl @ nl) []
       else io_return ())) (\<lambda>_.
     call (Stdout (''Then run the agent, and hand an entry host its registration token:'' @ nl @
       ''  san_tunnels server --token-file %s'' @ nl @
       ''  san_tunnels server invite --url https://<this host>:8443'' @ nl) [tokenPath])))))))))))))"

text \<open>The token file of an invite: the flag, else the default one if there is such a file.\<close>

definition invite_token_path :: "env \<Rightarrow> flags \<Rightarrow> string io" where
  "invite_token_path env cmd w =
     (if flagString cmd ''token-file'' \<noteq> '''' then (Inr (flagString cmd ''token-file''), w)
      else case agentPath env '''' ''token'' of
          Inl e \<Rightarrow> (Inr '''', w)
        | Inr p \<Rightarrow> (case Stat p w of (Inl e, w') \<Rightarrow> (Inr '''', w') | (Inr u, w') \<Rightarrow> (Inr p, w')))"

definition runInvite :: "('p, 's, 'k, 't, 'c, 'r, 'u) agent_host \<Rightarrow> flags \<Rightarrow> unit io" where
  "runInvite H cmd =
     (if flagString cmd ''url'' = '''' then
        io_fail (errors_new (''--url is required: the address entry hosts reach this agent on, '' @
          ''e.g. https://box-01.example:8443''))
      else
        io_bind (io_lift (agentPath (ahEnv H) (flagString cmd ''host-key'') ''host_key'')) (\<lambda>hostKeyPath.
        io_bind (LoadOrCreateHostKey (ahHostKeys H) (ahGenHost H) hostKeyPath) (\<lambda>signer.
        io_bind (invite_token_path (ahEnv H) cmd) (\<lambda>tokenPath.
        io_bind (resolveToken (flagString cmd ''token'') tokenPath) (\<lambda>token.
        io_bind (io_lift (resolveTLS (ahEnv H) cmd)) (\<lambda>(certPath, keyPath, auto).
        io_bind (if certPath \<noteq> '''' \<and> keyPath \<noteq> '''' then cert_fingerprint H cmd certPath keyPath else io_return '''') (\<lambda>fp.
        io_bind (io_lift (invite_Encode \<lparr>invURL = flagString cmd ''url'', invToken = token, invTLSFingerprint = fp,
            invHostKey = ahFingerprint H signer, invUser = flagString cmd ''user''\<rparr>)) (\<lambda>blob.
        io_bind (Stdout (''%s'' @ nl) [blob]) (\<lambda>_.
        io_bind (Stderr (nl @ ''Register it on the entry host:'' @ nl @
          ''  san_tunnels client add <name> --from <the string above>'' @ nl) []) (\<lambda>_.
        if token \<noteq> '''' then
          Stderr (nl @ ''This carries the agent's token: treat it as a password. It grants a'' @ nl @
            ''tunnel to anyone who holds it -- an SSH key is still needed for a shell,'' @ nl @
            ''but any allowlisted TCP endpoint is not behind one.'' @ nl) []
        else io_return ()))))))))))"

definition runFingerprint :: "('p, 's, 'k, 't, 'c, 'r, 'u) agent_host \<Rightarrow> flags \<Rightarrow> unit io" where
  "runFingerprint H cmd =
     io_bind (io_lift (agentPath (ahEnv H) (flagString cmd ''host-key'') ''host_key'')) (\<lambda>hostKeyPath.
     io_bind (LoadOrCreateHostKey (ahHostKeys H) (ahGenHost H) hostKeyPath) (\<lambda>signer.
     io_bind (io_lift (resolveTLS (ahEnv H) cmd)) (\<lambda>(certPath, keyPath, auto).
     io_bind (Stdout (''ssh host key   %s %s'' @ nl) [ahKeyType H signer, ahFingerprint H signer]) (\<lambda>_.
     if certPath = '''' \<or> keyPath = '''' then
       Stdout (''tls certificate  (none: agent is configured for cleartext h2c)'' @ nl) []
     else
       io_bind (cert_fingerprint H cmd certPath keyPath) (\<lambda>fp.
       io_bind (Stdout (''tls certificate %s'' @ nl) [fp]) (\<lambda>_.
       Stdout (nl @ ''Pin it in the client config:'' @ nl @ ''  '' @ [CHR 0x22] @ ''tls_fingerprint'' @ [CHR 0x22]
         @ '': %q'' @ nl) [fp]))))))"

text \<open>The endpoints are printed in the unspecified order of the map.\<close>

fun print_endpoints :: "(string \<times> string) list \<Rightarrow> unit io" where
  "print_endpoints [] = io_return ()"
| "print_endpoints ((name, addr) # es) =
     io_bind (Stdout (''%-16s %s'' @ nl) [name, addr]) (\<lambda>_. print_endpoints es)"

definition runEndpoints :: "flags \<Rightarrow> unit io" where
  "runEndpoints cmd =
     io_bind (io_lift (parseEndpoints (flagSlice cmd ''endpoint''))) (\<lambda>endpoints.
     io_bind (Stdout (''%-16s %s'' @ nl) [ShellEndpoint, ''embedded ssh server (in-process, no socket)'']) (\<lambda>_.
     print_endpoints endpoints))"

subsection \<open>Lemmas\<close>

lemma path_clean_nonempty [simp]: "path_clean p \<noteq> []"
  by (simp add: path_clean_def Let_def)

lemma agentPath_nonempty: "agentPath env flag name = Inr p \<Longrightarrow> p \<noteq> []"
  by (auto simp: agentPath_def path_join_def split: if_splits sum.splits)

text \<open>Without \<^verbatim>\<open>--h2c\<close> there is always a certificate.\<close>

lemma resolveTLS_tls:
  assumes "resolveTLS env cmd = Inr (c, k, auto)" and "\<not> flagBool cmd ''h2c''"
  shows "c \<noteq> [] \<and> k \<noteq> []"
proof (cases "flagString cmd ''tls-cert'' \<noteq> [] \<and> flagString cmd ''tls-key'' \<noteq> []")
  case False
  with assms have "agentPath env [] ''tls_cert.pem'' = Inr c" "agentPath env [] ''tls_key.pem'' = Inr k"
    by (auto simp: resolveTLS_def Let_def bind_result_eq_Inr split: if_splits)
  then show ?thesis by (auto dest: agentPath_nonempty)
qed (use assms in \<open>auto simp: resolveTLS_def\<close>)

text \<open>A good \<^verbatim>\<open>--endpoint\<close>.\<close>

definition good_endpoint :: "string \<Rightarrow> bool" where
  "good_endpoint v \<longleftrightarrow> (\<exists>name addr. cut v (CHR ''='') = Some (name, addr)
     \<and> name \<noteq> [] \<and> addr \<noteq> [] \<and> name \<noteq> ShellEndpoint)"

lemma parse_endpoints_good:
  "(case parse_endpoints vs out of
      Inl e \<Rightarrow> \<not> list_all good_endpoint vs
    | Inr out' \<Rightarrow> list_all good_endpoint vs
        \<and> map_of out' = map_of out ++ map_of (rev (map (\<lambda>v. the (cut v (CHR ''=''))) vs)))"
proof (induction vs arbitrary: out)
  case (Cons v vs)
  show ?case
  proof (cases "good_endpoint v")
    case True
    then obtain name addr where c: "cut v (CHR ''='') = Some (name, addr)" "name \<noteq> []" "addr \<noteq> []" "name \<noteq> ShellEndpoint"
      by (auto simp: good_endpoint_def)
    with True Cons.IH [of "AList.update name addr out"] show ?thesis
      by (auto simp: map_add_def fun_eq_iff split: sum.splits option.splits)
  next
    case False
    then show ?thesis by (auto simp: good_endpoint_def split: option.splits)
  qed
qed simp

lemma parse_endpoints_distinct:
  "parse_endpoints vs out = Inr out' \<Longrightarrow> distinct (map fst out) \<Longrightarrow> distinct (map fst out')"
  by (induction vs out rule: parse_endpoints.induct) (auto split: option.splits if_splits simp: distinct_update)

text \<open>A server that is set up is one of the resolved token, and is on TLS if the options are.\<close>

lemma Serve_cong:
  assumes "\<And>sv. (svTLS sv = Cleartext \<longrightarrow> \<not> use_tls opts) \<Longrightarrow> hoToken (svHandler sv) = soToken opts \<Longrightarrow> run sv = run' sv"
  shows "Serve L env en run opts w = Serve L env en run' opts w"
proof -
  obtain r w' where s: "serve_setup L env en opts w = (r, w')" by (metis surj_pair)
  show ?thesis
  proof (cases r)
    case (Inr sv)
    with serve_setup_Inr [of L env en opts w sv w'] s assms [of sv] show ?thesis by (simp add: Serve_def io_bind_def)
  qed (use s in \<open>simp add: Serve_def io_bind_def\<close>)
qed

lemma prog_bind_cong:
  "(\<And>x w'. m w = Some (Inr x, w') \<Longrightarrow> f x w' = g x w') \<Longrightarrow> prog_bind m f w = prog_bind m g w"
  by (auto simp: prog_bind_def split: option.splits sum.splits)

subsection \<open>Properties\<close>

text \<open>
  C30: \<^verbatim>\<open>--endpoint\<close> flags are accepted exactly when each is a name, an equals sign and an address, the
  name not the reserved one; the allowlist then maps each name to the address given last. The service
  built from it sends the reserved name, and no other, to the SSH server.
\<close>

theorem parseEndpoints_allowlist:
  "(case parseEndpoints vals of
      Inl e \<Rightarrow> \<not> list_all good_endpoint vals
    | Inr out \<Rightarrow> list_all good_endpoint vals
        \<and> map_of out = map_of (rev (map (\<lambda>v. the (cut v (CHR ''=''))) vals))
        \<and> (\<exists>svc. NewService (Some h) out = Inr svc
            \<and> (\<forall>name addr. Resolve svc name = Inr addr \<longrightarrow> (addr = [] \<longleftrightarrow> name = ShellEndpoint))
            \<and> (\<forall>name. name \<noteq> ShellEndpoint \<longrightarrow> map_of (endpoints svc) name = map_of out name)))"
proof (cases "parseEndpoints vals")
  case (Inl e)
  with parse_endpoints_good [of vals "[]"] show ?thesis by (simp add: parseEndpoints_def)
next
  case (Inr out)
  then have out: "list_all good_endpoint vals" "map_of out = map_of (rev (map (\<lambda>v. the (cut v (CHR ''=''))) vals))"
    using parse_endpoints_good [of vals "[]"] by (simp_all add: parseEndpoints_def)
  have good: "name \<noteq> ShellEndpoint \<and> addr \<noteq> []" if "map_of out name = Some addr" for name addr
  proof -
    from that out(2) have "(name, addr) \<in> set (map (\<lambda>v. the (cut v (CHR ''=''))) vals)"
      by (metis map_of_SomeD set_rev)
    with out(1) show ?thesis by (force simp: list_all_iff good_endpoint_def)
  qed
  then have "map_of out ShellEndpoint = None" by (metis not_None_eq)
  then obtain svc where svc: "NewService (Some h) out = Inr svc" "endpoints svc = copy_map out []"
    by (simp add: NewService_def)
  have map: "map_of (endpoints svc) = map_of (rev out)" using svc(2) by (simp add: map_of_copy_map)
  have "distinct (map fst out)"
    using Inr by (simp add: parseEndpoints_def parse_endpoints_distinct)
  then have same: "map_of (endpoints svc) = map_of out"
    unfolding map by (intro map_of_inject_set [THEN iffD2]) (simp_all add: rev_map [symmetric])
  have "addr = [] \<longleftrightarrow> name = ShellEndpoint" if "Resolve svc name = Inr addr" for name addr
    using that good [of name addr] same by (auto simp: Resolve_def split: if_splits option.splits)
  with Inr out svc same show ?thesis by simp
qed

lemma parseEndpoints_allowlist_witness:
  "\<exists>out svc. parseEndpoints [''db=h:5432'', ''db=h:5433''] = Inr out \<and> map_of out ''db'' = Some ''h:5433''
    \<and> NewService (Some ()) out = Inr svc \<and> map_of (endpoints svc) ''db'' = Some ''h:5433''
    \<and> (\<forall>name addr. Resolve svc name = Inr addr \<longrightarrow> (addr = [] \<longleftrightarrow> name = ShellEndpoint))"
proof -
  have good: "list_all good_endpoint [''db=h:5432'', ''db=h:5433'']"
    by (simp add: good_endpoint_def cut_def ShellEndpoint_def)
  with parseEndpoints_allowlist [of "[''db=h:5432'', ''db=h:5433'']" "()"]
  obtain out svc where "parseEndpoints [''db=h:5432'', ''db=h:5433''] = Inr out"
    "map_of out = map_of (rev (map (\<lambda>v. the (cut v (CHR ''=''))) [''db=h:5432'', ''db=h:5433'']))"
    "NewService (Some ()) out = Inr svc"
    "\<forall>name addr. Resolve svc name = Inr addr \<longrightarrow> (addr = [] \<longleftrightarrow> name = ShellEndpoint)"
    "\<forall>name. name \<noteq> ShellEndpoint \<longrightarrow> map_of (endpoints svc) name = map_of out name"
    by (auto split: sum.splits)
  then show ?thesis by (auto simp: cut_def ShellEndpoint_def)
qed

text \<open>
  C29: an agent never serves in the clear unless it was told to: without \<^verbatim>\<open>--h2c\<close> what a run of
  \<^verbatim>\<open>server\<close> does depends only on servers on TLS, and in every case only on servers that demand the
  token that was given by flag or file.
\<close>

theorem runServer_encrypts:
  assumes "\<And>sv. (svTLS sv = Cleartext \<longrightarrow> flagBool cmd ''h2c'') \<Longrightarrow>
      fst (resolveToken (flagString cmd ''token'') (flagString cmd ''token-file'') w) = Inr (hoToken (svHandler sv)) \<Longrightarrow>
      run sv = run' sv"
  shows "runServer H run cmd w = runServer H run' cmd w"
proof -
  have serve: "Serve (ahTLS H) (ahEnv H) (ahGenTLS H) run opts v = Serve (ahTLS H) (ahEnv H) (ahGenTLS H) run' opts v"
    if "resolveTLS (ahEnv H) cmd = Inr (c, k, a)" "soTLSCert opts = c" "soTLSKey opts = k"
      "fst (resolveToken (flagString cmd ''token'') (flagString cmd ''token-file'') w) = Inr (soToken opts)"
    for opts v c k a
    using that resolveTLS_tls [OF that(1)] by (intro Serve_cong assms) (auto simp: use_tls_def)
  show ?thesis
    unfolding runServer_def
    by (intro prog_bind_cong, clarsimp, intro prog_bind_cong) (auto simp: call_def serve)
qed

definition demo_flags :: flags where
  "demo_flags = \<lparr>flagString = (\<lambda>n. if n = ''url'' then ''https://box:8443'' else if n = ''token'' then ''t'' else ''''),
     flagBool = (\<lambda>n. False), flagInt = (\<lambda>n. 0), flagDuration = (\<lambda>n. 0), flagSlice = (\<lambda>n. []), flagIsSet = (\<lambda>n. False), flagArgs = []\<rparr>"

definition demo_host :: "(bytes, bytes, bytes, bytes, unit, unit, unit) agent_host" where
  "demo_host = \<lparr>ahEnv = demo_env, ahOs = \<lparr>goos = ''linux'', getenv = (\<lambda>v. ''''), environ = []\<rparr>,
     ahHostKeys = demo_host_key_lib, ahKeys = demo_key_lib, ahTLS = demo_tls_lib,
     ahMaps = \<lparr>channelHandlers = [], requestHandlers = [], subsystemHandlers = []\<rparr>,
     ahGenHost = Inr ''hk'', ahGenTLS = demo_entropy ''tk'', ahGenToken = Inr (replicate 32 (CHR ''x'')),
     ahKeyType = (\<lambda>s. ''ssh-ed25519''), ahFingerprint = (\<lambda>s. ''SHA256:'' @ s)\<rparr>"

lemma runServer_encrypts_witness:
  "runServer demo_host (\<lambda>sv. if svTLS sv = Cleartext then ContextDone None else ListenerEnded EOF) demo_flags empty_world
    = runServer demo_host (\<lambda>sv. ListenerEnded EOF) demo_flags empty_world"
  by (rule runServer_encrypts) (simp add: demo_flags_def)

text \<open>
  C35: a token that is there is kept unless it is to be replaced; a token that is made is what the
  agent, started with that file, will demand: the 32 random bytes in 43 printable characters, in a
  file of mode 0600 if it is new.
\<close>

theorem ensureToken_token:
  assumes "faults w = []" and "path \<noteq> []" and "length buf = 32"
  shows "(if files w path \<noteq> None \<and> \<not> force then ensureToken rnd path force w = (Inr False, w)
    else \<exists>w'. ensureToken (Inr buf) path force w = (Inr True, w')
      \<and> resolveToken [] path w' = (Inr (b64_encode url_alphabet buf), w')
      \<and> length (b64_encode url_alphabet buf) = 43 \<and> list_all plain (b64_encode url_alphabet buf)
      \<and> (files w path = None \<longrightarrow> files w' path = Some (b64_encode url_alphabet buf @ nl, mode_600)))"
proof (cases "files w path \<noteq> None \<and> \<not> force")
  case True
  then obtain f where "files w path = Some f" by blast
  with True assms(1) show ?thesis by (simp add: ensureToken_def Stat_def take_fault_def Let_def)
next
  case False
  let ?t = "b64_encode url_alphabet buf"
  have plain: "list_all plain ?t" using plain_b64_encode [OF _ plain_url] by (simp add: url_alphabet_def)
  have trim: "trim_space (?t @ nl) = ?t"
    using trim_space_around [of "[]" nl ?t] plain by (simp add: nl_def plain_def [abs_def] ascii_def is_space_def)
  have len: "length ?t = 43" using assms(3) by (simp add: b64_encode_def length_b64_digits)
  obtain w1 where w1: "MkdirAll (path_dir path) mode_700 w = (Inr (), w1)" "faults w1 = []" "files w1 = files w"
    using quiet_MkdirAll [OF assms(1)] by blast
  have "ensureToken (Inr buf) path force w = (Inr True, put_file path (?t @ nl) mode_600 w1)"
    using False w1 assms(1)
    by (auto simp: ensureToken_def Stat_def take_fault_def Let_def io_bind_def wrap_err_def quiet_WriteFile)
  moreover have "resolveToken [] path (put_file path (?t @ nl) mode_600 w1) = (Inr ?t, put_file path (?t @ nl) mode_600 w1)"
    using assms(2) w1(2) trim by (simp add: resolveToken_def io_bind_def wrap_err_def quiet_ReadFile)
  ultimately show ?thesis using False len plain w1(3) by (auto simp: file_mode_def)
qed

lemma ensureToken_token_witness:
  "\<exists>w'. ensureToken (Inr (replicate 32 (CHR ''x''))) ''/t'' False empty_world = (Inr True, w')
    \<and> (\<exists>tok. resolveToken [] ''/t'' w' = (Inr tok, w') \<and> length tok = 43)"
  using ensureToken_token [of empty_world "''/t''" "replicate 32 (CHR ''x'')" False]
  by (auto simp: empty_world_def)

end
