(* ===== verification/Cli_Client.thy ===== *)
theory Cli_Client
  imports Cli_Agent Connect
begin

text \<open>
  The commands of \<^verbatim>\<open>san_tunnels client\<close> in \<^verbatim>\<open>cmd/san_tunnels/main.go\<close>, and \<^verbatim>\<open>main\<close> itself.
  Opening a tunnel (\<open>Client\<close>), listening and probing are arguments, as in \<open>Connect\<close>; the store of known
  agents and the trust notice, which the source keeps in fields of the target, are returned with it.
\<close>

subsection \<open>Configuration and target\<close>

definition loadClientConfig :: "env \<Rightarrow> flags \<Rightarrow> (config \<times> string) io" where
  "loadClientConfig env cmd =
     io_bind (io_lift (if flagString cmd ''config'' = '''' then DefaultConfigPath env
                       else Inr (flagString cmd ''config''))) (\<lambda>path.
     io_bind (LoadConfig path) (\<lambda>cfg. io_return (cfg, path)))"

type_synonym resolved = "target \<times> known_agents option \<times> on_trust"

text \<open>The store is used only when it could be located and read.\<close>

definition known_store :: "env \<Rightarrow> (known_agents option \<times> on_trust) io" where
  "known_store env w =
     (case DefaultKnownAgentsPath env of
        Inl e \<Rightarrow> (Inr (None, None), w)
      | Inr knownPath \<Rightarrow>
          (case LoadKnownAgents knownPath w of
             (Inl e, w') \<Rightarrow> (Inr (None, None), w')
           | (Inr known, w') \<Rightarrow> (Inr (Some known, Some (announce_trust knownPath)), w')))"

definition override_target :: "flags \<Rightarrow> target \<Rightarrow> target" where
  "override_target cmd t =
     t\<lparr>tgToken := (if flagString cmd ''token'' \<noteq> '''' then flagString cmd ''token'' else tgToken t),
       tgInsecure := (flagBool cmd ''insecure'' \<or> tgInsecure t),
       tgTLSFingerprint := (if flagString cmd ''tls-fingerprint'' \<noteq> '''' then flagString cmd ''tls-fingerprint''
                            else tgTLSFingerprint t)\<rparr>"

definition resolveTarget :: "env \<Rightarrow> flags \<Rightarrow> resolved io" where
  "resolveTarget env cmd =
     (if arg cmd 0 = '''' then io_fail (errors_new ''give an agent name'')
      else
        io_bind (loadClientConfig env cmd) (\<lambda>(cfg, path).
        io_bind (io_lift (config_Resolve cfg (arg cmd 0))) (\<lambda>t.
        io_bind (known_store env) (\<lambda>(known, onTrust).
        if flagString cmd ''transport'' \<noteq> '''' then
          io_bind (io_lift (ParseTransport (flagString cmd ''transport''))) (\<lambda>tr.
          io_return ((override_target cmd t)\<lparr>tgTransport := tr\<rparr>, known, onTrust))
        else io_return (override_target cmd t, known, onTrust)))))"

subsection \<open>proxy and connect\<close>

definition runProxy ::
    "env \<Rightarrow> (resolved \<Rightarrow> string \<Rightarrow> 'c result) \<Rightarrow> sock \<Rightarrow> flags \<Rightarrow> (sock, 'c) session io" where
  "runProxy env opened stdio cmd =
     io_bind (resolveTarget env cmd) (\<lambda>rt.
     io_lift (proxy_start (opened rt (flagString cmd ''endpoint'')) stdio))"

definition listenAddr :: "string \<Rightarrow> target \<Rightarrow> string" where
  "listenAddr flag t =
     (if flag \<noteq> '''' then flag
      else if tgPort t \<noteq> 0 then JoinHostPort ''127.0.0.1'' (itoa (tgPort t))
      else DefaultListen)"

text \<open>\<^verbatim>\<open>net.SplitHostPort\<close>: at the last colon, with brackets around a host that has colons.\<close>

definition SplitHostPort :: "string \<Rightarrow> (string \<times> string) option" where
  "SplitHostPort s =
     (case cut (rev s) (CHR '':'') of
        None \<Rightarrow> None
      | Some (rp, rh) \<Rightarrow>
          let port = rev rp; before = rev rh in
          if has_prefix s ''['' then
            (case cut s (CHR '']'') of
               None \<Rightarrow> None
             | Some (h, after) \<Rightarrow>
                 if after \<noteq> CHR '':'' # port \<or> CHR ''['' \<in> set (tl s) \<or> CHR '']'' \<in> set after then None
                 else Some (tl h, port))
          else if CHR '':'' \<in> set before \<or> CHR ''['' \<in> set s \<or> CHR '']'' \<in> set s then None
          else Some (before, port))"

definition connect_ready :: "target \<Rightarrow> string \<Rightarrow> string \<Rightarrow> unit io" where
  "connect_ready t endpoint addr =
     io_bind (Stdout (''listening on %s -> %s (%s)'' @ nl @ nl) [addr, tgName t, endpoint]) (\<lambda>_.
     io_bind (case SplitHostPort addr of
         None \<Rightarrow> io_return ()
       | Some (host, port) \<Rightarrow>
           if endpoint = ShellEndpoint then
             let user = (if tgUser t = '''' then ''<user>'' else tgUser t); alias = HostAlias (tgName t) in
             io_bind (Stdout (''  ssh -p %s -o HostKeyAlias=%s %s@localhost'' @ nl @ nl) [port, alias, user]) (\<lambda>_.
             Stdout (''HostKeyAlias keeps known_hosts keyed on %s rather than on the port,'' @ nl @
               ''so the host key stays pinned to this agent even if the port moves.'' @ nl @
               ''For a client that cannot set it, run `san_tunnels client hosts`.'' @ nl) [alias])
           else
             io_bind (Stdout (''  point any client at localhost:%s'' @ nl @ nl) [port]) (\<lambda>_.
             Stdout (''Anyone on this machine can use this port while it is open: a TCP'' @ nl @
               ''endpoint has no SSH layer behind it, only the token you already hold.'' @ nl) [])) (\<lambda>_.
     Stdout (nl @ ''Ctrl-C to close.'' @ nl) []))"

definition port_advice :: "target \<Rightarrow> go_error \<Rightarrow> go_error" where
  "port_advice t err =
     Errorf (''%w'' @ nl @ nl @
       ''Agent %q is pinned to port %d in the client config, and is not moved to a'' @ nl @
       ''free port on purpose: ssh records the port in known_hosts, so drifting would'' @ nl @
       ''look like the host key changed. Free that port, or change '' @ [CHR 0x22] @ ''port'' @ [CHR 0x22] @ '' for %q.'')
       [tgName t, itoa (tgPort t), tgName t] (Some err)"

definition runConnect ::
    "env \<Rightarrow> (resolved \<Rightarrow> string \<Rightarrow> 'c result list) \<Rightarrow> (string \<Rightarrow> string result) \<Rightarrow> bool \<Rightarrow> sock result list \<Rightarrow> flags
     \<Rightarrow> world \<Rightarrow> ((sock + (sock, 'c) session) list \<times> go_error option) option \<times> world" where
  "runConnect env opened listen stopped accepts cmd w =
     (case resolveTarget env cmd w of
        (Inl err, w') \<Rightarrow> (Some ([], Some err), w')
      | (Inr rt, w') \<Rightarrow>
          let t = fst rt; endpoint = flagString cmd ''endpoint'';
              addr = listenAddr (flagString cmd ''listen'') t in
          (case Listen listen stopped addr (\<lambda>a v. snd (connect_ready t endpoint a v)) accepts (opened rt endpoint) w' of
             (r, w'') \<Rightarrow>
               (map_option (\<lambda>(served, err).
                   (served,
                    case err of
                      None \<Rightarrow> None
                    | Some e \<Rightarrow> if tgPort t \<noteq> 0 \<and> \<not> flagIsSet cmd ''listen'' then Some (port_advice t e) else Some e)) r,
                w'')))"

subsection \<open>add\<close>

text \<open>A \<^verbatim>\<open>bufio.Scanner\<close> over standard input: one line, of less than 64 KiB.\<close>

definition scan_line :: "bytes \<Rightarrow> bytes \<times> bytes" where
  "scan_line s =
     (case cut s (CHR 0x0A) of
        None \<Rightarrow> (trim_suffix s [CHR 0x0D], [])
      | Some (l, rest') \<Rightarrow> (trim_suffix l [CHR 0x0D], rest'))"

definition prompt :: "env \<Rightarrow> string \<Rightarrow> bytes io" where
  "prompt env label =
     (if \<not> terminal env then
        io_fail (Errorf ''%s is required (stdin is not a terminal, so there is nobody to ask)'' [label] None)
      else
        io_bind (Stderr ''%s: '' [label]) (\<lambda>_ w.
        (case stdin w of
           Inl e \<Rightarrow> (Inl (Errorf ''read %s: %w'' [label] (Some e)), w)
         | Inr s \<Rightarrow>
             if s = [] then (Inl (Errorf ''no %s given'' [label] None), w)
             else if length (takeWhile (\<lambda>c. c \<noteq> CHR 0x0A) s) \<ge> 65536 then
               (Inl (Errorf ''read %s: %w'' [label] (Some (OsErr ''bufio.Scanner: token too long''))), w)
             else (case scan_line s of (l, s') \<Rightarrow> (Inr (trim_space l), w\<lparr>stdin := Inr s'\<rparr>)))))"

definition entry_of_flags :: "flags \<Rightarrow> agent" where
  "entry_of_flags cmd =
     \<lparr>agURL = arg cmd 1, agToken = flagString cmd ''token'', agUser = flagString cmd ''user'',
      agInsecure = flagBool cmd ''insecure'', agTLSFingerprint = flagString cmd ''tls-fingerprint'',
      agPort = flagInt cmd ''port'', agTransport = flagString cmd ''transport''\<rparr>"

definition entry_of_invite :: "invite \<Rightarrow> agent \<Rightarrow> agent" where
  "entry_of_invite iv a =
     a\<lparr>agURL := invURL iv,
       agToken := (if agToken a = '''' then invToken iv else agToken a),
       agUser := (if agUser a = '''' then invUser iv else agUser a),
       agTLSFingerprint := (if agTLSFingerprint a = '''' then invTLSFingerprint iv else agTLSFingerprint a)\<rparr>"

definition show_host_key :: "invite \<Rightarrow> unit io" where
  "show_host_key iv =
     (if invHostKey iv \<noteq> '''' then
        Stderr (''ssh host key in the invite: %s'' @ nl @ ''  compare it with what ssh shows on first connect.'' @ nl)
          [invHostKey iv]
      else io_return ())"

definition probe_entry :: "url_parser \<Rightarrow> (string \<Rightarrow> bytes list result) \<Rightarrow> agent \<Rightarrow> agent io" where
  "probe_entry parse dial a =
     (case ProbeFingerprint parse dial (agURL a) of
        Inl perr \<Rightarrow>
          io_bind (StderrErr (''could not read the agent's certificate (%v);'' @ nl @
            ''  adding it unpinned -- the first connection will record whatever it sees.'' @ nl) [] perr) (\<lambda>_. io_return a)
      | Inr fp \<Rightarrow>
          if fp \<noteq> '''' then
            io_bind (Stderr (''certificate pinned %s'' @ nl @
              ''  this came from the connection it authenticates, so verify it against'' @ nl @
              ''  `san_tunnels server fingerprint` on the agent.'' @ nl) [fp]) (\<lambda>_.
            io_return (a\<lparr>agTLSFingerprint := fp\<rparr>))
          else io_return a)"

definition program_path :: "env \<Rightarrow> string" where
  "program_path env = (case executable env of Inl e \<Rightarrow> ''san_tunnels'' | Inr exe \<Rightarrow> if exe = '''' then ''san_tunnels'' else exe)"

text \<open>The entry that \<^verbatim>\<open>runAdd\<close> will save.\<close>

definition add_entry :: "env \<Rightarrow> url_parser \<Rightarrow> (string \<Rightarrow> bytes list result) \<Rightarrow> flags \<Rightarrow> agent io" where
  "add_entry env parse dial cmd =
     (let blob = flagString cmd ''from''; e0 = entry_of_flags cmd in
      io_bind (if blob \<noteq> '''' then
          io_bind (io_lift (invite_Decode blob)) (\<lambda>iv.
          io_bind (show_host_key iv) (\<lambda>_. io_return (entry_of_invite iv e0)))
        else io_return e0) (\<lambda>e1.
      io_bind (if agURL e1 = '''' then prompt env ''agent url (e.g. https://box-01.example:8443)''
               else io_return (agURL e1)) (\<lambda>url.
      if url = '''' then io_fail (errors_new ''give the agent's url'')
      else let e2 = e1\<lparr>agURL := url\<rparr> in
        if blob = '''' \<and> agTLSFingerprint e2 = '''' \<and> \<not> agInsecure e2 then probe_entry parse dial e2
        else io_return e2)))"

definition runAdd :: "env \<Rightarrow> url_parser \<Rightarrow> (string \<Rightarrow> bytes list result) \<Rightarrow> flags \<Rightarrow> unit io" where
  "runAdd env parse dial cmd =
     io_bind (if arg cmd 0 = '''' then prompt env ''agent name'' else io_return (arg cmd 0)) (\<lambda>name.
     if name = '''' then io_fail (errors_new ''give an agent name'')
     else
       io_bind (loadClientConfig env cmd) (\<lambda>(cfg, path).
       if map_of (agent_map cfg) name \<noteq> None \<and> \<not> flagBool cmd ''force'' then
         io_fail (Errorf ''agent %q is already in %s; pass --force to replace it'' [name, path] None)
       else
         io_bind (add_entry env parse dial cmd) (\<lambda>entry.
         let cfg' = config_Set cfg name entry in
         io_bind (config_Save cfg' path) (\<lambda>_.
         io_bind (Stdout (''added %s -> %s (%s)'' @ nl) [name, agURL entry, path]) (\<lambda>_.
         io_bind (io_lift (config_Resolve cfg' name)) (\<lambda>t.
         io_bind (Stdout (nl @ ''%s'') [SSHConfigBlock t (program_path env)]) (\<lambda>_.
         Stdout (nl @ ''Check it with: san_tunnels client check %s'' @ nl) [name])))))))"

subsection \<open>hosts, config, check and list\<close>

definition hostsFilePath :: "os_host \<Rightarrow> string" where
  "hostsFilePath h =
     (if goos h = ''windows'' then
        ''C:'' @ [CHR 0x5C] @ ''Windows'' @ [CHR 0x5C] @ ''System32'' @ [CHR 0x5C] @ ''drivers'' @ [CHR 0x5C]
        @ ''etc'' @ [CHR 0x5C] @ ''hosts''
      else ''/etc/hosts'')"

definition hostsFileNote :: "os_host \<Rightarrow> string" where
  "hostsFileNote h = (if goos h = ''windows'' then '' (needs Administrator)'' else '' (needs root)'')"

fun print_hosts :: "bytes list \<Rightarrow> unit io" where
  "print_hosts [] = io_return ()"
| "print_hosts (n # ns) = io_bind (Stdout (''127.0.0.1  %s'' @ nl) [HostAlias n]) (\<lambda>_. print_hosts ns)"

definition runHosts :: "env \<Rightarrow> os_host \<Rightarrow> flags \<Rightarrow> unit io" where
  "runHosts env h cmd =
     io_bind (loadClientConfig env cmd) (\<lambda>(cfg, path).
     let names = config_Names cfg in
     if names = [] then Stdout (''no agents configured in %s'' @ nl) [path]
     else
       io_bind (Stdout (''# add to %s%s'' @ nl) [hostsFilePath h, hostsFileNote h]) (\<lambda>_.
       io_bind (print_hosts names) (\<lambda>_.
       Stdout (nl @ ''Only needed for clients that cannot set HostKeyAlias -- PuTTY, WinSCP and'' @ nl @
         ''most GUI tools -- which otherwise file every agent's host key under'' @ nl @
         ''localhost and cannot tell them apart. With these lines they reach an agent'' @ nl @
         ''by name, and store its key under that name.'' @ nl @ nl @
         ''`ssh` itself needs none of this: `client connect` prints a HostKeyAlias.'' @ nl) [])))"

definition runSSHConfig :: "env \<Rightarrow> flags \<Rightarrow> unit io" where
  "runSSHConfig env cmd =
     io_bind (resolveTarget env cmd) (\<lambda>(t, known, onTrust).
     Stdout ''%s'' [SSHConfigBlock t (program_path env)])"

text \<open>\<open>check\<close>: the outcome of \<^verbatim>\<open>client.Check\<close> (\<open>Connect\<close>); \<open>None\<close>: it does not return.\<close>

definition runCheck :: "env \<Rightarrow> (resolved \<Rightarrow> int \<Rightarrow> go_error option option) \<Rightarrow> flags \<Rightarrow> unit prog" where
  "runCheck env check cmd =
     prog_bind (call (resolveTarget env cmd)) (\<lambda>rt w.
     (case check rt (flagDuration cmd ''timeout'') of
        None \<Rightarrow> None
      | Some (Some err) \<Rightarrow> Some (Inl err, w)
      | Some None \<Rightarrow>
          if tgTransport (fst rt) = TransportWS then
            call (Stdout (''ok: %s is reachable over websocket and accepted the token'' @ nl) [tgName (fst rt)]) w
          else call (Stdout (''ok: %s is reachable and the path is full-duplex'' @ nl) [tgName (fst rt)]) w))"

definition transport_text :: "transport_name \<Rightarrow> string" where
  "transport_text t = (case t of TransportConnect \<Rightarrow> ''connect'' | TransportWS \<Rightarrow> ''ws'')"

fun print_agents :: "config \<Rightarrow> bytes list \<Rightarrow> unit io" where
  "print_agents cfg [] = io_return ()"
| "print_agents cfg (n # ns) =
     (let a = (case map_of (agent_map cfg) n of None \<Rightarrow> zero_agent | Some a \<Rightarrow> a) in
      io_bind (wrap_err ''agent %q: %w'' [n] (io_lift (ParseTransport (agTransport a)))) (\<lambda>tr.
      io_bind (Stdout (''%-20s %-40s %-8s port %s'' @ nl)
        [n, agURL a, transport_text tr, if agPort a \<noteq> 0 then itoa (agPort a) else ''-'']) (\<lambda>_.
      print_agents cfg ns)))"

definition runList :: "env \<Rightarrow> flags \<Rightarrow> unit io" where
  "runList env cmd =
     io_bind (loadClientConfig env cmd) (\<lambda>(cfg, path).
     let names = config_Names cfg in
     if names = [] then Stdout (''no agents configured in %s'' @ nl) [path] else print_agents cfg names)"

text \<open>\<^verbatim>\<open>main\<close>: the error is printed to standard error, and the exit status is 1.\<close>

definition main_exit :: "unit result \<times> world \<Rightarrow> nat \<times> world" where
  "main_exit x =
     (case x of
        (Inr u, w) \<Rightarrow> (0, w)
      | (Inl err, w) \<Rightarrow> (1, snd (StderrErr (''san_tunnels: %v'' @ nl) [] err w)))"

subsection \<open>Lemmas\<close>

lemma silent_LoadConfig [io_silent]: "keeps (\<lambda>w. stdout w = out) (LoadConfig path)"
proof (rule keepsI)
  fix w r w' assume "stdout w = out" and l: "LoadConfig path w = (r, w')"
  obtain rd w1 where rd: "ReadFile path w = (rd, w1)" by (metis surj_pair)
  with l have "w' = w1" by (cases rd) (auto simp: LoadConfig_def split: if_splits option.splits)
  with keepsD [OF silent_calls(1) _ rd] \<open>stdout w = out\<close> show "stdout w' = out" by simp
qed

lemma silent_known_store [io_silent]: "keeps (\<lambda>w. stdout w = out) (known_store env)"
proof (rule keepsI)
  fix w r w' assume o: "stdout w = out" and l: "known_store env w = (r, w')"
  show "stdout w' = out"
  proof (cases "DefaultKnownAgentsPath env")
    case (Inl e)
    with l o show ?thesis by (simp add: known_store_def)
  next
    case (Inr p)
    obtain rd w1 where rd: "ReadFile p w = (rd, w1)" by (metis surj_pair)
    with l Inr have "w' = w1"
      by (cases rd) (auto simp: known_store_def LoadKnownAgents_def split: if_splits option.splits)
    with keepsD [OF silent_calls(1) _ rd] o show ?thesis by simp
  qed
qed

lemma silent_resolveTarget [io_silent]: "keeps (\<lambda>w. stdout w = out) (resolveTarget env cmd)"
proof -
  have split: "keeps P (case x of (a, b) \<Rightarrow> f a b)" if "\<And>a b. keeps P (f a b)" for P x and f :: "'a \<Rightarrow> 'b \<Rightarrow> 'd io"
    using that by (cases x) simp
  show ?thesis
    unfolding resolveTarget_def loadClientConfig_def by (rule io_keeps io_silent split)+
qed

text \<open>The port of a target is that of the entry it was resolved from.\<close>

lemma resolveTarget_port:
  assumes "resolveTarget env cmd w = (Inr rt, w1)"
  shows "0 \<le> tgPort (fst rt) \<and> tgPort (fst rt) \<le> 65535"
proof -
  from assms obtain cfg t where "config_Resolve cfg (arg cmd 0) = Inr t" "tgPort (fst rt) = tgPort t"
    by (auto simp: resolveTarget_def io_bind_Inr override_target_def io_lift_def io_return_def io_fail_def split: if_splits)
  then show ?thesis by (auto simp: config_Resolve_def Let_def split: option.splits if_splits sum.splits)
qed

lemma utoa_no_colon: "CHR '':'' \<notin> set (utoa n)" "CHR ''['' \<notin> set (utoa n)" "CHR '']'' \<notin> set (utoa n)"
proof -
  have "is_digit c" if "c \<in> set (utoa n)" for c using that utoa_digits [of n] by (simp add: list_all_iff)
  moreover have "\<not> is_digit (CHR '':'')" "\<not> is_digit (CHR ''['')" "\<not> is_digit (CHR '']'')"
    by (simp_all add: is_digit_def in_range_def)
  ultimately show "CHR '':'' \<notin> set (utoa n)" "CHR ''['' \<notin> set (utoa n)" "CHR '']'' \<notin> set (utoa n)" by blast+
qed

lemma SplitHostPort_plain:
  assumes "CHR '':'' \<notin> set h" and "CHR ''['' \<notin> set h" and "CHR '']'' \<notin> set h"
    and "CHR '':'' \<notin> set p" and "CHR ''['' \<notin> set p" and "CHR '']'' \<notin> set p"
  shows "SplitHostPort (h @ CHR '':'' # p) = Some (h, p)"
proof -
  have c: "cut (rev (h @ CHR '':'' # p)) (CHR '':'') = Some (rev p, rev h)"
    using assms(4) cut_append [of "CHR '':''" "rev p" "rev h"] by simp
  have "\<not> has_prefix (h @ CHR '':'' # p) ''[''"
    using assms(2) by (cases h) (auto simp: has_prefix_def)
  with c assms show ?thesis by (simp add: SplitHostPort_def Let_def)
qed

lemma known_store_Inr: "\<exists>known onTrust w'. known_store env w = (Inr (known, onTrust), w')"
  by (auto simp: known_store_def split: sum.splits prod.splits)

lemma LoadConfig_Save:
  assumes "config_ok c" and "agents c \<noteq> None" and "files w path = Some (config_text c, m)" and "faults w = []"
  shows "\<exists>c'. LoadConfig path w = (Inr c', w) \<and> map_of (agent_map c') = map_of (agent_map c)"
proof -
  obtain c' where "config_of_json (config_json c) = Some c'" "map_of (agent_map c') = map_of (agent_map c)"
      "agents c' \<noteq> None"
    using config_of_json_json [OF assms(1,2)] by blast
  with parse_config_text [OF assms(1)] assms(3,4) show ?thesis
    by (auto simp: LoadConfig_def quiet_ReadFile)
qed

lemma Resolve_map: "map_of (agent_map c) = map_of (agent_map c') \<Longrightarrow> config_Resolve c name = Inr t \<Longrightarrow>
  config_Resolve c' name = Inr t"
  by (auto simp: config_Resolve_def Let_def split: option.splits if_splits)

text \<open>What a command makes of a configuration that was saved.\<close>

lemma resolveTarget_saved:
  assumes "files v path = Some (config_text c, m)" and "faults v = []" and "config_ok c" and "agents c \<noteq> None"
    and "config_Resolve c name = Inr t" and "arg cmd 0 = name" and "name \<noteq> []"
    and "flagString cmd ''config'' = path" and "path \<noteq> []" and "flagString cmd ''transport'' = []"
  shows "\<exists>known onTrust v'. resolveTarget env cmd v = (Inr (override_target cmd t, known, onTrust), v')"
proof -
  obtain c' where c': "LoadConfig path v = (Inr c', v)" "map_of (agent_map c') = map_of (agent_map c)"
    using LoadConfig_Save [OF assms(3,4,1,2)] by blast
  from Resolve_map [OF c'(2) [symmetric] assms(5)] have "config_Resolve c' name = Inr t" .
  moreover obtain known onTrust v' where "known_store env v = (Inr (known, onTrust), v')"
    using known_store_Inr [of env v] by blast
  ultimately show ?thesis
    using assms(6-10) c'(1) by (simp add: resolveTarget_def loadClientConfig_def io_bind_def)
qed

subsection \<open>Properties\<close>

text \<open>
  \<^verbatim>\<open>client proxy\<close> writes nothing of its own to standard output, which carries the tunnel: whatever
  fails on the way, and when it succeeds, the session starts on standard input and output as they were,
  with the tunnel that was opened for the endpoint.
\<close>

theorem runProxy_stdout_clean:
  assumes "runProxy env opened stdio cmd w = (r, w')"
  shows "stdout w' = stdout w
    \<and> (\<forall>s. r = Inr s \<longrightarrow> (\<exists>rt tunnel. fst (resolveTarget env cmd w) = Inr rt
        \<and> opened rt (flagString cmd ''endpoint'') = Inr tunnel \<and> s = session_start stdio tunnel))"
proof -
  obtain rr w1 where rr: "resolveTarget env cmd w = (rr, w1)" by (metis surj_pair)
  from keepsD [OF silent_resolveTarget _ rr] have out: "stdout w1 = stdout w" by simp
  show ?thesis
  proof (cases rr)
    case (Inl e)
    with rr assms out show ?thesis by (auto simp: runProxy_def io_bind_def)
  next
    case (Inr rt)
    with rr assms out show ?thesis
      by (cases "opened rt (flagString cmd ''endpoint'')") (auto simp: runProxy_def io_bind_def proxy_start_def)
  qed
qed

lemma runProxy_stdout_clean_witness:
  "\<exists>w' e. runProxy demo_env (\<lambda>rt ep. Inl EOF :: unit result) demo_sock demo_flags empty_world = (Inl e, w') \<and> stdout w' = []"
proof -
  obtain r w' where r: "runProxy demo_env (\<lambda>rt ep. Inl EOF :: unit result) demo_sock demo_flags empty_world = (r, w')"
    by (metis surj_pair)
  then have "isl r"
    by (auto simp: runProxy_def io_bind_def proxy_start_def split: prod.splits sum.splits)
  with runProxy_stdout_clean [OF r] r show ?thesis by (auto simp: isl_def empty_world_def)
qed

text \<open>
  C38: where \<^verbatim>\<open>client connect\<close> listens. There is one address: what \<^verbatim>\<open>--listen\<close> says or, without it,
  127.0.0.1 with the port of the agent's entry, which is a port number (0, any free one, when there is
  none). The run depends on listening at that address alone; when that fails, it returns the error, and no
  other address or port is tried; when it does not, the connections that are served are those accepted there,
  and what is printed names the address that was bound.
\<close>

theorem connect_listens_on_loopback:
  assumes "resolveTarget env cmd w = (Inr rt, w1)"
  shows "let t = fst rt; flag = flagString cmd ''listen'';
      addr = (if flag \<noteq> [] then flag else ''127.0.0.1:'' @ itoa (tgPort t)) in
    SplitHostPort (''127.0.0.1:'' @ itoa (tgPort t)) = Some (''127.0.0.1'', itoa (tgPort t))
    \<and> 0 \<le> tgPort t \<and> tgPort t \<le> 65535
    \<and> (\<forall>listen'. listen' addr = listen addr \<longrightarrow>
         runConnect env opened listen' stopped accepts cmd w = runConnect env opened listen stopped accepts cmd w)
    \<and> (case listen addr of
         Inl e \<Rightarrow> runConnect env opened listen stopped accepts cmd w =
           (Some ([], Some (let err = Errorf ''listen on %s: %w'' [addr] (Some e) in
              if tgPort t \<noteq> 0 \<and> \<not> flagIsSet cmd ''listen'' then port_advice t err else err)), w1)
       | Inr bound \<Rightarrow>
           map_option fst (fst (runConnect env opened listen stopped accepts cmd w))
             = map_option fst (accept_loop stopped bound accepts (opened rt (flagString cmd ''endpoint'')))
           \<and> snd (runConnect env opened listen stopped accepts cmd w)
             = snd (connect_ready t (flagString cmd ''endpoint'') bound w1))"
proof -
  let ?t = "fst rt" and ?flag = "flagString cmd ''listen''"
  let ?addr = "if ?flag \<noteq> [] then ?flag else ''127.0.0.1:'' @ itoa (tgPort ?t)"
  have addr: "listenAddr ?flag ?t = ?addr" "?addr \<noteq> []" by (auto simp: listenAddr_def JoinHostPort_def DefaultListen_def itoa_def)
  have port: "0 \<le> tgPort ?t" "tgPort ?t \<le> 65535" using resolveTarget_port [OF assms] by simp_all
  have "itoa (tgPort ?t) = utoa (nat (tgPort ?t))" using port(1) by (simp add: itoa_def)
  then have split: "SplitHostPort (''127.0.0.1:'' @ itoa (tgPort ?t)) = Some (''127.0.0.1'', itoa (tgPort ?t))"
    using SplitHostPort_plain [of "''127.0.0.1''" "itoa (tgPort ?t)"] utoa_no_colon by simp
  have run: "runConnect env opened listen' stopped accepts cmd w =
      (case Listen listen' stopped ?addr (\<lambda>a v. snd (connect_ready ?t (flagString cmd ''endpoint'') a v)) accepts
          (opened rt (flagString cmd ''endpoint'')) w1 of
         (r, w'') \<Rightarrow> (map_option (\<lambda>(served, err). (served,
            case err of None \<Rightarrow> None
            | Some e \<Rightarrow> if tgPort ?t \<noteq> 0 \<and> \<not> flagIsSet cmd ''listen'' then Some (port_advice ?t e) else Some e)) r, w''))" for listen'
    using assms by (simp only: runConnect_def Let_def prod.case sum.case addr(1))
  have same: "runConnect env opened listen' stopped accepts cmd w = runConnect env opened listen stopped accepts cmd w"
    if "listen' ?addr = listen ?addr" for listen'
    using that addr(2) by (simp only: run Listen_def Let_def if_False)
  have ends: "case listen ?addr of
         Inl e \<Rightarrow> runConnect env opened listen stopped accepts cmd w =
           (Some ([], Some (let err = Errorf ''listen on %s: %w'' [?addr] (Some e) in
              if tgPort ?t \<noteq> 0 \<and> \<not> flagIsSet cmd ''listen'' then port_advice ?t err else err)), w1)
       | Inr bound \<Rightarrow>
           map_option fst (fst (runConnect env opened listen stopped accepts cmd w))
             = map_option fst (accept_loop stopped bound accepts (opened rt (flagString cmd ''endpoint'')))
           \<and> snd (runConnect env opened listen stopped accepts cmd w)
             = snd (connect_ready ?t (flagString cmd ''endpoint'') bound w1)"
  proof (cases "listen ?addr")
    case (Inl e)
    with addr(2) show ?thesis by (simp only: run Listen_def Let_def if_False) simp
  next
    case (Inr bound)
    with addr(2) show ?thesis
      by (simp only: run Listen_def Let_def if_False) (simp add: option.map_comp comp_def case_prod_unfold)
  qed
  show ?thesis unfolding Let_def by (intro conjI allI impI split port same ends [unfolded Let_def])
qed

definition busy_flags :: flags where
  "busy_flags = demo_flags\<lparr>flagString := (\<lambda>n. if n = ''config'' then ''conf'' else []), flagArgs := [''box'']\<rparr>"

lemma connect_listens_on_loopback_witness:
  "\<exists>e w'. runConnect demo_env (\<lambda>rt ep. [] :: unit result list) (\<lambda>addr. if addr = ''127.0.0.1:2222'' then Inl (OsErr ''busy'') else Inr addr)
     False [] busy_flags (quiet_world\<lparr>files := [''conf'' \<mapsto> (config_text demo_config, mode_600)]\<rparr>) = (Some ([], Some e), w')
     \<and> errors_is e (OsErr ''busy'')"
proof -
  let ?w = "quiet_world\<lparr>files := [''conf'' \<mapsto> (config_text demo_config, mode_600)]\<rparr>"
  have cfg: "config_ok demo_config" "agents demo_config \<noteq> None"
    by (simp_all add: demo_config_def demo_agent_def zero_agent_def config_ok_def agent_map_def agent_ok_def valid_utf8_all_ascii ascii_def)
  obtain t where t: "config_Resolve demo_config ''box'' = Inr t" "tgPort t = 2222"
    by (simp add: config_Resolve_def demo_config_def agent_map_def demo_agent_def zero_agent_def ParseTransport_def)
  obtain known onTrust w1 where r: "resolveTarget demo_env busy_flags ?w = (Inr (override_target busy_flags t, known, onTrust), w1)"
    using resolveTarget_saved [of ?w "''conf''" demo_config mode_600 "''box''" t busy_flags demo_env] cfg t(1)
    by (auto simp: busy_flags_def arg_def quiet_world_def)
  have p: "tgPort (override_target busy_flags t) = 2222" "flagString busy_flags ''listen'' = []"
    using t(2) by (simp_all add: override_target_def busy_flags_def)
  have a: "''127.0.0.1:'' @ itoa 2222 = ''127.0.0.1:2222''" by code_simp
  from connect_listens_on_loopback [OF r, where listen = "\<lambda>addr. if addr = ''127.0.0.1:2222'' then Inl (OsErr ''busy'') else Inr addr"
      and opened = "\<lambda>rt ep. [] :: unit result list" and stopped = False and accepts = "[]"] p a
  show ?thesis by (simp add: Let_def port_advice_def)
qed

text \<open>
  When the store of known agents cannot be read, the client goes on without one: every certificate is
  then accepted, none is recorded, and nobody is told.
\<close>

lemma unreadable_store_accepts_any:
  assumes "DefaultKnownAgentsPath env = Inr p" and "LoadKnownAgents p w = (Inl e, w1)"
    and "\<not> tgInsecure t" and "tgTLSFingerprint t = []" and "raws \<noteq> []" and "tsKnown s = None"
  shows "known_store env w = (Inr (None, None), w1)
    \<and> (\<exists>s'. handshake (tlsConfigFor x t None None) raws s = (None, s') \<and> tsWorld s' = tsWorld s)"
  using assms
  by (simp add: known_store_def handshake_def tlsConfigFor_def pin_of_def verify_callback_def Let_def)

text \<open>An invite cannot be made with a token flag while the default token file exists.\<close>

lemma runInvite_token_clash:
  assumes "flagString cmd ''url'' \<noteq> []" and "flagString cmd ''token'' \<noteq> []" and "flagString cmd ''token-file'' = []"
    and "agentPath (ahEnv H) (flagString cmd ''host-key'') ''host_key'' = Inr hp"
    and "LoadOrCreateHostKey (ahHostKeys H) (ahGenHost H) hp w = (Inr s, w1)" and "faults w1 = []"
    and "agentPath (ahEnv H) [] ''token'' = Inr p" and "p \<noteq> []" and "files w1 p \<noteq> None"
  shows "runInvite H cmd w = (Inl (errors_new ''--token and --token-file are mutually exclusive''), w1)"
proof -
  obtain f where "files w1 p = Some f" using assms(9) by blast
  with assms show ?thesis
    by (simp add: runInvite_def io_bind_def invite_token_path_def Stat_def take_fault_def resolveToken_def)
qed

end
