(* ===== verification/Registration.thy ===== *)
theory Registration
  imports Cli_Client
begin

text \<open>
  Registering an agent, across the two hosts: \<^verbatim>\<open>server invite\<close> prints the agent's address, token and
  fingerprint as one text; \<^verbatim>\<open>client add\<close> turns it into an entry of the configuration; and the client's
  later commands connect with what that entry says.
\<close>

subsection \<open>The agent's side\<close>

lemma CertFingerprint_eq: "CertFingerprint der = Fingerprint der"
  by (simp add: CertFingerprint_def Fingerprint_def)

lemma LeafFingerprint_Inr:
  "LeafFingerprint (Some cert) = Inr fp \<longleftrightarrow> tcCertificate cert \<noteq> [] \<and> fp = Fingerprint (hd (tcCertificate cert))"
  by (cases "tcCertificate cert") (auto simp: LeafFingerprint_def CertFingerprint_eq)

lemma cert_fingerprint_Inr:
  assumes "cert_fingerprint H cmd certPath keyPath w = (Inr fp, w')"
  shows "\<exists>cert. LoadOrCreateTLSCert (ahTLS H) (ahEnv H) (ahGenTLS H) certPath keyPath (flagSlice cmd ''tls-host'') w = (Inr cert, w')
    \<and> LeafFingerprint (Some cert) = Inr fp"
  using assms by (auto simp: cert_fingerprint_def io_bind_Inr)

lemma cert_fingerprint_again:
  assumes "cert_fingerprint H cmd certPath keyPath w = (Inr fp, w')" and "certPath \<noteq> keyPath"
  shows "\<exists>der chain. fp = Fingerprint der \<and> (\<forall>v en hosts. faults v = [] \<and> files v = files w' \<longrightarrow> (\<exists>cert.
    LoadOrCreateTLSCert (ahTLS H) (ahEnv H) en certPath keyPath hosts v = (Inr cert, v) \<and> tcCertificate cert = der # chain))"
proof -
  from cert_fingerprint_Inr [OF assms(1)] obtain cert where
      l: "LoadOrCreateTLSCert (ahTLS H) (ahEnv H) (ahGenTLS H) certPath keyPath (flagSlice cmd ''tls-host'') w = (Inr cert, w')"
    and leaf: "LeafFingerprint (Some cert) = Inr fp" by blast
  from leaf obtain der chain where dc: "tcCertificate cert = der # chain" "fp = Fingerprint der"
    by (cases "tcCertificate cert") (auto simp: LeafFingerprint_Inr)
  have "LoadOrCreateTLSCert (ahTLS H) (ahEnv H) en certPath keyPath hosts v = (Inr cert, v)"
    if "faults v = [] \<and> files v = files w'" for v en hosts
    using tls_pair.stable [of certPath keyPath "ahTLS H" "(ahEnv H, ahGenTLS H, flagSlice cmd ''tls-host'')" w cert w' v
        "(ahEnv H, en, hosts)"] l assms(2) that by simp
  with dc show ?thesis by blast
qed

lemma resolveToken_again:
  assumes "resolveToken t p w = (Inr token, w')" and "faults v = []" and "files v p = files w' p"
  shows "resolveToken t p v = (Inr token, v)"
proof (cases "p = []")
  case False
  with assms(1) have t: "t = []" by (auto simp: resolveToken_def split: if_splits)
  with False assms(1) obtain b where "ReadFile p w = (Inr b, w')" "token = trim_space b"
    by (auto simp: resolveToken_def io_bind_Inr wrap_err_Inr)
  moreover from this(1) obtain m where "files w' p = Some (b, m)" using ReadFile_Inr ReadFile_files by metis
  ultimately show ?thesis
    using False t assms(2,3) by (simp add: resolveToken_def io_bind_def wrap_err_def quiet_ReadFile)
qed (use assms(1) in \<open>simp add: resolveToken_def\<close>)

text \<open>The token of an invite: what an agent started with the same flags demands, and the default file.\<close>

lemma header_opens:
  assumes "authorization r = (case bearer_header token of None \<Rightarrow> [] | Some h \<Rightarrow> h)"
  shows "requireToken token next r = next r"
  using assms by (auto simp: requireToken_def bearer_header_def bearer_prefix_def trim_prefix_def has_prefix_def)

lemma invite_token_demanded:
  assumes "invite_token_path env cmd w1 = (Inr tokenPath, w2)"
    and "resolveToken (flagString cmd ''token'') tokenPath w2 = (Inr token, w3)"
    and "faults v = []" and "flagString cmd ''token-file'' \<noteq> [] \<Longrightarrow> files v (flagString cmd ''token-file'') = files w3 (flagString cmd ''token-file'')"
  shows "resolveToken (flagString cmd ''token'') (flagString cmd ''token-file'') v
    = (Inr (if flagString cmd ''token'' = [] \<and> flagString cmd ''token-file'' = [] then [] else token), v)"
proof (cases "flagString cmd ''token-file'' = []")
  case True
  with assms(2) show ?thesis by (auto simp: resolveToken_def split: if_splits)
next
  case False
  with assms(1) have "tokenPath = flagString cmd ''token-file''" by (simp add: invite_token_path_def)
  with resolveToken_again [OF assms(2,3)] assms(4) False show ?thesis by simp
qed

lemma invite_token_default:
  assumes "invite_token_path env cmd w1 = (Inr tokenPath, w2)" and "resolveToken (flagString cmd ''token'') tokenPath w2 = (Inr token, w3)"
    and "faults w1 = []" and "flagString cmd ''token'' = []" and "flagString cmd ''token-file'' = []"
  shows "token = (case agentPath env [] ''token'' of Inl e \<Rightarrow> []
    | Inr p \<Rightarrow> if p = [] then [] else case files w1 p of None \<Rightarrow> [] | Some (b, m) \<Rightarrow> trim_space b)"
proof (cases "agentPath env [] ''token''")
  case (Inl e)
  with assms show ?thesis by (simp add: invite_token_path_def resolveToken_def)
next
  case (Inr p)
  with assms show ?thesis
    by (cases "files w1 p")
      (auto simp: invite_token_path_def resolveToken_def Stat_def take_fault_def io_bind_def wrap_err_def quiet_ReadFile io_return_def
        split: if_splits)
qed

lemma host_key_calm:
  fixes L :: "('p, 's) host_key_lib"
  assumes "LoadOrCreateHostKey L gen path w = (r, w')" and "faults w = []"
  shows "faults w' = []"
proof -
  have calls: "keeps (\<lambda>w. faults w = []) (WriteFile p b m)" "keeps (\<lambda>w. faults w = []) (ReadFile p)" for p b m
    by (auto intro!: keepsI simp: quiet_WriteFile put_file_def quiet_ReadFile split: option.splits)
  have parent: "keeps (\<lambda>w. faults w = []) (make_parent fmt p)" for fmt p
    using quiet_make_parent [of _ fmt p] by (fastforce intro: keepsI)
  have make: "keeps (\<lambda>w. faults w = []) (create_host_key L gen path)"
    unfolding create_host_key_def by (intro keeps_bind keeps_wrap keeps_pure calls parent)
  have load: "keeps (\<lambda>w. faults w = []) (wrap_err fmt args (io_lift q))" for fmt args and q :: "'s result"
    by (intro keeps_wrap keeps_pure)
  obtain rd v where rd: "ReadFile path w = (rd, v)" by (metis surj_pair)
  then have v: "faults v = []" by (rule keepsD [OF calls(2) assms(2)])
  show ?thesis
  proof (cases rd)
    case (Inl e)
    with assms(1) rd v keepsD [OF make v, of r w'] show ?thesis
      by (cases "errors_is e ErrNotExist") (simp_all add: LoadOrCreateHostKey_def)
  next
    case (Inr b)
    with assms(1) rd have "wrap_err ''parse host key %s: %w'' [path] (io_lift (parse_private L b)) v = (r, w')"
      by (simp add: LoadOrCreateHostKey_def)
    then show ?thesis by (rule keepsD [OF load v])
  qed
qed

text \<open>What a run of \<^verbatim>\<open>invite\<close> that succeeded has done.\<close>

lemma io_bind_InrE:
  assumes "io_bind m f w = (Inr y, w2)"
  obtains x w1 where "m w = (Inr x, w1)" and "f x w1 = (Inr y, w2)"
  using assms by (auto simp: io_bind_Inr)

lemma Stdout_Inr: "Stdout f args w = (Inr x, w') \<Longrightarrow> w' = w\<lparr>stdout := stdout w @ [(f, args)]\<rparr>"
  by (simp add: Stdout_def)

lemma Stderr_Inr: "Stderr f args w = (Inr x, w') \<Longrightarrow> stdout w' = stdout w \<and> files w' = files w"
  by (auto simp: Stderr_def)

lemma runInvite_Inr:
  assumes "runInvite H cmd w = (Inr (), w')"
  obtains hp signer tokenPath token certPath keyPath auto fp blob w1 w2 w3 w4 where
    "agentPath (ahEnv H) (flagString cmd ''host-key'') ''host_key'' = Inr hp"
    "LoadOrCreateHostKey (ahHostKeys H) (ahGenHost H) hp w = (Inr signer, w1)"
    "invite_token_path (ahEnv H) cmd w1 = (Inr tokenPath, w2)"
    "resolveToken (flagString cmd ''token'') tokenPath w2 = (Inr token, w3)"
    "resolveTLS (ahEnv H) cmd = Inr (certPath, keyPath, auto)"
    "(if certPath \<noteq> [] \<and> keyPath \<noteq> [] then cert_fingerprint H cmd certPath keyPath else io_return []) w3 = (Inr fp, w4)"
    "invite_Encode \<lparr>invURL = flagString cmd ''url'', invToken = token, invTLSFingerprint = fp,
       invHostKey = ahFingerprint H signer, invUser = flagString cmd ''user''\<rparr> = Inr blob"
    "stdout w' = stdout w4 @ [(''%s'' @ nl, [blob])]" "files w' = files w4" "flagString cmd ''url'' \<noteq> []"
proof -
  from assms have url: "flagString cmd ''url'' \<noteq> []" by (auto simp: runInvite_def)
  note run = assms [unfolded runInvite_def, unfolded if_not_P [OF url]]
  from run show thesis
  proof (elim io_bind_InrE)
    fix hp w0 signer w1 tokenPath w2 token w3 x w3'
    assume s: "io_lift (agentPath (ahEnv H) (flagString cmd ''host-key'') ''host_key'') w = (Inr hp, w0)"
      "LoadOrCreateHostKey (ahHostKeys H) (ahGenHost H) hp w0 = (Inr signer, w1)"
      "invite_token_path (ahEnv H) cmd w1 = (Inr tokenPath, w2)"
      "resolveToken (flagString cmd ''token'') tokenPath w2 = (Inr token, w3)"
      "io_lift (resolveTLS (ahEnv H) cmd) w3 = (Inr x, w3')"
    obtain certPath keyPath auto where x: "x = (certPath, keyPath, auto)" by (cases x)
    assume "(case x of (certPath, keyPath, auto) \<Rightarrow>
        io_bind (if certPath \<noteq> [] \<and> keyPath \<noteq> [] then cert_fingerprint H cmd certPath keyPath else io_return []) (\<lambda>fp.
        io_bind (io_lift (invite_Encode \<lparr>invURL = flagString cmd ''url'', invToken = token, invTLSFingerprint = fp,
            invHostKey = ahFingerprint H signer, invUser = flagString cmd ''user''\<rparr>)) (\<lambda>blob.
        io_bind (Stdout (''%s'' @ nl) [blob]) (\<lambda>_.
        io_bind (Stderr (nl @ ''Register it on the entry host:'' @ nl @
          ''  san_tunnels client add <name> --from <the string above>'' @ nl) []) (\<lambda>_.
        if token \<noteq> [] then
          Stderr (nl @ ''This carries the agent's token: treat it as a password. It grants a'' @ nl @
            ''tunnel to anyone who holds it -- an SSH key is still needed for a shell,'' @ nl @
            ''but any allowlisted TCP endpoint is not behind one.'' @ nl) []
        else io_return ()))))) w3' = (Inr (), w')"
    from this [unfolded x prod.case] show thesis
    proof (elim io_bind_InrE)
      fix fp w4 blob w5 u w6 v w7
      assume "(if certPath \<noteq> [] \<and> keyPath \<noteq> [] then cert_fingerprint H cmd certPath keyPath else io_return []) w3' = (Inr fp, w4)"
        and blob: "io_lift (invite_Encode \<lparr>invURL = flagString cmd ''url'', invToken = token, invTLSFingerprint = fp,
            invHostKey = ahFingerprint H signer, invUser = flagString cmd ''user''\<rparr>) w4 = (Inr blob, w5)"
        and out: "Stdout (''%s'' @ nl) [blob] w5 = (Inr u, w6)"
        and err: "Stderr (nl @ ''Register it on the entry host:'' @ nl @
          ''  san_tunnels client add <name> --from <the string above>'' @ nl) [] w6 = (Inr v, w7)"
        and warn: "(if token \<noteq> [] then
          Stderr (nl @ ''This carries the agent's token: treat it as a password. It grants a'' @ nl @
            ''tunnel to anyone who holds it -- an SSH key is still needed for a shell,'' @ nl @
            ''but any allowlisted TCP endpoint is not behind one.'' @ nl) []
        else io_return ()) w7 = (Inr (), w')"
      moreover have "stdout w' = stdout w7 \<and> files w' = files w7"
        using warn Stderr_Inr [of _ _ w7 "()" w'] by (cases "token = []") auto
      moreover from s(1,5) blob have "w0 = w" "w3' = w3" "w5 = w4" by (auto simp: io_lift_def)
      ultimately show thesis
        using s Stdout_Inr [OF out] Stderr_Inr [OF err] url
        by (intro that [of hp signer w1 tokenPath w2 token w3 certPath keyPath auto fp w4 blob])
          (simp_all add: io_lift_def x)
    qed
  qed
qed

subsection \<open>The client's side\<close>

lemma config_Save_Inr:
  assumes "config_Save c path w = (Inr (), w')"
  shows "\<exists>m. files w' path = Some (config_text c, m)"
proof -
  from assms obtain w1 w2 where w: "WriteFile (config_tmp path) (config_text c) mode_600 w1 = (Inr (), w2)"
    and r: "(case Rename (config_tmp path) path w2 of
        (Inl e, w') \<Rightarrow> (Inl (Errorf ''replace config %s: %w'' [path] (Some e)), snd (Remove (config_tmp path) w'))
      | (Inr u, w') \<Rightarrow> (Inr (), w')) = (Inr (), w')"
    by (auto simp: config_Save_def io_bind_Inr wrap_err_Inr)
  from WriteFile_Inr [OF w] obtain m where m: "files w2 (config_tmp path) = Some (config_text c, m)" by auto
  from r have "Rename (config_tmp path) path w2 = (Inr (), w')"
    by (cases "Rename (config_tmp path) path w2"; cases "fst (Rename (config_tmp path) path w2)") auto
  with m show ?thesis
    by (auto simp: Rename_def take_fault_def split: list.splits fault.splits option.splits)
qed

lemma config_ok_Set:
  assumes "config_ok c" and "valid_utf8 name" and "agent_ok a"
  shows "config_ok (config_Set c name a)"
proof (cases "agents c")
  case None
  with assms show ?thesis by (simp add: config_ok_def config_Set_def agent_map_def)
next
  case (Some m)
  have "set (AList.update name a m) \<subseteq> insert (name, a) (set m)" by (induction m) auto
  with assms Some show ?thesis
    by (fastforce simp: config_ok_def config_Set_def agent_map_def distinct_update list_all_iff)
qed

lemma Resolve_Inr:
  assumes "config_Resolve c name = Inr t" and "map_of (agent_map c) name = Some a"
  shows "tgName t = name" and "tgURL t = agURL a" and "tgToken t = agToken a" and "tgInsecure t = agInsecure a"
    and "tgTLSFingerprint t = agTLSFingerprint a"
  using assms by (auto simp: config_Resolve_def split: if_splits sum.splits)

text \<open>What a run of \<^verbatim>\<open>add\<close> with an invite that succeeded has done.\<close>

lemma runAdd_invite_Inr:
  assumes "runAdd env parse dial cmd w = (Inr (), w')" and "arg cmd 0 = name" and "name \<noteq> []"
    and "flagString cmd ''config'' = path" and "path \<noteq> []"
    and "flagString cmd ''from'' \<noteq> []" and "invite_Decode (flagString cmd ''from'') = Inr iv" and "invURL iv \<noteq> []"
  obtains cfg w1 t m where "LoadConfig path w = (Inr cfg, w1)"
    "map_of (agent_map cfg) name = None \<or> flagBool cmd ''force''"
    "files w' path = Some (config_text (config_Set cfg name (entry_of_invite iv (entry_of_flags cmd))), m)"
    "config_Resolve (config_Set cfg name (entry_of_invite iv (entry_of_flags cmd))) name = Inr t"
proof -
  let ?e = "entry_of_invite iv (entry_of_flags cmd)"
  have url: "agURL ?e = invURL iv" by (simp add: entry_of_invite_def)
  have load: "loadClientConfig env cmd v = (case LoadConfig path v of (Inl e, v') \<Rightarrow> (Inl e, v') | (Inr c, v') \<Rightarrow> (Inr (c, path), v'))" for v
    using assms(4,5) by (auto simp: loadClientConfig_def io_bind_def split: prod.splits sum.splits)
  have "\<exists>v'. add_entry env parse dial cmd v = (Inr ?e, v')" for v
    using assms(6-8) url by (auto simp: add_entry_def Let_def io_bind_def show_host_key_def Stderr_def)
  note entry = this
  from assms(1-3) obtain cfg w1 where l: "LoadConfig path w = (Inr cfg, w1)"
    by (auto simp: runAdd_def io_bind_Inr load split: prod.splits sum.splits)
  obtain w2 where e: "add_entry env parse dial cmd w1 = (Inr ?e, w2)" using entry by blast
  from assms(1-3) l e obtain w3 t where
      new: "map_of (agent_map cfg) name = None \<or> flagBool cmd ''force''"
    and save: "config_Save (config_Set cfg name ?e) path w2 = (Inr (), w3)"
    and res: "config_Resolve (config_Set cfg name ?e) name = Inr t" and w': "files w' = files w3"
    by (auto simp: runAdd_def io_bind_Inr load Let_def Stdout_def split: if_splits)
  from config_Save_Inr [OF save] w' obtain m where "files w' path = Some (config_text (config_Set cfg name ?e), m)" by auto
  from that [OF l new this res] show thesis .
qed

lemma pinned_handshake:
  assumes "\<not> tgInsecure t" and "tgTLSFingerprint t \<noteq> []"
  shows "fst (handshake (tlsConfigFor x t known onTrust) raws s) = None
    \<longleftrightarrow> raws \<noteq> [] \<and> Fingerprint (hd raws) = tgTLSFingerprint t"
  using assms by (auto simp: handshake_def tlsConfigFor_def verify_callback_def Let_def pin_of_def)

subsection \<open>Properties\<close>

text \<open>
  C9: an invite carries the agent's identity. What \<^verbatim>\<open>invite\<close> prints last is one text, which decodes to
  the address and user asked for, to the fingerprint of the host key, to that of the certificate which
  every later start of the agent loads, without making another, and to a token. With \<^verbatim>\<open>--token\<close> or
  \<^verbatim>\<open>--token-file\<close> it is the one that \<^verbatim>\<open>server\<close> demands when it is started with these flags.
  With neither, \<^verbatim>\<open>server\<close> demands none, while the invite carries the token of the default file if there
  is one (and no failure hides it). In each case the invite's token opens the doors of that agent.
\<close>

theorem invite_carries_identity:
  assumes "runInvite H cmd w = (Inr (), w')"
  shows "\<exists>front blob iv hp signer w1 certPath keyPath auto.
      stdout w' = front @ [(''%s'' @ nl, [blob])] \<and> invite_Encode iv = Inr blob
    \<and> (invite_ok iv \<longrightarrow> invite_Decode blob = Inr iv)
    \<and> invURL iv = flagString cmd ''url'' \<and> invUser iv = flagString cmd ''user''
    \<and> agentPath (ahEnv H) (flagString cmd ''host-key'') ''host_key'' = Inr hp
    \<and> LoadOrCreateHostKey (ahHostKeys H) (ahGenHost H) hp w = (Inr signer, w1) \<and> invHostKey iv = ahFingerprint H signer
    \<and> resolveTLS (ahEnv H) cmd = Inr (certPath, keyPath, auto)
    \<and> (\<forall>v. faults v = [] \<and> files v = files w'
           \<and> (flagString cmd ''token-file'' = [] \<or> flagString cmd ''token-file'' \<notin> {certPath, keyPath}) \<longrightarrow>
         (\<exists>demanded. resolveToken (flagString cmd ''token'') (flagString cmd ''token-file'') v = (Inr demanded, v)
           \<and> demanded = (if flagString cmd ''token'' = [] \<and> flagString cmd ''token-file'' = [] then [] else invToken iv)
           \<and> (\<forall>r next. authorization r = (case bearer_header (invToken iv) of None \<Rightarrow> [] | Some h \<Rightarrow> h) \<longrightarrow>
                requireToken demanded next r = next r)))
    \<and> (faults w = [] \<and> flagString cmd ''token'' = [] \<and> flagString cmd ''token-file'' = [] \<longrightarrow>
         invToken iv = (case agentPath (ahEnv H) [] ''token'' of Inl e \<Rightarrow> []
           | Inr p \<Rightarrow> if p = [] then [] else case files w1 p of None \<Rightarrow> [] | Some (b, m) \<Rightarrow> trim_space b))
    \<and> (certPath = [] \<or> keyPath = [] \<longrightarrow> invTLSFingerprint iv = [])
    \<and> (certPath \<noteq> [] \<and> keyPath \<noteq> [] \<and> certPath \<noteq> keyPath \<longrightarrow> (\<exists>der chain.
         invTLSFingerprint iv = Fingerprint der
         \<and> (\<forall>v en hosts. faults v = [] \<and> files v = files w' \<longrightarrow> (\<exists>cert.
             LoadOrCreateTLSCert (ahTLS H) (ahEnv H) en certPath keyPath hosts v = (Inr cert, v)
             \<and> tcCertificate cert = der # chain))))"
proof -
  let ?t = "flagString cmd ''token''" and ?f = "flagString cmd ''token-file''"
  from assms obtain hp signer tokenPath token certPath keyPath auto fp blob w1 w2 w3 w4 where
      hk: "agentPath (ahEnv H) (flagString cmd ''host-key'') ''host_key'' = Inr hp"
        "LoadOrCreateHostKey (ahHostKeys H) (ahGenHost H) hp w = (Inr signer, w1)"
    and path: "invite_token_path (ahEnv H) cmd w1 = (Inr tokenPath, w2)"
    and tok: "resolveToken ?t tokenPath w2 = (Inr token, w3)"
    and tls: "resolveTLS (ahEnv H) cmd = Inr (certPath, keyPath, auto)"
    and fp: "(if certPath \<noteq> [] \<and> keyPath \<noteq> [] then cert_fingerprint H cmd certPath keyPath else io_return []) w3 = (Inr fp, w4)"
    and enc: "invite_Encode \<lparr>invURL = flagString cmd ''url'', invToken = token, invTLSFingerprint = fp,
       invHostKey = ahFingerprint H signer, invUser = flagString cmd ''user''\<rparr> = Inr blob" (is "invite_Encode ?iv = _")
    and out: "stdout w' = stdout w4 @ [(''%s'' @ nl, [blob])]" and fs: "files w' = files w4"
    by (rule runInvite_Inr)
  have dec: "invite_ok ?iv \<longrightarrow> invite_Decode blob = Inr ?iv"
    using invite_Decode_around [OF enc, of "[]" "[]"] by simp
  have kept: "files w4 p = files w3 p" if "p \<notin> {certPath, keyPath}" for p
    using fp that LoadOrCreateTLSCert_others [of "ahTLS H" "ahEnv H" "ahGenTLS H" certPath keyPath _ w3]
    by (fastforce simp: io_return_def dest: cert_fingerprint_Inr split: if_splits)
  have t: "\<exists>demanded. resolveToken ?t ?f v = (Inr demanded, v) \<and> demanded = (if ?t = [] \<and> ?f = [] then [] else token)
      \<and> (\<forall>r next. authorization r = (case bearer_header token of None \<Rightarrow> [] | Some h \<Rightarrow> h) \<longrightarrow> requireToken demanded next r = next r)"
    if v: "faults v = [] \<and> files v = files w' \<and> (?f = [] \<or> ?f \<notin> {certPath, keyPath})" for v
    using invite_token_demanded [OF path tok, of v] kept [of ?f] fs v header_opens [of _ token] by (auto simp: requireToken_def)
  have d: "token = (case agentPath (ahEnv H) [] ''token'' of Inl e \<Rightarrow> []
      | Inr p \<Rightarrow> if p = [] then [] else case files w1 p of None \<Rightarrow> [] | Some (b, m) \<Rightarrow> trim_space b)"
    if "faults w = [] \<and> ?t = [] \<and> ?f = []"
    using invite_token_default [OF path tok] host_key_calm [OF hk(2)] that by simp
  have c: "\<exists>der chain. fp = Fingerprint der \<and> (\<forall>v en hosts. faults v = [] \<and> files v = files w' \<longrightarrow> (\<exists>cert.
      LoadOrCreateTLSCert (ahTLS H) (ahEnv H) en certPath keyPath hosts v = (Inr cert, v) \<and> tcCertificate cert = der # chain))"
    if "certPath \<noteq> [] \<and> keyPath \<noteq> [] \<and> certPath \<noteq> keyPath"
    using cert_fingerprint_again [of H cmd certPath keyPath w3 fp w4] fp fs that by simp
  have n: "certPath = [] \<or> keyPath = [] \<longrightarrow> fp = []" using fp by (auto simp: io_return_def)
  show ?thesis
    by (rule exI [of _ "stdout w4"], rule exI [of _ blob], rule exI [of _ ?iv], rule exI [of _ hp], rule exI [of _ signer],
        rule exI [of _ w1], rule exI [of _ certPath], rule exI [of _ keyPath], rule exI [of _ auto],
        unfold invite.select_convs)
      (use t d c in \<open>intro conjI out enc dec hk tls n refl; blast\<close>)
qed

definition invite_flags :: flags where
  "invite_flags = demo_flags\<lparr>flagString := (\<lambda>n. case map_of [(''url'', ''https://box:8443''), (''token-file'', ''t''),
     (''tls-cert'', ''c''), (''tls-key'', ''k''), (''host-key'', ''h'')] n of None \<Rightarrow> [] | Some s \<Rightarrow> s)\<rparr>"

definition token_world :: world where
  "token_world = empty_world\<lparr>files := [''t'' \<mapsto> (''s3cret'' @ nl, mode_600)]\<rparr>"

lemma demo_runInvite: "\<exists>w'. runInvite demo_host invite_flags token_world = (Inr (), w') \<and> faults w' = []"
proof -
  obtain w1 where p: "make_parent ''create key dir %s: %w'' ''h'' token_world = (Inr (), w1)" "faults w1 = []"
      "files w1 = files token_world"
    using quiet_make_parent [of token_world] by (auto simp: token_world_def empty_world_def)
  let ?w1 = "put_file ''h'' ''hk'' mode_600 w1"
  have q: "faults token_world = []" by (simp add: token_world_def empty_world_def)
  have k: "LoadOrCreateHostKey demo_host_key_lib (Inr ''hk'') ''h'' token_world = (Inr ''hk'', ?w1)"
    using p(1,2) q by (simp add: LoadOrCreateHostKey_def quiet_ReadFile token_world_def empty_world_def demo_host_key_lib_def
        io_bind_def wrap_err_def quiet_WriteFile create_host_key_def)
  have "trim_space ([] @ ''s3cret'' @ nl) = ''s3cret''"
    by (rule trim_space_around) (simp_all add: nl_def ascii_def is_space_def)
  then have t: "resolveToken [] ''t'' ?w1 = (Inr ''s3cret'', ?w1)"
    using p by (simp add: resolveToken_def io_bind_def wrap_err_def quiet_ReadFile token_world_def)
  obtain w2 where c: "create_tls_cert demo_tls_lib demo_env (demo_entropy ''tk'') ''c'' ''k'' [] ?w1
      = (Inr \<lparr>tcCertificate = [''cert of '' @ ''tk''], tcPrivateKey = ''tk''\<rparr>, w2)" "faults w2 = []"
    using create_demo [of ?w1 "''c''" "''k''" demo_env "''tk''" "[]"] p(2) by auto
  have "LoadX509KeyPair demo_tls_lib ''c'' ''k'' ?w1 = (Inl ErrNotExist, ?w1)"
    using p by (simp add: LoadX509KeyPair_def io_bind_def quiet_ReadFile token_world_def)
  with c have f: "cert_fingerprint demo_host invite_flags ''c'' ''k'' ?w1 = (Inr (Fingerprint (''cert of '' @ ''tk'')), w2)"
    by (simp add: cert_fingerprint_def io_bind_def LoadOrCreateTLSCert_def demo_host_def invite_flags_def demo_flags_def
        LeafFingerprint_def CertFingerprint_eq)
  show ?thesis
    using k t f c(2)
    by (simp add: runInvite_def io_bind_def demo_host_def invite_flags_def agentPath_def invite_token_path_def
        resolveTLS_def demo_flags_def invite_Encode_def Stdout_def Stderr_def)
qed

lemma invite_carries_identity_witness:
  "\<exists>w' front blob iv. runInvite demo_host invite_flags token_world = (Inr (), w')
     \<and> stdout w' = front @ [(''%s'' @ nl, [blob])] \<and> invite_Encode iv = Inr blob \<and> invURL iv = ''https://box:8443''"
proof -
  obtain w' where "runInvite demo_host invite_flags token_world = (Inr (), w')" using demo_runInvite by blast
  from invite_carries_identity [OF this] this show ?thesis
    by (auto simp: invite_flags_def)
qed

text \<open>
  C8: an agent registered with an invite is the one the client talks to. Every later command reads back the
  invite's address and token; its bearer header passes the check for that token; and when the invite names a
  certificate, a handshake succeeds exactly with it, on any system roots and with any store of known agents.
\<close>

theorem added_agent_is_pinned:
  assumes "runAdd env parse dial cmd w = (Inr (), w')" and "arg cmd 0 = name" and "name \<noteq> []"
    and "flagString cmd ''config'' = path" and "path \<noteq> []"
    and "flagString cmd ''from'' \<noteq> []" and "invite_Decode (flagString cmd ''from'') = Inr iv"
    and "flagString cmd ''token'' = []" and "flagString cmd ''tls-fingerprint'' = []" and "\<not> flagBool cmd ''insecure''"
    and "valid_utf8 name" and "invite_ok iv" and "agent_ok (entry_of_flags cmd)"
    and "\<And>cfg w1. LoadConfig path w = (Inr cfg, w1) \<Longrightarrow> config_ok cfg"
    and "faults v = []" and "files v path = files w' path"
    and "arg later 0 = name" and "flagString later ''config'' = path" and "flagString later ''token'' = []"
    and "flagString later ''tls-fingerprint'' = []" and "flagString later ''transport'' = []"
    and "\<not> flagBool later ''insecure''"
  shows "\<exists>t known onTrust v'. resolveTarget env later v = (Inr (t, known, onTrust), v')
    \<and> tgName t = name \<and> tgURL t = invURL iv \<and> tgToken t = invToken iv
    \<and> (\<forall>r next. authorization r = (case bearer_header (tgToken t) of None \<Rightarrow> [] | Some h \<Rightarrow> h) \<longrightarrow>
         requireToken (invToken iv) next r = next r)
    \<and> (invTLSFingerprint iv \<noteq> [] \<longrightarrow> (\<forall>x raws s. fst (handshake (tlsConfigFor x t known onTrust) raws s) = None
         \<longleftrightarrow> raws \<noteq> [] \<and> Fingerprint (hd raws) = invTLSFingerprint iv))"
proof -
  let ?e = "entry_of_invite iv (entry_of_flags cmd)"
  obtain cfg w1 t m where load: "LoadConfig path w = (Inr cfg, w1)"
    and "map_of (agent_map cfg) name = None \<or> flagBool cmd ''force''"
    and saved: "files w' path = Some (config_text (config_Set cfg name ?e), m)"
    and res: "config_Resolve (config_Set cfg name ?e) name = Inr t"
    by (rule runAdd_invite_Inr [OF assms(1-7) invite_Decode_URL [OF assms(7)]])
  have eok: "agent_ok ?e"
    using assms(12,13) by (simp add: agent_ok_def invite_ok_def entry_of_invite_def)
  have ok: "config_ok (config_Set cfg name ?e)"
    by (rule config_ok_Set [OF assms(14) [OF load] assms(11) eok])
  have "map_of (agent_map (config_Set cfg name ?e)) name = Some ?e"
    by (simp add: agent_map_def config_Set_def)
  from Resolve_Inr [OF res this] assms(8-10) have t: "tgName t = name" "tgURL t = invURL iv" "tgToken t = invToken iv"
      "tgTLSFingerprint t = invTLSFingerprint iv" "\<not> tgInsecure t"
    by (simp_all add: entry_of_invite_def entry_of_flags_def)
  have "agents (config_Set cfg name ?e) \<noteq> None" by (simp add: config_Set_def)
  note set = this
  have v: "files v path = Some (config_text (config_Set cfg name ?e), m)" using saved assms(16) by simp
  obtain known onTrust v' where r: "resolveTarget env later v = (Inr (override_target later t, known, onTrust), v')"
    using resolveTarget_saved [OF v assms(15) ok set res assms(17) assms(3) assms(18) assms(5) assms(21)] by fast
  have o': "override_target later t = t" using assms(19,20,22) by (simp add: override_target_def)
  have h: "requireToken (invToken iv) next r = next r"
    if "authorization r = (case bearer_header (tgToken t) of None \<Rightarrow> [] | Some h \<Rightarrow> h)" for "next" r
    using header_opens [of r "invToken iv" "next"] that t(3) by simp
  have p: "fst (handshake (tlsConfigFor x t known onTrust) raws s) = None
      \<longleftrightarrow> raws \<noteq> [] \<and> Fingerprint (hd raws) = invTLSFingerprint iv"
    if "invTLSFingerprint iv \<noteq> []" for x :: "'x x509" and raws s
    using pinned_handshake [OF t(5), of x known onTrust raws s] t(4) that by simp
  show ?thesis
    by (intro exI [of _ t] exI [of _ known] exI [of _ onTrust] exI [of _ v'] conjI allI impI r [unfolded o'] t h p)
qed

lemma quiet_config_Save: "faults w = [] \<Longrightarrow> \<exists>w'. config_Save c path w = (Inr (), w') \<and> faults w' = []"
  using quiet_MkdirAll [of w "path_dir path" mode_700]
  by (auto simp: config_Save_def io_bind_def wrap_err_def quiet_WriteFile Rename_def take_fault_def)

definition add_flags :: "bytes \<Rightarrow> flags" where
  "add_flags blob = demo_flags\<lparr>flagString := (\<lambda>n. if n = ''config'' then ''conf'' else if n = ''from'' then blob else []),
     flagArgs := [''box'']\<rparr>"

lemma added_agent_is_pinned_witness:
  "\<exists>blob w' t known onTrust v'. invite_Encode (demo_invite\<lparr>invTLSFingerprint := ''ab''\<rparr>) = Inr blob
     \<and> runAdd demo_env (\<lambda>u. Inl EOF) (\<lambda>a. Inl EOF) (add_flags blob) empty_world = (Inr (), w')
     \<and> resolveTarget demo_env (add_flags []) (empty_world\<lparr>files := files w'\<rparr>) = (Inr (t, known, onTrust), v')
     \<and> tgURL t = ''https://box:8443'' \<and> tgToken t = ''s3cret''
     \<and> fst (handshake (tlsConfigFor no_x509 t known onTrust) [''mallory''] demo_state) \<noteq> None"
proof -
  let ?iv = "demo_invite\<lparr>invTLSFingerprint := ''ab''\<rparr>"
  have ok: "invite_ok ?iv"
    by (simp add: invite_ok_def demo_invite_def zero_invite_def valid_utf8_all_ascii ascii_def)
  obtain blob where enc: "invite_Encode ?iv = Inr blob" by (simp add: invite_Encode_def demo_invite_def)
  have dec: "invite_Decode blob = Inr ?iv" using invite_Decode_around [OF enc ok, of "[]" "[]"] by simp
  from enc have ne: "blob \<noteq> []" by (auto simp: invite_Encode_def invite_Prefix_def demo_invite_def)
  have box: "valid_utf8 ''box''" by (simp add: valid_utf8_all_ascii ascii_def)
  let ?cmd = "add_flags blob"
  let ?e = "entry_of_invite ?iv (entry_of_flags ?cmd)"
  have load: "LoadConfig ''conf'' empty_world = (Inr \<lparr>agents = Some []\<rparr>, empty_world)"
    by (simp add: LoadConfig_def quiet_ReadFile empty_world_def)
  have e: "add_entry demo_env (\<lambda>u. Inl EOF) (\<lambda>a. Inl EOF) ?cmd empty_world = (Inr ?e, empty_world)"
    using ne dec by (simp add: add_entry_def Let_def io_bind_def show_host_key_def add_flags_def entry_of_invite_def
        demo_invite_def zero_invite_def entry_of_flags_def)
  obtain w2 where save: "config_Save (config_Set \<lparr>agents = Some []\<rparr> ''box'' ?e) ''conf'' empty_world = (Inr (), w2)"
    using quiet_config_Save [of empty_world] by (auto simp: empty_world_def)
  have "\<exists>t. config_Resolve (config_Set \<lparr>agents = Some []\<rparr> ''box'' ?e) ''box'' = Inr t"
    by (simp add: config_Resolve_def config_Set_def agent_map_def entry_of_invite_def demo_invite_def entry_of_flags_def
        add_flags_def demo_flags_def ParseTransport_def)
  then obtain t where t: "config_Resolve (config_Set \<lparr>agents = Some []\<rparr> ''box'' ?e) ''box'' = Inr t" ..
  have "\<exists>w'. runAdd demo_env (\<lambda>u. Inl EOF) (\<lambda>a. Inl EOF) ?cmd empty_world = (Inr (), w')"
    using load e save t
    by (simp add: runAdd_def io_bind_def loadClientConfig_def Stdout_def arg_def add_flags_def agent_map_def Let_def)
  then obtain w' where run: "runAdd demo_env (\<lambda>u. Inl EOF) (\<lambda>a. Inl EOF) ?cmd empty_world = (Inr (), w')" ..
  have cok: "config_ok cfg" if "LoadConfig ''conf'' empty_world = (Inr cfg, w1)" for cfg w1
  proof -
    from that load have "cfg = \<lparr>agents = Some []\<rparr>" by simp
    then show ?thesis by (simp add: config_ok_def agent_map_def)
  qed
  have aok: "agent_ok (entry_of_flags ?cmd)"
    by (simp add: agent_ok_def entry_of_flags_def add_flags_def demo_flags_def arg_def)
  have mallory: "Fingerprint ''mallory'' \<noteq> ''ab''" by (simp add: Fingerprint_def)
  have "\<exists>t known onTrust v'. resolveTarget demo_env (add_flags []) (empty_world\<lparr>files := files w'\<rparr>) = (Inr (t, known, onTrust), v')
    \<and> tgName t = ''box'' \<and> tgURL t = invURL ?iv \<and> tgToken t = invToken ?iv
    \<and> (\<forall>r next. authorization r = (case bearer_header (tgToken t) of None \<Rightarrow> [] | Some h \<Rightarrow> h) \<longrightarrow>
         requireToken (invToken ?iv) next r = next r)
    \<and> (invTLSFingerprint ?iv \<noteq> [] \<longrightarrow> (\<forall>x raws s. fst (handshake (tlsConfigFor (x :: unit x509) t known onTrust) raws s) = None
         \<longleftrightarrow> raws \<noteq> [] \<and> Fingerprint (hd raws) = invTLSFingerprint ?iv))"
    by (rule added_agent_is_pinned [OF run _ _ _ _ _ _ _ _ _ _ ok aok cok])
      (simp_all add: add_flags_def arg_def demo_flags_def empty_world_def ne dec box)
  then obtain t known onTrust v' where r: "resolveTarget demo_env (add_flags []) (empty_world\<lparr>files := files w'\<rparr>) = (Inr (t, known, onTrust), v')"
    and u: "tgURL t = invURL ?iv" "tgToken t = invToken ?iv"
    and p: "invTLSFingerprint ?iv \<noteq> [] \<longrightarrow> (\<forall>x raws s. fst (handshake (tlsConfigFor (x :: unit x509) t known onTrust) raws s) = None
         \<longleftrightarrow> raws \<noteq> [] \<and> Fingerprint (hd raws) = invTLSFingerprint ?iv)" by (elim exE conjE)
  from p mallory have "fst (handshake (tlsConfigFor no_x509 t known onTrust) [''mallory''] demo_state) \<noteq> None" by simp
  with enc run r u show ?thesis
    by (intro exI [of _ blob] exI [of _ w'] exI [of _ t] exI [of _ known] exI [of _ onTrust] exI [of _ v'])
      (simp add: demo_invite_def)
qed

end
