(* ===== verification/Cli_Tables.thy ===== *)
theory Cli_Tables
  imports Cli_Client
begin

text \<open>
  The command tree of \<^verbatim>\<open>cmd/san_tunnels/main.go\<close>: the commands, the flags each declares, and the
  function each runs. Help texts are left out. Parsing an argument list against the tree is the command
  line library's; a command sees the flags of its own and of the commands above it.
\<close>

subsection \<open>The tree\<close>

text \<open>A flag with its kind and the value it has when it is not given; durations are in nanoseconds.\<close>

datatype flag_kind =
    StringFlag string
  | BoolFlag
  | IntFlag
  | StringSliceFlag
  | DurationFlag int

record flag_decl =
  fdName :: string
  fdKind :: flag_kind
  fdSources :: "string list"

datatype action =
    ActServer | ActAuthorize | ActHostKey | ActFingerprint | ActInit | ActInvite | ActEndpoints
  | ActProxy | ActSSHConfig | ActConnect | ActCheck | ActList | ActAdd | ActHosts

datatype writer_to = ToStdout | ToStderr

datatype cli_command =
  Command (cdName: string) (cdWriter: writer_to) (cdFlags: "flag_decl list") (cdAction: "action option")
    (cdCommands: "cli_command list")

definition flag :: "string \<Rightarrow> flag_kind \<Rightarrow> flag_decl" where
  "flag n k = \<lparr>fdName = n, fdKind = k, fdSources = []\<rparr>"

definition env_flag :: "string \<Rightarrow> flag_kind \<Rightarrow> string \<Rightarrow> flag_decl" where
  "env_flag n k v = \<lparr>fdName = n, fdKind = k, fdSources = [v]\<rparr>"

definition tokenFlag :: flag_decl where
  "tokenFlag = env_flag ''token'' (StringFlag '''') ''SAN_TUNNELS_TOKEN''"

definition serverCommand :: cli_command where
  "serverCommand = Command ''server'' ToStdout
     [flag ''listen'' (StringFlag '':8443''), flag ''tls-cert'' (StringFlag ''''), flag ''tls-key'' (StringFlag ''''),
      flag ''tls-auto'' BoolFlag, flag ''tls-host'' StringSliceFlag, flag ''h2c'' BoolFlag, tokenFlag,
      flag ''token-file'' (StringFlag ''''), flag ''host-key'' (StringFlag ''''), flag ''authorized-keys'' (StringFlag ''''),
      flag ''shell'' (StringFlag ''''), flag ''endpoint'' StringSliceFlag, flag ''ws-origin'' StringSliceFlag]
     (Some ActServer)
     [Command ''authorize'' ToStdout [flag ''authorized-keys'' (StringFlag '''')] (Some ActAuthorize) [],
      Command ''hostkey'' ToStdout [flag ''host-key'' (StringFlag '''')] (Some ActHostKey) [],
      Command ''fingerprint'' ToStdout
        [flag ''host-key'' (StringFlag ''''), flag ''tls-cert'' (StringFlag ''''), flag ''tls-key'' (StringFlag ''''),
         flag ''tls-host'' StringSliceFlag] (Some ActFingerprint) [],
      Command ''init'' ToStdout
        [flag ''host-key'' (StringFlag ''''), flag ''authorized-keys'' (StringFlag ''''), flag ''tls-cert'' (StringFlag ''''),
         flag ''tls-key'' (StringFlag ''''), flag ''tls-auto'' BoolFlag, flag ''tls-host'' StringSliceFlag,
         flag ''h2c'' BoolFlag, flag ''token-file'' (StringFlag ''''), flag ''force'' BoolFlag] (Some ActInit) [],
      Command ''invite'' ToStdout
        [flag ''url'' (StringFlag ''''), flag ''user'' (StringFlag ''''), flag ''host-key'' (StringFlag ''''),
         flag ''tls-cert'' (StringFlag ''''), flag ''tls-key'' (StringFlag ''''), flag ''tls-auto'' BoolFlag,
         flag ''tls-host'' StringSliceFlag, flag ''h2c'' BoolFlag, tokenFlag, flag ''token-file'' (StringFlag '''')]
        (Some ActInvite) [],
      Command ''endpoints'' ToStdout [flag ''endpoint'' StringSliceFlag] (Some ActEndpoints) []]"

definition transportFlag :: flag_decl where
  "transportFlag = env_flag ''transport'' (StringFlag '''') ''SAN_TUNNELS_TRANSPORT''"

definition configFlag :: flag_decl where
  "configFlag = env_flag ''config'' (StringFlag '''') ''SAN_TUNNELS_CONFIG''"

definition clientCommand :: cli_command where
  "clientCommand = Command ''client'' ToStdout [configFlag] None
     [Command ''proxy'' ToStderr
        [configFlag, flag ''endpoint'' (StringFlag ShellEndpoint), tokenFlag, flag ''insecure'' BoolFlag,
         flag ''tls-fingerprint'' (StringFlag ''''), transportFlag] (Some ActProxy) [],
      Command ''config'' ToStdout [configFlag] (Some ActSSHConfig) [],
      Command ''connect'' ToStdout
        [configFlag, flag ''endpoint'' (StringFlag ShellEndpoint), flag ''listen'' (StringFlag ''''), tokenFlag,
         flag ''insecure'' BoolFlag, flag ''tls-fingerprint'' (StringFlag ''''), transportFlag] (Some ActConnect) [],
      Command ''check'' ToStdout
        [configFlag, tokenFlag, flag ''insecure'' BoolFlag, flag ''tls-fingerprint'' (StringFlag ''''),
         flag ''timeout'' (DurationFlag (10 * 10 ^ 9)), transportFlag] (Some ActCheck) [],
      Command ''list'' ToStdout [configFlag] (Some ActList) [],
      Command ''add'' ToStdout
        [configFlag, flag ''from'' (StringFlag ''''), tokenFlag, flag ''user'' (StringFlag ''''), flag ''port'' IntFlag,
         flag ''tls-fingerprint'' (StringFlag ''''), flag ''insecure'' BoolFlag, flag ''force'' BoolFlag, transportFlag]
        (Some ActAdd) [],
      Command ''hosts'' ToStdout [configFlag] (Some ActHosts) []]"

definition root :: cli_command where
  "root = Command ''san_tunnels'' ToStdout
     [env_flag ''log-level'' (StringFlag ''info'') ''SAN_TUNNELS_LOG_LEVEL''] None [serverCommand, clientCommand]"

text \<open>The commands of a tree, each with the flags it sees.\<close>

fun visible :: "flag_decl list \<Rightarrow> cli_command \<Rightarrow> (action \<times> flag_decl list) list" where
  "visible outer (Command n wr fs a cs) =
     (case a of None \<Rightarrow> [] | Some x \<Rightarrow> [(x, fs @ outer)]) @ concat (map (visible (fs @ outer)) cs)"

definition flags_of :: "action \<Rightarrow> flag_decl list option" where
  "flags_of a = map_of (visible [] root) a"

text \<open>Two parsed command lines agree on a flag; on all that an action sees.\<close>

fun agree_on :: "flags \<Rightarrow> flags \<Rightarrow> flag_decl \<Rightarrow> bool" where
  "agree_on f g d =
     ((case fdKind d of
         StringFlag v \<Rightarrow> flagString f (fdName d) = flagString g (fdName d)
       | BoolFlag \<Rightarrow> flagBool f (fdName d) = flagBool g (fdName d)
       | IntFlag \<Rightarrow> flagInt f (fdName d) = flagInt g (fdName d)
       | StringSliceFlag \<Rightarrow> flagSlice f (fdName d) = flagSlice g (fdName d)
       | DurationFlag v \<Rightarrow> flagDuration f (fdName d) = flagDuration g (fdName d))
      \<and> flagIsSet f (fdName d) = flagIsSet g (fdName d))"

definition agree :: "action \<Rightarrow> flags \<Rightarrow> flags \<Rightarrow> bool" where
  "agree a f g \<longleftrightarrow> flagArgs f = flagArgs g
     \<and> (case flags_of a of None \<Rightarrow> False | Some ds \<Rightarrow> list_all (agree_on f g) ds)"

subsection \<open>The log level\<close>

text \<open>\<^verbatim>\<open>strconv.Atoi\<close>: a sign, then digits, within an \<^verbatim>\<open>int\<close>.\<close>

definition digits_value :: "bytes \<Rightarrow> nat option" where
  "digits_value s =
     (if s \<noteq> [] \<and> list_all (\<lambda>c. 48 \<le> code c \<and> code c \<le> 57) s
      then Some (fold (\<lambda>c n. 10 * n + (code c - 48)) s 0) else None)"

definition Atoi :: "bytes \<Rightarrow> int option" where
  "Atoi s =
     (let (neg, ds) = (case s of [] \<Rightarrow> (False, [])
        | c # cs \<Rightarrow> if c = CHR ''-'' then (True, cs) else if c = CHR ''+'' then (False, cs) else (False, s))
      in case digits_value ds of
           None \<Rightarrow> None
         | Some n \<Rightarrow>
             let v = (if neg then - int n else int n) in
             if - (2 ^ 63) \<le> v \<and> v < 2 ^ 63 then Some v else None)"

text \<open>
  \<^verbatim>\<open>slog.Level.UnmarshalText\<close>: a name in any case, then an optional offset. Two letters outside ASCII
  have ASCII capitals.
\<close>

fun upper_piece :: "piece \<Rightarrow> char option" where
  "upper_piece (Bad c) = None"
| "upper_piece (Rune r b) =
     (if 97 \<le> r \<and> r \<le> 122 then Some (char_of (r - 32))
      else if r = 305 then Some (CHR ''I'') else if r = 383 then Some (CHR ''S'')
      else if r < 128 then Some (char_of r) else None)"

definition upper_is :: "bytes \<Rightarrow> bytes \<Rightarrow> bool" where
  "upper_is s name \<longleftrightarrow> map upper_piece (pieces s) = map Some name"

definition parse_level :: "bytes \<Rightarrow> int option" where
  "parse_level s =
     (let plain = (\<lambda>c. c \<noteq> CHR ''+'' \<and> c \<noteq> CHR ''-''); name = takeWhile plain s; off = dropWhile plain s in
      case (if off = [] then Some 0 else Atoi off) of
        None \<Rightarrow> None
      | Some n \<Rightarrow>
          let add = (\<lambda>l. Some (sint (word_of_int (l + n) :: 64 word))) in
          if upper_is name ''DEBUG'' then add (- 4) else if upper_is name ''INFO'' then add 0
          else if upper_is name ''WARN'' then add 4 else if upper_is name ''ERROR'' then add 8 else None)"

text \<open>The \<^verbatim>\<open>Before\<close> of the root, which runs ahead of every command; the logger it sets is not modelled.\<close>

definition root_Before :: "flags \<Rightarrow> unit io" where
  "root_Before cmd =
     (case parse_level (flagString cmd ''log-level'') of
        None \<Rightarrow> io_fail (Errorf ''bad --log-level %q'' [flagString cmd ''log-level''] None)
      | Some level \<Rightarrow> io_return ())"

subsection \<open>Lemmas\<close>

lemmas table_defs = agree_def flags_of_def root_def serverCommand_def clientCommand_def flag_def env_flag_def
  tokenFlag_def transportFlag_def configFlag_def

lemma agree_tls:
  assumes "flagString f ''tls-cert'' = flagString g ''tls-cert''" and "flagString f ''tls-key'' = flagString g ''tls-key''"
    and "flagBool f ''tls-auto'' = flagBool g ''tls-auto''" and "flagBool f ''h2c'' = flagBool g ''h2c''"
  shows "resolveTLS env f = resolveTLS env g"
  unfolding resolveTLS_def assms ..

lemma agree_server:
  assumes "agree ActServer f g"
  shows "runServer H run f = runServer H run g"
proof -
  have "flagString f ''host-key'' = flagString g ''host-key''"
      "flagString f ''authorized-keys'' = flagString g ''authorized-keys''"
      "flagString f ''token'' = flagString g ''token''" "flagString f ''token-file'' = flagString g ''token-file''"
      "flagString f ''shell'' = flagString g ''shell''" "flagString f ''listen'' = flagString g ''listen''"
      "flagBool f ''h2c'' = flagBool g ''h2c''" "flagSlice f ''endpoint'' = flagSlice g ''endpoint''"
      "flagSlice f ''tls-host'' = flagSlice g ''tls-host''" "flagSlice f ''ws-origin'' = flagSlice g ''ws-origin''"
    using assms by (simp_all add: table_defs)
  moreover have "resolveTLS env f = resolveTLS env g" for env
    by (rule agree_tls) (use assms in \<open>simp_all add: table_defs\<close>)
  ultimately show ?thesis unfolding runServer_def by (simp only:)
qed

lemma agree_authorize: "agree ActAuthorize f g \<Longrightarrow> runAuthorize H f = runAuthorize H g"
  by (simp add: table_defs runAuthorize_def arg_def)

lemma agree_hostkey: "agree ActHostKey f g \<Longrightarrow> runHostKey H f = runHostKey H g"
  by (simp add: table_defs runHostKey_def)

lemma agree_fingerprint:
  assumes "agree ActFingerprint f g"
  shows "runFingerprint H f = runFingerprint H g"
proof -
  have "flagString f ''host-key'' = flagString g ''host-key''"
      "flagSlice f ''tls-host'' = flagSlice g ''tls-host''"
    using assms by (simp_all add: table_defs)
  moreover have "resolveTLS env f = resolveTLS env g" for env
    by (rule agree_tls) (use assms in \<open>simp_all add: table_defs\<close>)
  ultimately show ?thesis unfolding runFingerprint_def cert_fingerprint_def by (simp only:)
qed

lemma agree_init:
  assumes "agree ActInit f g"
  shows "runInit H f = runInit H g"
proof -
  have "flagString f ''host-key'' = flagString g ''host-key''"
      "flagString f ''authorized-keys'' = flagString g ''authorized-keys''"
      "flagString f ''token-file'' = flagString g ''token-file''" "flagBool f ''force'' = flagBool g ''force''"
      "flagSlice f ''tls-host'' = flagSlice g ''tls-host''"
    using assms by (simp_all add: table_defs)
  moreover have "resolveTLS env f = resolveTLS env g" for env
    by (rule agree_tls) (use assms in \<open>simp_all add: table_defs\<close>)
  ultimately show ?thesis unfolding runInit_def init_token_path_def cert_fingerprint_def by (simp only:)
qed

lemma agree_invite:
  assumes "agree ActInvite f g"
  shows "runInvite H f = runInvite H g"
proof -
  have "flagString f ''host-key'' = flagString g ''host-key''" "flagString f ''url'' = flagString g ''url''"
      "flagString f ''user'' = flagString g ''user''" "flagString f ''token'' = flagString g ''token''"
      "flagString f ''token-file'' = flagString g ''token-file''"
      "flagSlice f ''tls-host'' = flagSlice g ''tls-host''"
    using assms by (simp_all add: table_defs)
  moreover have "resolveTLS env f = resolveTLS env g" for env
    by (rule agree_tls) (use assms in \<open>simp_all add: table_defs\<close>)
  ultimately show ?thesis unfolding runInvite_def invite_token_path_def cert_fingerprint_def by (simp only:)
qed

lemma agree_endpoints: "agree ActEndpoints f g \<Longrightarrow> runEndpoints f = runEndpoints g"
  by (simp add: table_defs runEndpoints_def)

lemma agree_resolveTarget:
  assumes "flagArgs f = flagArgs g" and "flagString f ''config'' = flagString g ''config''"
    and "flagString f ''transport'' = flagString g ''transport''"
    and "flagString f ''token'' = flagString g ''token''"
    and "flagString f ''tls-fingerprint'' = flagString g ''tls-fingerprint''"
    and "flagBool f ''insecure'' = flagBool g ''insecure''"
  shows "resolveTarget env f = resolveTarget env g"
proof -
  have "override_target f = override_target g" using assms(4-6) by (simp add: override_target_def fun_eq_iff)
  with assms(1-3) show ?thesis unfolding resolveTarget_def loadClientConfig_def arg_def by (simp only:)
qed

lemma agree_proxy: "agree ActProxy f g \<Longrightarrow> runProxy env opened stdio f = runProxy env opened stdio g"
  using agree_resolveTarget [of f g env] by (simp add: table_defs runProxy_def)

lemma agree_connect:
  assumes "agree ActConnect f g"
  shows "runConnect env op ls st acs f = runConnect env op ls st acs g"
proof -
  have "flagString f ''endpoint'' = flagString g ''endpoint''" "flagString f ''listen'' = flagString g ''listen''"
      "flagIsSet f ''listen'' = flagIsSet g ''listen''" "resolveTarget env f = resolveTarget env g"
    using assms agree_resolveTarget [of f g env] by (simp_all add: table_defs)
  then show ?thesis unfolding runConnect_def [abs_def] by (simp only:)
qed

lemma agree_check: "agree ActCheck f g \<Longrightarrow> runCheck env check f = runCheck env check g"
  using agree_resolveTarget [of f g env] by (simp add: table_defs runCheck_def)

lemma agree_config: "flagString f ''config'' = flagString g ''config'' \<Longrightarrow> loadClientConfig env f = loadClientConfig env g"
  by (simp add: loadClientConfig_def)

lemma agree_list: "agree ActList f g \<Longrightarrow> runList env f = runList env g"
  using agree_config [of f g env] by (simp add: table_defs runList_def)

lemma agree_hosts: "agree ActHosts f g \<Longrightarrow> runHosts env h f = runHosts env h g"
  using agree_config [of f g env] by (simp add: table_defs runHosts_def)

lemma agree_add: "agree ActAdd f g \<Longrightarrow> runAdd env parse dial f = runAdd env parse dial g"
proof -
  assume a: "agree ActAdd f g"
  then have "entry_of_flags f = entry_of_flags g" "flagString f ''from'' = flagString g ''from''"
      "flagBool f ''force'' = flagBool g ''force''" "arg f = arg g"
    by (simp_all add: table_defs entry_of_flags_def arg_def fun_eq_iff)
  moreover from a have "loadClientConfig env f = loadClientConfig env g" by (intro agree_config) (simp add: table_defs)
  ultimately show ?thesis unfolding runAdd_def add_entry_def by (simp only:)
qed

text \<open>The block \<^verbatim>\<open>client config\<close> prints depends on the agent's name and user alone.\<close>

lemma SSHConfigBlock_override: "SSHConfigBlock (override_target f t) exe = SSHConfigBlock t exe"
  by (simp add: SSHConfigBlock_def override_target_def)

lemma io_bind_assoc: "io_bind (io_bind m f) g = io_bind m (\<lambda>x. io_bind (f x) g)"
  by (rule ext) (simp add: io_bind_def split: prod.splits sum.splits)

lemma io_bind_simps: "io_bind (io_fail e) f = io_fail e" "io_bind (io_return x) f = f x"
  by (simp_all add: io_bind_def fun_eq_iff)

lemma io_bind_split: "io_bind (case p of (a, b) \<Rightarrow> h a b) g = (case p of (a, b) \<Rightarrow> io_bind (h a b) g)"
  by (cases p) simp

lemma agree_SSHConfig:
  assumes "agree ActSSHConfig f g" and "flagString f ''transport'' = []" and "flagString g ''transport'' = []"
  shows "runSSHConfig env f = runSSHConfig env g"
proof -
  have target: "resolveTarget env x = (if arg x 0 = [] then io_fail (errors_new ''give an agent name'')
      else io_bind (loadClientConfig env x) (\<lambda>(cfg, path). io_bind (io_lift (config_Resolve cfg (arg x 0))) (\<lambda>t.
        io_bind (known_store env) (\<lambda>(known, onTrust). io_return (override_target x t, known, onTrust)))))"
    if "flagString x ''transport'' = []" for x
    unfolding resolveTarget_def that by simp
  have print: "runSSHConfig env x = (if arg x 0 = [] then io_fail (errors_new ''give an agent name'')
      else io_bind (loadClientConfig env x) (\<lambda>(cfg, path). io_bind (io_lift (config_Resolve cfg (arg x 0))) (\<lambda>t.
        io_bind (known_store env) (\<lambda>_. Stdout ''%s'' [SSHConfigBlock t (program_path env)]))))"
    if "flagString x ''transport'' = []" for x
    unfolding runSSHConfig_def target [OF that]
    by (simp add: io_bind_assoc io_bind_simps io_bind_split SSHConfigBlock_override)
  from assms(1) have eqs: "flagArgs f = flagArgs g" "flagString f ''config'' = flagString g ''config''"
    by (simp_all add: table_defs)
  have "arg f 0 = arg g 0" using eqs(1) by (simp add: arg_def)
  moreover have "loadClientConfig env f = loadClientConfig env g" by (rule agree_config [OF eqs(2)])
  ultimately show ?thesis unfolding print [OF assms(2)] print [OF assms(3)] by (simp only:)
qed

lemma every_action: "flags_of a \<noteq> None"
  by (cases a) (simp_all add: table_defs)

subsection \<open>Properties\<close>

text \<open>
  C28: every command is in the tree and reads only flags that are declared, for it or for a command
  above it, and each as what it is declared to be: command lines that agree on those flags and on the
  arguments do the same. The one exception is \<^verbatim>\<open>client config\<close>, which also looks at \<^verbatim>\<open>--transport\<close>; the
  other flags its target would take are not declared either, and make no difference.
\<close>

theorem actions_read_declared:
  "(\<forall>a. flags_of a \<noteq> None)
    \<and> (agree ActServer f g \<longrightarrow> runServer H run f = runServer H run g)
    \<and> (agree ActAuthorize f g \<longrightarrow> runAuthorize H f = runAuthorize H g)
    \<and> (agree ActHostKey f g \<longrightarrow> runHostKey H f = runHostKey H g)
    \<and> (agree ActFingerprint f g \<longrightarrow> runFingerprint H f = runFingerprint H g)
    \<and> (agree ActInit f g \<longrightarrow> runInit H f = runInit H g)
    \<and> (agree ActInvite f g \<longrightarrow> runInvite H f = runInvite H g)
    \<and> (agree ActEndpoints f g \<longrightarrow> runEndpoints f = runEndpoints g)
    \<and> (agree ActProxy f g \<longrightarrow> runProxy env opened stdio f = runProxy env opened stdio g)
    \<and> (agree ActSSHConfig f g \<longrightarrow> flagString f ''transport'' = [] \<longrightarrow> flagString g ''transport'' = [] \<longrightarrow>
         runSSHConfig env f = runSSHConfig env g)
    \<and> (agree ActConnect f g \<longrightarrow> runConnect env tunnels listen stopped accepts f = runConnect env tunnels listen stopped accepts g)
    \<and> (agree ActCheck f g \<longrightarrow> runCheck env check f = runCheck env check g)
    \<and> (agree ActList f g \<longrightarrow> runList env f = runList env g)
    \<and> (agree ActAdd f g \<longrightarrow> runAdd env parse dial f = runAdd env parse dial g)
    \<and> (agree ActHosts f g \<longrightarrow> runHosts env h f = runHosts env h g)"
  by (intro conjI allI impI every_action agree_server agree_authorize agree_hostkey agree_fingerprint agree_init
      agree_invite agree_endpoints agree_proxy agree_SSHConfig agree_connect agree_check agree_list agree_add agree_hosts)

definition other_flags :: flags where
  "other_flags = demo_flags\<lparr>flagInt := (\<lambda>n. 7), flagString := (flagString demo_flags)(''shell'' := ''zsh'', ''listen'' := '':1'')\<rparr>"

lemma actions_read_declared_witness:
  "agree ActAdd demo_flags (other_flags\<lparr>flagInt := (\<lambda>n. 0)\<rparr>) \<and> \<not> agree ActServer demo_flags other_flags
     \<and> runEndpoints demo_flags = runEndpoints other_flags"
proof -
  have "agree ActEndpoints demo_flags (other_flags\<lparr>flagString := flagString demo_flags\<rparr>)"
    by (simp add: table_defs other_flags_def demo_flags_def)
  then have "runEndpoints demo_flags = runEndpoints (other_flags\<lparr>flagString := flagString demo_flags\<rparr>)"
    by (rule actions_read_declared [THEN conjunct2, THEN conjunct2, THEN conjunct2, THEN conjunct2, THEN conjunct2, THEN conjunct2, THEN conjunct2,
      THEN conjunct1, THEN mp])
  then show ?thesis
    by (simp add: table_defs other_flags_def demo_flags_def runEndpoints_def)
qed

end
