(* ===== verification/Spec2Isabelle.thy ===== *)
theory Spec2Isabelle
  imports Keepalive Faults Probe Messages Broken Doors Registration Cli_Tables
begin

text \<open>
  \<^bold>\<open>The program.\<close> \<^verbatim>\<open>san_tunnels\<close> carries TCP connections and SSH sessions through one HTTPS endpoint. An
  agent (\<^verbatim>\<open>san_tunnels server\<close>) serves a Connect service over HTTP/2 and, for networks that break HTTP/2, a
  WebSocket; a client (\<^verbatim>\<open>san_tunnels client\<close>) opens a tunnel to an endpoint of the agent's allowlist and copies
  a local connection, or its standard input and output, into it. The name \<open>shell\<close> is an SSH server inside
  the agent. An agent is known by a certificate fingerprint and a token; \<^verbatim>\<open>server invite\<close> prints both with
  the address as one text, and \<^verbatim>\<open>client add\<close> takes it into the client's configuration.

  \<^bold>\<open>The way a byte takes\<close>, and the theory that models each station:
  \<^item> a local socket or standard input (\<open>Duplex\<close>: \<open>sock\<close>), copied by the goroutines of \<^verbatim>\<open>splice\<close> and
    \<^verbatim>\<open>Proxy\<close> (\<open>Connect\<close>: \<open>local_step\<close>, \<open>proxy_step\<close>; \<^verbatim>\<open>internal/client/connect.go\<close>, \<^verbatim>\<open>proxy.go\<close>);
  \<^item> into a \<^verbatim>\<open>streamconn.Conn\<close> (\<open>Streamconn\<close>: \<open>conn_Read\<close>, \<open>conn_Write\<close>, \<open>conn_CloseWrite\<close>, \<open>conn_Close\<close>;
    \<^verbatim>\<open>internal/streamconn\<close>) over a Connect stream or a WebSocket (\<open>Client\<close>, \<open>Wsconn\<close>, \<open>Transport\<close>, \<open>Rpc\<close>;
    \<^verbatim>\<open>internal/client/client.go\<close>, \<^verbatim>\<open>ws.go\<close>, \<^verbatim>\<open>internal/wsconn\<close>, the generated stubs);
  \<^item> past the agent's middleware and routes (\<open>Http\<close>: \<open>Handler\<close>, \<open>mux\<close>, \<open>requireToken\<close>, \<open>requireHTTP2\<close>,
    \<open>wsHandler\<close>; \<^verbatim>\<open>internal/agent/http.go\<close>, \<^verbatim>\<open>ws.go\<close>), served as \<open>Serve\<close> configures it;
  \<^item> to the handler (\<open>Service\<close>: \<open>Forward\<close>, \<open>Handle\<close>, \<open>handleTCP\<close>, \<open>Ping\<close>; \<^verbatim>\<open>internal/agent/service.go\<close>),
    which splices it to the dialled socket (\<open>tcp_step\<close>, \<open>handler_return\<close>) or hands it to the SSH server
    (\<open>Sshd\<close>: \<open>handleSession\<close>, a session with a terminal \<open>pty_step\<close> and one without \<open>exec_step\<close>;
    \<^verbatim>\<open>internal/agent/sshd.go\<close>).

  \<^bold>\<open>What surrounds it.\<close> \<open>Keys\<close> and \<open>Tlskey\<close> model the agent's host key, its authorized keys and its
  certificate; \<open>Config\<close>, \<open>Trust\<close> and \<open>Invite\<close> the client's configuration file, its store of known agents with
  the verification of certificates, and the invite text; \<open>Keepalive\<close> the timed loop that detects a vanished
  peer; \<open>Cli_Agent\<close>, \<open>Cli_Client\<close> and \<open>Cli_Tables\<close> the commands of \<^verbatim>\<open>cmd/san_tunnels/main.go\<close> and the tree
  of commands and flags. Below them are the parts of Go's library the source computes with, written out:
  \<open>Prelude\<close> (errors, strings, paths), \<open>Utf8\<close>, \<open>Base64\<close>, \<open>Sha256\<close>, \<open>Json\<close> with its round trip in
  \<open>Json_Facts\<close> and \<open>Json_Roundtrip\<close>, \<open>Gostruct\<close> (which member fills which field), \<open>Io\<close> (\<^verbatim>\<open>io.Copy\<close>) and
  \<open>World\<close> (files, modes, faults, output).

  \<^bold>\<open>State and steps.\<close> A function of the source is a HOL function of the same name where the name is free
  (with the type's name in front where it is not: \<open>config_Save\<close>, \<open>conn_Close\<close>, \<open>authorized_Append\<close>). A struct
  is a record, an enumeration a datatype, an error a value of \<open>go_error\<close> and a fallible result \<open>'a result\<close>.
  What the source mutates is passed and returned. A call that may never return has the result \<open>None\<close>; loops
  that may not end are \<open>partial_function (option)\<close>. Goroutines are step relations that interleave in any
  order: \<open>splice_step\<close> (two copies), \<open>pty_step\<close> and \<open>exec_step\<close> (SSH sessions), \<open>ka_step\<close> (the keepalive), \<open>net_step\<close>
  (client, network, agent and target of a tunnel together), \<open>fault_step\<close> (the same with failures of every
  part at any time), \<open>probe_step\<close> (the probe of \<^verbatim>\<open>Check\<close>, the path and the agent's \<^verbatim>\<open>Ping\<close>). Durations are seconds or nanoseconds as said where
  they are defined, sequence numbers of \<^verbatim>\<open>Ping\<close> are 64-bit words, SHA-256 works on 32-bit words.

  \<^bold>\<open>Interfaces.\<close> \<open>byte_source\<close> and \<open>byte_sink\<close> are the contracts of a reader and a writer, \<open>copying\<close> what
  \<^verbatim>\<open>io.Copy\<close> does between them; \<open>duplex\<close> adds the half-close, \<open>flow\<close> is one pump between two such
  connections and \<open>splicing\<close> the two of a session. \<open>script_recv\<close>, \<open>script_send\<close>, \<open>transport\<close> and
  \<open>duplex_conn\<close> are what a conn needs of the stream below it; both transports, at both ends, interpret them.
  \<open>lane\<close> is one direction over two hosts and the network between, \<open>tunnel_link\<close> a whole tunnel; \<open>Tunnels\<close>
  interprets them for Connect and for the WebSocket. \<open>flaky_sink\<close>, \<open>lossy\<close>, \<open>lossy_splicing\<close>, \<open>lossy_lane\<close> and
  \<open>lossy_link\<close> extend \<open>flow\<close>, \<open>splicing\<close>, \<open>lane\<close> and \<open>tunnel_link\<close> by what a failure leaves of them; \<open>Faults\<close>
  interprets them for both transports. \<open>load_or_create\<close> is an identity made once and read back;
  the host key and the certificate interpret it.

  \<^bold>\<open>What is shown.\<close>
  \<^item> \<open>Tunnels\<close>: an open tunnel, over either transport and under every interleaving, ends with everything
    delivered both ways when the target ends its output behind its input (runs are bounded by the measure
    \<open>net_left\<close>, and a run that cannot go on has delivered); what its two ends see refines two independent
    pipes; and the return of the handler cuts the upstream direction.
  \<^item> \<open>Faults\<close>: what is left when sockets refuse writes or are reset, sends fail and streams break, at any time:
    each side has a prefix of what the other sent and nothing behind its end, and both copies of a host end
    when what they read does; the local program sees an end only behind all the agent sent, as long as no failure
    is read as an end of file, which some breaks of a WebSocket are (\<open>ws_cut_looks_clean\<close>); and after a break a
    local program that waits for an answer is left waiting.
  \<^item> \<open>Probe\<close>: the probe of \<^verbatim>\<open>Check\<close> succeeds over a duplex path and never over one that buffers the request.
  \<^item> \<open>Messages\<close>: the generated structs, with nil pointers, say by their getters what the messages of
    \<open>Transport\<close> say.
  \<^item> \<open>Streamconn\<close>, \<open>Service\<close>, \<open>Connect\<close>, \<open>Tunnel\<close>: the same of one conn, one session and one run of writes, with
    the errors a stream can end with; what is acknowledged, and when; the probe and the proxy. \<open>Broken\<close>: what
    the two outer ends see when the stream breaks.
  \<^item> \<open>Http\<close>, \<open>Doors\<close>, \<open>Service\<close>: who gets in, by which path, and what may be dialled.
  \<^item> \<open>Trust\<close>, \<open>Tlskey\<close>, \<open>Keys\<close>, \<open>Registration\<close>: pins, trust on first use, identities that are made once and when
    one is replaced all the same, what an appended key grants, and an invite carried from the agent to the client.
  \<^item> \<open>Config\<close>, \<open>Invite\<close>, \<open>Json_Roundtrip\<close>: what is written is read back, and an interrupted save leaves the old file.
  \<^item> \<open>Sshd\<close>, \<open>Keepalive\<close>: a session sends exactly one status and can end once its process has exited, a command
    without waiting for the client's input; a vanished peer is noticed within 35 seconds.
  \<^item> \<open>Cli_Agent\<close>, \<open>Cli_Client\<close>, \<open>Cli_Tables\<close>: each command on its branches, and that a command reads only
    flags declared for it, at their types; where \<^verbatim>\<open>client connect\<close> listens.

  \<^bold>\<open>Bounds and fuel.\<close> Fuel is used in one place: the JSON parser takes twice the length of the text, because at
  most two of its calls are nested without a byte consumed between them; \<open>parse_fuel\<close> in \<open>Json_Roundtrip\<close> shows
  that more never changes the result. The library's nesting limit is \<open>max_depth\<close>. Reading an authorized-keys file
  is a loop that might not end, and \<open>Reload_terminates\<close> says that it does on every file. The other loops are
  structural, have a measure, or have a result for not returning.

  \<^bold>\<open>Parameters.\<close> Code outside the repository is an argument of the definitions that use it: the results of
  Connect streams and WebSockets (scripts of receives and sends, which cover every behaviour), dialling and
  listening, URL parsing, X.509 parsing and chain building, key and certificate formats, the SSH library,
  processes and terminals, argument parsing, the h2c wrapper, random bytes and clocks. A law that is
  assumed of one of them (a key that was marshalled parses again, say) is a hypothesis of the theorem that
  needs it and is instantiated in its witness. In the theorems that promise delivery no send and no write
  fails; those of \<open>Faults\<close> have every failure, among them the break of a stream that drops what had arrived
  and was not read. As long as nothing breaks, the network delivers in order and without loss, as HTTP/2 and WebSocket streams do, until the handler
  returns; the handler ends the response and closes the socket in two steps that others may come between.

  \<^bold>\<open>Not modelled.\<close> Logging and help texts; the protobuf runtime (reflection, the descriptor and the wire format of
  the messages, of which the structs, getters and \<^verbatim>\<open>Reset\<close> are modelled); cancellation of contexts, except where its outcome is an
  argument (\<open>Listen\<close>, \<open>Check\<close>, \<open>Serve\<close>, \<open>Keepalive\<close>); the mutexes of \<^verbatim>\<open>Conn\<close>, \<^verbatim>\<open>AuthorizedKeys\<close> and
  \<^verbatim>\<open>tlsVerifier\<close>, whose critical sections are taken as atomic steps; deadlines of a conn, which the source
  ignores as well; and the grace period of a terminal session, whose expiry may come at any time.
\<close>

end
